(* ===== verification/Prelude.thy ===== *)
theory Prelude
  imports Main "HOL-Library.Word"
begin

text \<open>
  Shared vocabulary of the development: the machine types of the Go sources, byte slices
  and their sub-slicing, Go strings as bytes, the decimal text of numbers in error messages,
  and a locale for invariants of step relations.  Go's fixed-width unsigned integers are
  words, so \<open>+\<close> wraps as it does in Go; byte slices and byte arrays are lists of
  \<open>8 word\<close>; Go strings are \<open>string\<close> (one \<open>char\<close> per byte).
\<close>

unbundle bit_operations_syntax

type_synonym byte = "8 word"
type_synonym u16 = "16 word"
type_synonym u32 = "32 word"
type_synonym u64 = "64 word"
type_synonym bytes = "byte list"

named_theorems wire_simps \<open>lengths and inverses of wire encodings\<close>

subsection \<open>Byte slices\<close>

text \<open>The Go slice expression \<open>xs[i:j]\<close>, used by the sources with indices in range only.\<close>

definition slice :: "nat \<Rightarrow> nat \<Rightarrow> 'a list \<Rightarrow> 'a list" where
  "slice i j xs = take (j - i) (drop i xs)"

text \<open>The Go statement \<open>copy(buf[off:], src)\<close>: as many elements as fit are overwritten.\<close>

definition copy_at :: "nat \<Rightarrow> 'a list \<Rightarrow> 'a list \<Rightarrow> 'a list" where
  "copy_at off src buf = take off buf @ take (length buf - off) src @ drop (off + length src) buf"

text \<open>The Go expression \<open>make([]byte, n)\<close>.\<close>

definition make_bytes :: "nat \<Rightarrow> bytes" where
  "make_bytes n = replicate n 0"

text \<open>A Go string as its bytes, and back.\<close>

definition bytes_of :: "string \<Rightarrow> bytes" where
  "bytes_of s = map (\<lambda>c. word_of_nat (of_char c)) s"

definition string_of :: "bytes \<Rightarrow> string" where
  "string_of b = map (\<lambda>w. char_of (unat w)) b"

text \<open>Decimal text of an unsigned number: the verb \<open>%d\<close>.\<close>

fun itoa :: "nat \<Rightarrow> string" where
  "itoa n = (if n < 10 then [char_of (48 + n)] else itoa (n div 10) @ [char_of (48 + n mod 10)])"

declare itoa.simps [simp del]

lemma length_slice [simp, wire_simps]: "length (slice i j xs) = min (j - i) (length xs - i)"
  by (simp add: slice_def min.commute)

lemma slice_append_left: "j \<le> length xs \<Longrightarrow> slice i j (xs @ ys) = slice i j xs"
  by (simp add: slice_def)

lemma slice_append_right:
  "length xs \<le> i \<Longrightarrow> slice i j (xs @ ys) = slice (i - length xs) (j - length xs) ys"
  by (simp add: slice_def)

lemma slice_all [simp]: "length xs \<le> j \<Longrightarrow> slice 0 j xs = xs"
  by (simp add: slice_def)

lemma slice_join: "i \<le> j \<Longrightarrow> j \<le> k \<Longrightarrow> slice i j xs @ slice j k xs = slice i k xs"
proof -
  assume "i \<le> j" and "j \<le> k"
  then have "k - i = (j - i) + (k - j)" and "drop (j - i) (drop i xs) = drop j xs"
    by simp_all
  then show ?thesis
    unfolding slice_def by (simp only: take_add)
qed

lemma slice_take: "j \<le> n \<Longrightarrow> slice i j (take n xs) = slice i j xs"
  by (simp add: slice_def drop_take min_def)

lemma slice_cong_take: "take n xs = take n ys \<Longrightarrow> j \<le> n \<Longrightarrow> slice i j xs = slice i j ys"
  by (metis slice_take)

lemma take_eq_slice: "take n xs = slice 0 n xs"
  by (simp add: slice_def)

lemma length_copy_at [simp]: "off \<le> length buf \<Longrightarrow> length (copy_at off src buf) = length buf"
  by (simp add: copy_at_def min_def)

lemma length_make_bytes [simp]: "length (make_bytes n) = n"
  by (simp add: make_bytes_def)

text \<open>
  Writing chunk after chunk into a zeroed buffer produces their concatenation: the buffer is
  always what has been written followed by zeros.
\<close>

lemma copy_at_fill:
  assumes "length pre = off" and "length src \<le> n"
  shows "copy_at off src (pre @ make_bytes n) = (pre @ src) @ make_bytes (n - length src)"
  using assms by (simp add: copy_at_def make_bytes_def)

lemma copy_at_make:
  "length src \<le> n \<Longrightarrow> copy_at 0 src (make_bytes n) = src @ make_bytes (n - length src)"
  using copy_at_fill [of "[]" 0 src n] by simp

lemma make_bytes_0 [simp]: "make_bytes 0 = []"
  by (simp add: make_bytes_def)

lemma bytes_of_Nil [simp]: "bytes_of [] = []"
  by (simp add: bytes_of_def)

lemma string_of_Nil [simp]: "string_of [] = []"
  by (simp add: string_of_def)

lemma length_bytes_of [simp, wire_simps]: "length (bytes_of s) = length s"
  by (simp add: bytes_of_def)

lemma length_string_of [simp, wire_simps]: "length (string_of b) = length b"
  by (simp add: string_of_def)

lemma string_of_bytes_of [simp, wire_simps]: "string_of (bytes_of s) = s"
proof -
  have "char_of (unat (word_of_nat (of_char c) :: byte)) = c" for c
    by (simp add: unat_of_nat)
  then show ?thesis
    by (simp add: string_of_def bytes_of_def comp_def)
qed

lemma bytes_of_string_of [simp, wire_simps]: "bytes_of (string_of b) = b"
proof -
  have "word_of_nat (of_char (char_of (unat w))) = w" for w :: byte
  proof -
    have "unat w < 256"
      using unsigned_less [of w, where ?'a = nat] by simp
    then show ?thesis by simp
  qed
  then show ?thesis
    by (simp add: string_of_def bytes_of_def comp_def)
qed

lemma bytes_of_eq_iff [simp]: "bytes_of s = bytes_of t \<longleftrightarrow> s = t"
  by (metis string_of_bytes_of)

lemma itoa_nonempty: "itoa n \<noteq> []"
  by (subst itoa.simps) simp

subsection \<open>Lengths as machine words\<close>

text \<open>Go's conversions \<open>uint16(len(x))\<close>, \<open>uint32(len(x))\<close>, \<open>uint64(len(x))\<close> truncate.\<close>

abbreviation len16 :: "'a list \<Rightarrow> u16" where
  "len16 xs \<equiv> word_of_nat (length xs)"

abbreviation len32 :: "'a list \<Rightarrow> u32" where
  "len32 xs \<equiv> word_of_nat (length xs)"

abbreviation len64 :: "'a list \<Rightarrow> u64" where
  "len64 xs \<equiv> word_of_nat (length xs)"

lemma unat_of_nat_small:
  "n < 2 ^ LENGTH('a::len) \<Longrightarrow> unat (word_of_nat n :: 'a word) = n"
  by (simp add: unsigned_of_nat take_bit_nat_eq_self)

lemma unat_ucast_u64: "unat (ucast (w :: u32) :: u64) = unat w"
  using unsigned_less [of w, where ?'a = nat] by (simp add: unsigned_ucast_eq take_bit_nat_eq_self)

subsection \<open>Invariants of step relations\<close>

text \<open>
  The states a step relation can reach from a set of initial states, and the principle all
  state-machine components use: what holds initially and is kept by every step holds in
  every reachable state.
\<close>

inductive reach :: "('s \<Rightarrow> bool) \<Rightarrow> ('s \<Rightarrow> 's \<Rightarrow> bool) \<Rightarrow> 's \<Rightarrow> bool"
  for init :: "'s \<Rightarrow> bool" and step :: "'s \<Rightarrow> 's \<Rightarrow> bool" where
  reach_init: "init s \<Longrightarrow> reach init step s"
| reach_step: "reach init step s \<Longrightarrow> step s t \<Longrightarrow> reach init step t"

locale inductive_invariant =
  fixes init :: "'s \<Rightarrow> bool"
    and step :: "'s \<Rightarrow> 's \<Rightarrow> bool"
    and inv :: "'s \<Rightarrow> bool"
  assumes inv_init: "init s \<Longrightarrow> inv s"
    and inv_step: "inv s \<Longrightarrow> step s t \<Longrightarrow> inv t"
begin

lemma reach_inv: "reach init step s \<Longrightarrow> inv s"
  by (induction rule: reach.induct) (auto intro: inv_init inv_step)

lemma steps_inv: "step\<^sup>*\<^sup>* s t \<Longrightarrow> inv s \<Longrightarrow> inv t"
  by (induction rule: rtranclp_induct) (auto intro: inv_step)

end

end
