(* ===== verification/Resource.thy ===== *)
theory Resource
  imports Prelude
begin

text \<open>
  Admission checks before allocation: \<open>internal/resource/resource.go\<close>.  The limits of a
  session, the refusals with their text, overflow-checked arithmetic on \<open>uint64\<close>, and the
  cumulative budget with its two consuming operations.
\<close>

subsection \<open>Limits, refusals and checked arithmetic\<close>

record limits =
  MaxBytes :: u64
  MaxCount :: u64
  MaxNesting :: u64
  MaxQueueDepth :: u64
  MaxConcurrent :: u64
  MaxRetries :: u64

definition DefaultLimits :: limits where
  "DefaultLimits = \<lparr>MaxBytes = 16777216, MaxCount = 1048576, MaxNesting = 1024,
     MaxQueueDepth = 1024, MaxConcurrent = 256, MaxRetries = 64\<rparr>"

datatype res_kind =
  KindBytes | KindCount | KindNesting | KindQueue | KindConcurrent | KindRetries | KindOverflow

fun res_kind_text :: "res_kind \<Rightarrow> string" where
  "res_kind_text KindBytes = ''bytes''"
| "res_kind_text KindCount = ''count''"
| "res_kind_text KindNesting = ''nesting''"
| "res_kind_text KindQueue = ''queue''"
| "res_kind_text KindConcurrent = ''concurrent''"
| "res_kind_text KindRetries = ''retries''"
| "res_kind_text KindOverflow = ''overflow''"

record res_error =
  re_Kind :: res_kind
  re_Limit :: u64
  re_Request :: u64
  re_Message :: string

definition refuse :: "res_kind \<Rightarrow> u64 \<Rightarrow> u64 \<Rightarrow> string \<Rightarrow> res_error" where
  "refuse kind lim request msg =
     \<lparr>re_Kind = kind, re_Limit = lim, re_Request = request, re_Message = msg\<rparr>"

text \<open>The error text; admission errors are never nil when this method is called.\<close>

definition res_error_text :: "res_error \<Rightarrow> string" where
  "res_error_text e =
     (if re_Message e \<noteq> [] then
        res_kind_text (re_Kind e) @ '': '' @ re_Message e @
          '' (limit='' @ itoa (unat (re_Limit e)) @ '' request='' @ itoa (unat (re_Request e)) @ '')''
      else
        res_kind_text (re_Kind e) @ '': limit='' @ itoa (unat (re_Limit e)) @
          '' request='' @ itoa (unat (re_Request e)))"

text \<open>A check returns \<open>None\<close> for Go's nil error.\<close>

definition AdmitBytes :: "limits \<Rightarrow> u64 \<Rightarrow> res_error option" where
  "AdmitBytes l n =
     (if MaxBytes l = 0 then Some (refuse KindBytes 0 n ''MaxBytes not configured'')
      else if MaxBytes l < n then Some (refuse KindBytes (MaxBytes l) n ''byte budget exceeded'')
      else None)"

definition AdmitCount :: "limits \<Rightarrow> u64 \<Rightarrow> res_error option" where
  "AdmitCount l n =
     (if MaxCount l = 0 then Some (refuse KindCount 0 n ''MaxCount not configured'')
      else if MaxCount l < n then Some (refuse KindCount (MaxCount l) n ''count budget exceeded'')
      else None)"

definition AdmitNesting :: "limits \<Rightarrow> u64 \<Rightarrow> res_error option" where
  "AdmitNesting l depth =
     (if MaxNesting l = 0 then Some (refuse KindNesting 0 depth ''MaxNesting not configured'')
      else if MaxNesting l < depth
        then Some (refuse KindNesting (MaxNesting l) depth ''nesting budget exceeded'')
      else None)"

definition AdmitQueue :: "limits \<Rightarrow> u64 \<Rightarrow> res_error option" where
  "AdmitQueue l depth =
     (if MaxQueueDepth l = 0 then Some (refuse KindQueue 0 depth ''MaxQueueDepth not configured'')
      else if MaxQueueDepth l < depth
        then Some (refuse KindQueue (MaxQueueDepth l) depth ''queue budget exceeded'')
      else None)"

definition AdmitConcurrent :: "limits \<Rightarrow> u64 \<Rightarrow> res_error option" where
  "AdmitConcurrent l n =
     (if MaxConcurrent l = 0 then Some (refuse KindConcurrent 0 n ''MaxConcurrent not configured'')
      else if MaxConcurrent l < n
        then Some (refuse KindConcurrent (MaxConcurrent l) n ''concurrency budget exceeded'')
      else None)"

definition AdmitRetries :: "limits \<Rightarrow> u64 \<Rightarrow> res_error option" where
  "AdmitRetries l n =
     (if MaxRetries l = 0 then Some (refuse KindRetries 0 n ''MaxRetries not configured'')
      else if MaxRetries l < n
        then Some (refuse KindRetries (MaxRetries l) n ''retry budget exceeded'')
      else None)"

definition MaxUint64 :: u64 where
  "MaxUint64 = 0xFFFFFFFFFFFFFFFF"

definition AddUint64 :: "u64 \<Rightarrow> u64 \<Rightarrow> res_error + u64" where
  "AddUint64 a b =
     (if MaxUint64 - b < a then Inl (refuse KindOverflow MaxUint64 a ''unsigned addition overflow'')
      else Inr (a + b))"

definition MulUint64 :: "u64 \<Rightarrow> u64 \<Rightarrow> res_error + u64" where
  "MulUint64 a b =
     (if a = 0 \<or> b = 0 then Inr 0
      else if MaxUint64 div b < a
        then Inl (refuse KindOverflow MaxUint64 a ''unsigned multiplication overflow'')
      else Inr (a * b))"

definition AdmitSliceCap :: "limits \<Rightarrow> u64 \<Rightarrow> u64 \<Rightarrow> res_error option" where
  "AdmitSliceCap l n elemSize =
     (case AdmitCount l n of
        Some e \<Rightarrow> Some e
      | None \<Rightarrow>
          (case MulUint64 n elemSize of
             Inl e \<Rightarrow> Some e
           | Inr sz \<Rightarrow> AdmitBytes l sz))"

record budget =
  b_Limits :: limits
  b_Bytes :: u64
  b_Count :: u64

text \<open>The consuming operations return the error, or the updated budget; on error the budget stays.\<close>

definition ConsumeBytes :: "budget \<Rightarrow> u64 \<Rightarrow> res_error + budget" where
  "ConsumeBytes b n =
     (case AddUint64 (b_Bytes b) n of
        Inl e \<Rightarrow> Inl e
      | Inr newSum \<Rightarrow>
          (case AdmitBytes (b_Limits b) newSum of
             Some e \<Rightarrow> Inl e
           | None \<Rightarrow> Inr (b\<lparr>b_Bytes := newSum\<rparr>)))"

definition ConsumeCount :: "budget \<Rightarrow> u64 \<Rightarrow> res_error + budget" where
  "ConsumeCount b n =
     (case AddUint64 (b_Count b) n of
        Inl e \<Rightarrow> Inl e
      | Inr newSum \<Rightarrow>
          (case AdmitCount (b_Limits b) newSum of
             Some e \<Rightarrow> Inl e
           | None \<Rightarrow> Inr (b\<lparr>b_Count := newSum\<rparr>)))"

subsection \<open>Checked arithmetic is exact\<close>

lemma AddUint64_Inr_iff:
  "AddUint64 a b = Inr c \<longleftrightarrow> unat a + unat b < 2 ^ 64 \<and> c = a + b"
proof -
  have "b \<le> MaxUint64"
    using unsigned_less [of b, where ?'a = nat] by (simp add: word_le_nat_alt MaxUint64_def)
  then have "unat (MaxUint64 - b) = 2 ^ 64 - 1 - unat b"
    by (simp add: unat_sub MaxUint64_def)
  then have "MaxUint64 - b < a \<longleftrightarrow> \<not> unat a + unat b < 2 ^ 64"
    using unsigned_less [of b, where ?'a = nat] by (auto simp: word_less_nat_alt)
  then show ?thesis by (auto simp: AddUint64_def)
qed

lemma AddUint64_exact: "AddUint64 a b = Inr c \<Longrightarrow> unat c = unat a + unat b"
  by (auto simp: AddUint64_Inr_iff unat_word_ariths)

lemma AdmitBytes_None_iff: "AdmitBytes l n = None \<longleftrightarrow> MaxBytes l \<noteq> 0 \<and> n \<le> MaxBytes l"
  by (auto simp: AdmitBytes_def)

lemma AdmitCount_None_iff: "AdmitCount l n = None \<longleftrightarrow> MaxCount l \<noteq> 0 \<and> n \<le> MaxCount l"
  by (auto simp: AdmitCount_def)

lemma AdmitQueue_None_iff:
  "AdmitQueue l n = None \<longleftrightarrow> MaxQueueDepth l \<noteq> 0 \<and> n \<le> MaxQueueDepth l"
  by (auto simp: AdmitQueue_def)

lemma MulUint64_exact: "MulUint64 a b = Inr c \<longleftrightarrow> unat a * unat b < 2 ^ 64 \<and> c = a * b"
proof (cases "a = 0 \<or> b = 0")
  case True
  then show ?thesis by (auto simp: MulUint64_def)
next
  case False
  then have pos: "0 < unat b"
    by (simp add: unat_gt_0)
  have "MaxUint64 div b < a \<longleftrightarrow> (2 ^ 64 - 1) div unat b < unat a"
    by (simp add: MaxUint64_def word_less_nat_alt unat_div)
  also have "\<dots> \<longleftrightarrow> \<not> unat a * unat b \<le> 2 ^ 64 - 1"
    by (simp only: less_eq_div_iff_mult_less_eq [OF pos, symmetric] not_le)
  also have "\<dots> \<longleftrightarrow> \<not> unat a * unat b < 2 ^ 64"
    by auto
  finally show ?thesis
    using False by (auto simp: MulUint64_def)
qed

lemma ConsumeBytes_ok:
  assumes "ConsumeBytes b n = Inr b'"
  shows "unat (b_Bytes b') = unat (b_Bytes b) + unat n" and "b_Bytes b' \<le> MaxBytes (b_Limits b)"
    and "b_Limits b' = b_Limits b" and "b_Count b' = b_Count b"
  using assms AddUint64_exact
  by (auto simp: ConsumeBytes_def AdmitBytes_None_iff split: sum.splits option.splits)

lemma ConsumeCount_ok:
  assumes "ConsumeCount b n = Inr b'"
  shows "unat (b_Count b') = unat (b_Count b) + unat n" and "b_Count b' \<le> MaxCount (b_Limits b)"
    and "b_Limits b' = b_Limits b" and "b_Bytes b' = b_Bytes b"
  using assms AddUint64_exact
  by (auto simp: ConsumeCount_def AdmitCount_None_iff split: sum.splits option.splits)

subsection \<open>Runs of a budget\<close>

text \<open>A session's requests against its budget; a refused request leaves the budget as it was.\<close>

datatype request = ReqBytes u64 | ReqCount u64

fun consume :: "budget \<Rightarrow> request \<Rightarrow> budget" where
  "consume b (ReqBytes n) = (case ConsumeBytes b n of Inl e \<Rightarrow> b | Inr b' \<Rightarrow> b')"
| "consume b (ReqCount n) = (case ConsumeCount b n of Inl e \<Rightarrow> b | Inr b' \<Rightarrow> b')"

definition within_limits :: "budget \<Rightarrow> bool" where
  "within_limits b \<longleftrightarrow> b_Bytes b \<le> MaxBytes (b_Limits b) \<and> b_Count b \<le> MaxCount (b_Limits b)"

lemma consume_limits [simp]: "b_Limits (consume b r) = b_Limits b"
  by (cases r) (auto split: sum.splits dest: ConsumeBytes_ok(3) ConsumeCount_ok(3))

lemma consume_within: "within_limits b \<Longrightarrow> within_limits (consume b r)"
proof (cases r)
  case (ReqBytes n)
  assume w: "within_limits b"
  show ?thesis
  proof (cases "ConsumeBytes b n")
    case (Inr b')
    with w ReqBytes ConsumeBytes_ok(2-4) [OF Inr] show ?thesis
      by (simp add: within_limits_def)
  qed (simp add: w ReqBytes)
next
  case (ReqCount n)
  assume w: "within_limits b"
  show ?thesis
  proof (cases "ConsumeCount b n")
    case (Inr b')
    with w ReqCount ConsumeCount_ok(2-4) [OF Inr] show ?thesis
      by (simp add: within_limits_def)
  qed (simp add: w ReqCount)
qed

interpretation budget_run: inductive_invariant
  "\<lambda>b. b_Bytes b = 0 \<and> b_Count b = 0" "\<lambda>b b'. \<exists>r. b' = consume b r" within_limits
proof
  fix b :: budget
  assume "b_Bytes b = 0 \<and> b_Count b = 0"
  then show "within_limits b"
    by (simp add: within_limits_def)
next
  fix b b' :: budget
  assume "within_limits b" and "\<exists>r. b' = consume b r"
  then show "within_limits b'"
    by (auto intro: consume_within)
qed

subsection \<open>Properties\<close>

text \<open>
  C26: \<open>AdmitSliceCap\<close> admits a slice exactly when both limits are configured, the element count
  is within the count limit and the true product of count and element size, not the wrapped
  one, is within the byte limit.
\<close>

theorem slice_cap_exact:
  "AdmitSliceCap l n e = None \<longleftrightarrow>
     MaxCount l \<noteq> 0 \<and> unat n \<le> unat (MaxCount l) \<and> MaxBytes l \<noteq> 0 \<and> unat n * unat e \<le> unat (MaxBytes l)"
proof -
  have big: "unat (MaxBytes l) < 2 ^ 64"
    using unsigned_less [of "MaxBytes l", where ?'a = nat] by simp
  have mul: "unat (n * e) = unat n * unat e" if "unat n * unat e < 2 ^ 64"
    using that by (simp add: unat_word_ariths)
  have cap: "AdmitSliceCap l n e = None \<longleftrightarrow>
      AdmitCount l n = None \<and> (case MulUint64 n e of Inl _ \<Rightarrow> False | Inr sz \<Rightarrow> AdmitBytes l sz = None)"
    by (auto simp: AdmitSliceCap_def split: option.splits sum.splits)
  show ?thesis
  proof (cases "unat n * unat e < 2 ^ 64")
    case True
    then have "MulUint64 n e = Inr (n * e)"
      by (simp add: MulUint64_exact)
    then show ?thesis
      using mul [OF True] by (simp add: cap AdmitBytes_None_iff AdmitCount_None_iff word_le_nat_alt)
  next
    case False
    then obtain err where "MulUint64 n e = Inl err"
      using MulUint64_exact [of n e] by (cases "MulUint64 n e") auto
    with False big show ?thesis
      by (simp add: cap)
  qed
qed

text \<open>A budget after a sequence of requests.\<close>

fun consume_all :: "budget \<Rightarrow> request list \<Rightarrow> budget" where
  "consume_all b [] = b"
| "consume_all b (r # rs) = consume_all (consume b r) rs"

text \<open>What a request asks for, and the requests of a run that were granted.\<close>

fun asked_bytes :: "request \<Rightarrow> nat" where
  "asked_bytes (ReqBytes n) = unat n"
| "asked_bytes (ReqCount n) = 0"

fun asked_count :: "request \<Rightarrow> nat" where
  "asked_count (ReqBytes n) = 0"
| "asked_count (ReqCount n) = unat n"

definition granted :: "budget \<Rightarrow> request \<Rightarrow> bool" where
  "granted b r = (case r of ReqBytes n \<Rightarrow> \<not> isl (ConsumeBytes b n) | ReqCount n \<Rightarrow> \<not> isl (ConsumeCount b n))"

fun granted_run :: "budget \<Rightarrow> request list \<Rightarrow> request list" where
  "granted_run b [] = []"
| "granted_run b (r # rs) = (if granted b r then r # granted_run (consume b r) rs else granted_run b rs)"

lemma consume_granted:
  "granted b r \<Longrightarrow> unat (b_Bytes (consume b r)) = unat (b_Bytes b) + asked_bytes r \<and>
     unat (b_Count (consume b r)) = unat (b_Count b) + asked_count r"
  by (cases r) (auto simp: granted_def ConsumeBytes_ok ConsumeCount_ok split: sum.splits)

lemma consume_refused: "\<not> granted b r \<Longrightarrow> consume b r = b"
  by (cases r) (auto simp: granted_def split: sum.splits)

lemma granted_iff:
  "granted b r \<longleftrightarrow>
     (case r of
        ReqBytes n \<Rightarrow> MaxBytes (b_Limits b) \<noteq> 0 \<and> unat (b_Bytes b) + unat n \<le> unat (MaxBytes (b_Limits b))
      | ReqCount n \<Rightarrow> MaxCount (b_Limits b) \<noteq> 0 \<and> unat (b_Count b) + unat n \<le> unat (MaxCount (b_Limits b)))"
proof -
  have big: "unat x < 2 ^ 64" for x :: u64
    using unsigned_less [of x, where ?'a = nat] by simp
  have add: "AddUint64 a n = Inr (a + n) \<and> unat (a + n) = unat a + unat n" if "unat a + unat n < 2 ^ 64" for a n
    using that AddUint64_Inr_iff AddUint64_exact by blast
  have no: "\<exists>e. AddUint64 a n = Inl e" if "\<not> unat a + unat n < 2 ^ 64" for a n
    using that AddUint64_Inr_iff [of a n] by (cases "AddUint64 a n") auto
  show ?thesis
  proof (cases r)
    case (ReqBytes n)
    show ?thesis
    proof (cases "unat (b_Bytes b) + unat n < 2 ^ 64")
      case True
      then show ?thesis
        using add [OF True] AdmitBytes_None_iff [of "b_Limits b" "b_Bytes b + n"]
        by (auto simp: granted_def ReqBytes ConsumeBytes_def word_le_nat_alt split: option.splits)
    next
      case False
      then show ?thesis
        using no [OF False] big [of "MaxBytes (b_Limits b)"]
        by (auto simp: granted_def ReqBytes ConsumeBytes_def)
    qed
  next
    case (ReqCount n)
    show ?thesis
    proof (cases "unat (b_Count b) + unat n < 2 ^ 64")
      case True
      then show ?thesis
        using add [OF True] AdmitCount_None_iff [of "b_Limits b" "b_Count b + n"]
        by (auto simp: granted_def ReqCount ConsumeCount_def word_le_nat_alt split: option.splits)
    next
      case False
      then show ?thesis
        using no [OF False] big [of "MaxCount (b_Limits b)"]
        by (auto simp: granted_def ReqCount ConsumeCount_def)
    qed
  qed
qed

lemma run_totals:
  "unat (b_Bytes (consume_all b rs)) = unat (b_Bytes b) + sum_list (map asked_bytes (granted_run b rs)) \<and>
   unat (b_Count (consume_all b rs)) = unat (b_Count b) + sum_list (map asked_count (granted_run b rs))"
  by (induction rs arbitrary: b) (simp_all add: consume_granted consume_refused)

lemma run_reach: "(\<lambda>b b'. \<exists>r. b' = consume b r)\<^sup>*\<^sup>* b (consume_all b rs)"
  by (induction rs arbitrary: b) (auto intro: converse_rtranclp_into_rtranclp)

lemma run_limits: "b_Limits (consume_all b rs) = b_Limits b"
  by (induction rs arbitrary: b) simp_all

text \<open>
  C27: Over any sequence of requests a budget that starts empty holds exactly the sum of the
  requests it granted, as integers, and never exceeds its byte and count limits: no sequence of
  requests can wrap the counters past a limit.  After any such sequence a further request for
  bytes is granted exactly when the byte limit is configured and the byte total with it stays
  within that limit, and a request for a count exactly when the count limit is configured and
  the count total with it stays within that limit.
\<close>

theorem budget_never_exceeded:
  assumes "b_Bytes b = 0" and "b_Count b = 0"
  shows "unat (b_Bytes (consume_all b rs)) = sum_list (map asked_bytes (granted_run b rs)) \<and>
         unat (b_Count (consume_all b rs)) = sum_list (map asked_count (granted_run b rs)) \<and>
         unat (b_Bytes (consume_all b rs)) \<le> unat (MaxBytes (b_Limits b)) \<and>
         unat (b_Count (consume_all b rs)) \<le> unat (MaxCount (b_Limits b)) \<and>
         (granted (consume_all b rs) (ReqBytes n) \<longleftrightarrow>
            MaxBytes (b_Limits b) \<noteq> 0 \<and> unat (b_Bytes (consume_all b rs)) + unat n \<le> unat (MaxBytes (b_Limits b))) \<and>
         (granted (consume_all b rs) (ReqCount k) \<longleftrightarrow>
            MaxCount (b_Limits b) \<noteq> 0 \<and> unat (b_Count (consume_all b rs)) + unat k \<le> unat (MaxCount (b_Limits b)))"
proof -
  have "within_limits b"
    using assms(1,2) by (intro budget_run.inv_init) simp
  then have "within_limits (consume_all b rs)"
    by (rule budget_run.steps_inv [OF run_reach])
  then have "unat (b_Bytes (consume_all b rs)) \<le> unat (MaxBytes (b_Limits b))"
    and "unat (b_Count (consume_all b rs)) \<le> unat (MaxCount (b_Limits b))"
    by (simp_all add: within_limits_def run_limits word_le_nat_alt)
  then show ?thesis
    using run_totals [of b rs] assms(1,2) granted_iff [of "consume_all b rs" "ReqBytes n"]
      granted_iff [of "consume_all b rs" "ReqCount k"]
    by (simp add: run_limits)
qed

theorem budget_never_exceeded_witness:
  "let b = \<lparr>b_Limits = DefaultLimits, b_Bytes = 0, b_Count = 0\<rparr>;
       b' = consume_all b [ReqBytes 16777216, ReqBytes (- 1), ReqCount 3]
   in unat (b_Bytes b') = 16777216 \<and> unat (b_Count b') = 3 \<and>
      \<not> granted b' (ReqBytes 1) \<and> granted b' (ReqCount 4)"
proof -
  define b where "b = \<lparr>b_Limits = DefaultLimits, b_Bytes = 0, b_Count = 0\<rparr>"
  define rs where "rs = [ReqBytes 16777216, ReqBytes (- 1), ReqCount 3]"
  have zero: "b_Bytes b = 0" "b_Count b = 0" and lim: "b_Limits b = DefaultLimits"
    by (simp_all add: b_def)
  note run = budget_never_exceeded [OF zero, of rs 1 4]
  have "granted_run b rs = [ReqBytes 16777216, ReqCount 3]"
    unfolding b_def rs_def by code_simp
  then have "sum_list (map asked_bytes (granted_run b rs)) = 16777216"
    and "sum_list (map asked_count (granted_run b rs)) = 3"
    by simp_all
  with run show ?thesis
    unfolding Let_def b_def [symmetric] rs_def [symmetric] by (simp add: lim DefaultLimits_def)
qed

end
