(* ===== verification/Sha256.thy ===== *)
theory Sha256
  imports Prelude
begin

text \<open>
  The standard-library primitives the sources call: \<open>sha256.Sum256\<close> (FIPS 180-4) and
  \<open>hmac.New(sha256.New, key)\<close> (RFC 2104).  They are ordinary executable functions on byte
  lists; the development uses of them that a digest is 32 bytes long.
\<close>

subsection \<open>The SHA-256 compression function\<close>

text \<open>
  The round constants are, by definition, the first 32 bits of the fractional parts of the cube
  roots of the first 64 primes, and the initial state those of the square roots of the first 8.
  \<open>iroot b k n\<close> is the integer \<open>k\<close>-th root of \<open>n\<close>, found bit by bit below \<open>2 ^ b\<close>.
\<close>

fun iroot_from :: "nat \<Rightarrow> int \<Rightarrow> nat \<Rightarrow> int \<Rightarrow> int" where
  "iroot_from k n 0 r = r"
| "iroot_from k n (Suc b) r = iroot_from k n b (if (r + 2 ^ b) ^ k \<le> n then r + 2 ^ b else r)"

definition iroot :: "nat \<Rightarrow> nat \<Rightarrow> int \<Rightarrow> int" where
  "iroot b k n = iroot_from k n b 0"

definition sha_primes :: "int list" where
  "sha_primes =
    [2, 3, 5, 7, 11, 13, 17, 19, 23, 29, 31, 37, 41, 43, 47, 53,
     59, 61, 67, 71, 73, 79, 83, 89, 97, 101, 103, 107, 109, 113, 127, 131,
     137, 139, 149, 151, 157, 163, 167, 173, 179, 181, 191, 193, 197, 199, 211, 223,
     227, 229, 233, 239, 241, 251, 257, 263, 269, 271, 277, 281, 283, 293, 307, 311]"

definition sha_K :: "u32 list" where
  "sha_K = map (\<lambda>p. word_of_int (iroot 36 3 (p * 2 ^ 96))) sha_primes"

type_synonym sha_state = "u32 \<times> u32 \<times> u32 \<times> u32 \<times> u32 \<times> u32 \<times> u32 \<times> u32"

definition sha_H0 :: sha_state where
  "sha_H0 =
     (let h = (\<lambda>i. word_of_int (iroot 38 2 (sha_primes ! i * 2 ^ 64)))
      in (h 0, h 1, h 2, h 3, h 4, h 5, h 6, h 7))"

definition small_sigma0 :: "u32 \<Rightarrow> u32" where
  "small_sigma0 w = word_rotr 7 w XOR word_rotr 18 w XOR drop_bit 3 w"

definition small_sigma1 :: "u32 \<Rightarrow> u32" where
  "small_sigma1 w = word_rotr 17 w XOR word_rotr 19 w XOR drop_bit 10 w"

definition big_sigma0 :: "u32 \<Rightarrow> u32" where
  "big_sigma0 w = word_rotr 2 w XOR word_rotr 13 w XOR word_rotr 22 w"

definition big_sigma1 :: "u32 \<Rightarrow> u32" where
  "big_sigma1 w = word_rotr 6 w XOR word_rotr 11 w XOR word_rotr 25 w"

definition sha_ch :: "u32 \<Rightarrow> u32 \<Rightarrow> u32 \<Rightarrow> u32" where
  "sha_ch x y z = (x AND y) XOR (NOT x AND z)"

definition sha_maj :: "u32 \<Rightarrow> u32 \<Rightarrow> u32 \<Rightarrow> u32" where
  "sha_maj x y z = (x AND y) XOR (x AND z) XOR (y AND z)"

fun be_words :: "bytes \<Rightarrow> u32 list" where
  "be_words (a # b # c # d # rest) =
     (push_bit 24 (ucast a) OR push_bit 16 (ucast b) OR push_bit 8 (ucast c) OR ucast d) # be_words rest"
| "be_words _ = []"

definition be_bytes32 :: "u32 \<Rightarrow> bytes" where
  "be_bytes32 w = [ucast (drop_bit 24 w), ucast (drop_bit 16 w), ucast (drop_bit 8 w), ucast w]"

text \<open>The message schedule: \<open>n\<close> further words after the sixteen words of the block.\<close>

fun sha_schedule :: "nat \<Rightarrow> u32 list \<Rightarrow> u32 list" where
  "sha_schedule 0 ws = ws"
| "sha_schedule (Suc n) ws =
     (let t = length ws in
      sha_schedule n (ws @ [small_sigma1 (ws ! (t - 2)) + ws ! (t - 7) +
                            small_sigma0 (ws ! (t - 15)) + ws ! (t - 16)]))"

fun sha_round :: "u32 \<times> u32 \<Rightarrow> sha_state \<Rightarrow> sha_state" where
  "sha_round (k, w) (a, b, c, d, e, f, g, h) =
     (let t1 = h + big_sigma1 e + sha_ch e f g + k + w;
          t2 = big_sigma0 a + sha_maj a b c
      in (t1 + t2, a, b, c, d + t1, e, f, g))"

fun sha_add :: "sha_state \<Rightarrow> sha_state \<Rightarrow> sha_state" where
  "sha_add (a, b, c, d, e, f, g, h) (a', b', c', d', e', f', g', h') =
     (a + a', b + b', c + c', d + d', e + e', f + f', g + g', h + h')"

definition sha_block :: "sha_state \<Rightarrow> bytes \<Rightarrow> sha_state" where
  "sha_block st blk = sha_add st (fold sha_round (zip sha_K (sha_schedule 48 (be_words blk))) st)"

function sha_blocks :: "sha_state \<Rightarrow> bytes \<Rightarrow> sha_state" where
  "sha_blocks st b =
     (if length b < 64 then st else sha_blocks (sha_block st (take 64 b)) (drop 64 b))"
  by pat_completeness auto
termination
  by (relation "measure (\<lambda>(st, b). length b)") auto

declare sha_blocks.simps [simp del]

subsection \<open>Padding, digest and HMAC\<close>

definition be_bytes64 :: "u64 \<Rightarrow> bytes" where
  "be_bytes64 w = be_bytes32 (ucast (drop_bit 32 w)) @ be_bytes32 (ucast w)"

definition sha_pad :: "bytes \<Rightarrow> bytes" where
  "sha_pad m = m @ [0x80] @ replicate ((119 - length m mod 64) mod 64) 0 @
     be_bytes64 (8 * word_of_nat (length m))"

fun sha_state_bytes :: "sha_state \<Rightarrow> bytes" where
  "sha_state_bytes (a, b, c, d, e, f, g, h) =
     be_bytes32 a @ be_bytes32 b @ be_bytes32 c @ be_bytes32 d @
     be_bytes32 e @ be_bytes32 f @ be_bytes32 g @ be_bytes32 h"

definition sha256_Sum256 :: "bytes \<Rightarrow> bytes" where
  "sha256_Sum256 m = sha_state_bytes (sha_blocks sha_H0 (sha_pad m))"

definition hmac_sha256 :: "bytes \<Rightarrow> bytes \<Rightarrow> bytes" where
  "hmac_sha256 key msg =
     (let k0 = (if length key > 64 then sha256_Sum256 key else key);
          k = k0 @ replicate (64 - length k0) 0;
          inner = sha256_Sum256 (map (\<lambda>b. b XOR 0x36) k @ msg)
      in sha256_Sum256 (map (\<lambda>b. b XOR 0x5c) k @ inner))"

lemma length_be_bytes32 [simp]: "length (be_bytes32 w) = 4"
  by (simp add: be_bytes32_def)

lemma length_be_bytes64 [simp]: "length (be_bytes64 w) = 8"
  by (simp add: be_bytes64_def)

lemma length_sha_state_bytes [simp]: "length (sha_state_bytes st) = 32"
  by (cases st rule: sha_state_bytes.cases) simp

lemma length_sha256 [simp, wire_simps]: "length (sha256_Sum256 m) = 32"
  by (simp add: sha256_Sum256_def)

lemma length_hmac_sha256 [simp, wire_simps]: "length (hmac_sha256 key msg) = 32"
  by (simp add: hmac_sha256_def Let_def)

text \<open>The padded message is a whole number of blocks, so no byte of it is left unhashed.\<close>

lemma sha_pad_blocks: "64 dvd length (sha_pad m)"
proof -
  define r where "r = length m mod 64"
  then have "r < 64" and len: "length m = 64 * (length m div 64) + r"
    by simp_all
  then have z: "(119 - r) mod 64 = (if r \<le> 55 then 55 - r else 119 - r)"
    by (simp add: mod_if)
  have "r + 1 + (119 - r) mod 64 + 8 = (if r \<le> 55 then 64 else 128)"
    using \<open>r < 64\<close> by (simp add: z)
  moreover have "length (sha_pad m) = length m + (1 + (119 - r) mod 64 + 8)"
    by (simp add: sha_pad_def r_def)
  ultimately have "length (sha_pad m) = 64 * (length m div 64) + (if r \<le> 55 then 64 else 128)"
    using len by linarith
  then show ?thesis by simp
qed

end
