(* ===== verification/Codec.thy ===== *)
theory Codec
  imports Resource Sha256
begin

text \<open>
  The canonical journal record envelope: \<open>internal/codec\<close> (\<open>le.go\<close>, \<open>digest.go\<close>,
  \<open>errors.go\<close>, \<open>admit.go\<close>, \<open>journal.go\<close>).  Little-endian integers, the encoder as the
  sequence of writes into a zeroed buffer that the source performs, the decoder with its
  checks in source order, and the facts that make the pair a canonical codec: decoding
  inverts encoding, an accepted byte string is the encoding of what it decodes to, and a cut
  record is reported as incomplete.
\<close>

subsection \<open>Little-endian integers\<close>

definition PutU16LE :: "u16 \<Rightarrow> bytes" where
  "PutU16LE v = [ucast v, ucast (drop_bit 8 v)]"

definition PutU32LE :: "u32 \<Rightarrow> bytes" where
  "PutU32LE v = [ucast v, ucast (drop_bit 8 v), ucast (drop_bit 16 v), ucast (drop_bit 24 v)]"

definition PutU64LE :: "u64 \<Rightarrow> bytes" where
  "PutU64LE v =
     [ucast v, ucast (drop_bit 8 v), ucast (drop_bit 16 v), ucast (drop_bit 24 v),
      ucast (drop_bit 32 v), ucast (drop_bit 40 v), ucast (drop_bit 48 v), ucast (drop_bit 56 v)]"

definition U16LE :: "bytes \<Rightarrow> u16" where
  "U16LE b = ucast (b ! 0) OR push_bit 8 (ucast (b ! 1))"

definition U32LE :: "bytes \<Rightarrow> u32" where
  "U32LE b = ucast (b ! 0) OR push_bit 8 (ucast (b ! 1)) OR push_bit 16 (ucast (b ! 2)) OR
     push_bit 24 (ucast (b ! 3))"

definition U64LE :: "bytes \<Rightarrow> u64" where
  "U64LE b = ucast (b ! 0) OR push_bit 8 (ucast (b ! 1)) OR push_bit 16 (ucast (b ! 2)) OR
     push_bit 24 (ucast (b ! 3)) OR push_bit 32 (ucast (b ! 4)) OR push_bit 40 (ucast (b ! 5)) OR
     push_bit 48 (ucast (b ! 6)) OR push_bit 56 (ucast (b ! 7))"

lemma length_PutU16LE [simp, wire_simps]: "length (PutU16LE v) = 2"
  by (simp add: PutU16LE_def)

lemma length_PutU32LE [simp, wire_simps]: "length (PutU32LE v) = 4"
  by (simp add: PutU32LE_def)

lemma length_PutU64LE [simp, wire_simps]: "length (PutU64LE v) = 8"
  by (simp add: PutU64LE_def)

lemma byte_bit_ge: "8 \<le> n \<Longrightarrow> \<not> bit (w :: byte) n"
  using bit_imp_le_length by fastforce

lemma U16LE_PutU16LE [simp, wire_simps]: "U16LE (PutU16LE v) = v"
proof (rule bit_word_eqI)
  fix n assume "n < LENGTH(16)"
  then consider "n < 8" | "8 \<le> n" "n < 16" by fastforce
  then show "bit (U16LE (PutU16LE v)) n = bit v n"
    by cases (simp_all add: U16LE_def PutU16LE_def bit_simps less_diff_conv2)
qed

lemma U32LE_PutU32LE [simp, wire_simps]: "U32LE (PutU32LE v) = v"
proof (rule bit_word_eqI)
  fix n assume "n < LENGTH(32)"
  then consider "n < 8" | "8 \<le> n" "n < 16" | "16 \<le> n" "n < 24" | "24 \<le> n" "n < 32"
    by fastforce
  then show "bit (U32LE (PutU32LE v)) n = bit v n"
    by cases (simp_all add: U32LE_def PutU32LE_def bit_simps less_diff_conv2)
qed

lemma U64LE_PutU64LE [simp, wire_simps]: "U64LE (PutU64LE v) = v"
proof (rule bit_word_eqI)
  fix n assume "n < LENGTH(64)"
  then consider "n < 8" | "8 \<le> n" "n < 16" | "16 \<le> n" "n < 24" | "24 \<le> n" "n < 32"
    | "32 \<le> n" "n < 40" | "40 \<le> n" "n < 48" | "48 \<le> n" "n < 56" | "56 \<le> n" "n < 64"
    by fastforce
  then show "bit (U64LE (PutU64LE v)) n = bit v n"
    by cases (simp_all add: U64LE_def PutU64LE_def bit_simps less_diff_conv2)
qed

lemma PutU16LE_U16LE [wire_simps]: "length b = 2 \<Longrightarrow> PutU16LE (U16LE b) = b"
  by (auto simp: U16LE_def PutU16LE_def length_Suc_conv numeral_2_eq_2 bit_simps byte_bit_ge
      intro!: bit_word_eqI)

lemma length_4_conv: "length b = 4 \<longleftrightarrow> (\<exists>b0 b1 b2 b3. b = [b0, b1, b2, b3])"
  by (auto simp: length_Suc_conv numeral_eq_Suc)

lemma length_8_conv:
  "length b = 8 \<longleftrightarrow> (\<exists>b0 b1 b2 b3 b4 b5 b6 b7. b = [b0, b1, b2, b3, b4, b5, b6, b7])"
  by (auto simp: length_Suc_conv numeral_eq_Suc)

lemma PutU32LE_U32LE [wire_simps]: "length b = 4 \<Longrightarrow> PutU32LE (U32LE b) = b"
  unfolding U32LE_def PutU32LE_def length_4_conv
  by (auto simp: bit_simps byte_bit_ge intro!: bit_word_eqI)

lemma PutU64LE_U64LE [wire_simps]: "length b = 8 \<Longrightarrow> PutU64LE (U64LE b) = b"
  unfolding U64LE_def PutU64LE_def length_8_conv
  by (auto simp: bit_simps byte_bit_ge intro!: bit_word_eqI)

lemma PutU16LE_inject [simp]: "PutU16LE v = PutU16LE w \<longleftrightarrow> v = w"
  by (metis U16LE_PutU16LE)

lemma PutU32LE_inject [simp]: "PutU32LE v = PutU32LE w \<longleftrightarrow> v = w"
  by (metis U32LE_PutU32LE)

lemma PutU64LE_inject [simp]: "PutU64LE v = PutU64LE w \<longleftrightarrow> v = w"
  by (metis U64LE_PutU64LE)

subsection \<open>Digests and errors\<close>

type_synonym digest = bytes
type_synonym transaction_id = bytes

definition DigestSize :: nat where
  "DigestSize = 32"

definition SHA256 :: "bytes \<Rightarrow> digest" where
  "SHA256 data = sha256_Sum256 data"

definition zero_digest :: digest where
  "zero_digest = replicate 32 0"

definition GenesisCommitment :: digest where
  "GenesisCommitment = zero_digest"

datatype codec_kind =
  KindIncomplete | KindNonCanonical | KindLimit | KindUnsupported | KindDigest

record codec_error =
  ce_Kind :: codec_kind
  ce_Field :: string
  ce_Message :: string

definition codec_incomplete :: "string \<Rightarrow> string \<Rightarrow> codec_error" where
  "codec_incomplete field msg = \<lparr>ce_Kind = KindIncomplete, ce_Field = field, ce_Message = msg\<rparr>"

definition codec_nonCanonical :: "string \<Rightarrow> string \<Rightarrow> codec_error" where
  "codec_nonCanonical field msg = \<lparr>ce_Kind = KindNonCanonical, ce_Field = field, ce_Message = msg\<rparr>"

definition codec_limit :: "string \<Rightarrow> string \<Rightarrow> codec_error" where
  "codec_limit field msg = \<lparr>ce_Kind = KindLimit, ce_Field = field, ce_Message = msg\<rparr>"

definition codec_unsupported :: "string \<Rightarrow> string \<Rightarrow> codec_error" where
  "codec_unsupported field msg = \<lparr>ce_Kind = KindUnsupported, ce_Field = field, ce_Message = msg\<rparr>"

definition codec_digestErr :: "string \<Rightarrow> string \<Rightarrow> codec_error" where
  "codec_digestErr field msg = \<lparr>ce_Kind = KindDigest, ce_Field = field, ce_Message = msg\<rparr>"

definition AsKind :: "codec_error \<Rightarrow> codec_kind \<Rightarrow> bool" where
  "AsKind e kind \<longleftrightarrow> ce_Kind e = kind"

lemmas codec_error_defs =
  codec_incomplete_def codec_nonCanonical_def codec_limit_def codec_unsupported_def
  codec_digestErr_def AsKind_def

lemma length_SHA256 [simp, wire_simps]: "length (SHA256 m) = 32"
  by (simp add: SHA256_def)

lemma length_zero_digest [simp, wire_simps]: "length zero_digest = 32"
  by (simp add: zero_digest_def)

subsection \<open>The journal record envelope\<close>

definition FormatVersion :: u16 where
  "FormatVersion = 1"

definition HeaderLength :: u16 where
  "HeaderLength = 108"

definition RecordOverhead :: nat where
  "RecordOverhead = 152"

definition MaxPayloadBytes :: nat where
  "MaxPayloadBytes = 1048576"

definition MaxRecordBytes :: nat where
  "MaxRecordBytes = RecordOverhead + MaxPayloadBytes"

definition MaxJournalSegmentBytes :: nat where
  "MaxJournalSegmentBytes = 1073741824"

definition minFramingBytes :: nat where
  "minFramingBytes = 16"

definition RecordMagic :: bytes where
  "RecordMagic = bytes_of ''INTJRN01''"

definition TrailerMagic :: bytes where
  "TrailerMagic = bytes_of ''INTJRN0T''"

type_synonym record_type = u16

definition TypeObservation :: record_type where "TypeObservation = 1"
definition TypePlanDigest :: record_type where "TypePlanDigest = 2"
definition TypeAuthorization :: record_type where "TypeAuthorization = 3"
definition TypeProgress :: record_type where "TypeProgress = 4"
definition TypeConfirmation :: record_type where "TypeConfirmation = 5"
definition TypeCancellation :: record_type where "TypeCancellation = 6"
definition TypeQuarantine :: record_type where "TypeQuarantine = 7"
definition TypeRecovery :: record_type where "TypeRecovery = 8"
definition TypeCheckpoint :: record_type where "TypeCheckpoint = 9"
definition TypeEvidenceReference :: record_type where "TypeEvidenceReference = 10"

lemmas record_type_defs =
  TypeObservation_def TypePlanDigest_def TypeAuthorization_def TypeProgress_def
  TypeConfirmation_def TypeCancellation_def TypeQuarantine_def TypeRecovery_def
  TypeCheckpoint_def TypeEvidenceReference_def

definition ValidRecordType :: "record_type \<Rightarrow> bool" where
  "ValidRecordType t \<longleftrightarrow> TypeObservation \<le> t \<and> t \<le> TypeEvidenceReference"

record record_fields =
  rf_Sequence :: u64
  rf_TransactionID :: transaction_id
  rf_Type :: record_type
  rf_PreviousCommitment :: digest
  rf_Payload :: bytes

record journal_record =
  r_Sequence :: u64
  r_TransactionID :: transaction_id
  r_Type :: record_type
  r_PayloadDigest :: digest
  r_PreviousCommitment :: digest
  r_Payload :: bytes
  r_RecordCommitment :: digest
  r_RecordLength :: u32

definition admitRecordBytes :: "u64 \<Rightarrow> codec_error option" where
  "admitRecordBytes n =
     (let lim = \<lparr>MaxBytes = word_of_nat MaxRecordBytes, MaxCount = 1, MaxNesting = 1,
                 MaxQueueDepth = 1, MaxConcurrent = 1, MaxRetries = 1\<rparr>
      in case AdmitBytes lim n of
           Some err \<Rightarrow> Some (codec_limit ''record_length'' (res_error_text err))
         | None \<Rightarrow> None)"

definition commitmentPreimage ::
  "u32 \<Rightarrow> u64 \<Rightarrow> transaction_id \<Rightarrow> record_type \<Rightarrow> digest \<Rightarrow> digest \<Rightarrow> bytes \<Rightarrow> bytes" where
  "commitmentPreimage recordLen seq txid rtype payloadDigest prev payload =
     (let n = 8 + 2 + 2 + 4 + 8 + 16 + 2 + 2 + DigestSize + DigestSize + length payload;
          buf = make_bytes n;
          buf = copy_at 0 RecordMagic buf;
          buf = copy_at 8 (PutU16LE FormatVersion) buf;
          buf = copy_at 10 (PutU16LE HeaderLength) buf;
          buf = copy_at 12 (PutU32LE recordLen) buf;
          buf = copy_at 16 (PutU64LE seq) buf;
          buf = copy_at 24 txid buf;
          buf = copy_at 40 (PutU16LE rtype) buf;
          buf = copy_at 42 (PutU16LE 0) buf;
          buf = copy_at 44 payloadDigest buf;
          buf = copy_at 76 prev buf;
          buf = copy_at 108 payload buf
      in buf)"

definition EncodeRecord :: "record_fields \<Rightarrow> codec_error + bytes" where
  "EncodeRecord f =
     (if rf_Sequence f = 0 then Inl (codec_nonCanonical ''sequence'' ''must be >= 1'')
      else if \<not> ValidRecordType (rf_Type f)
        then Inl (codec_unsupported ''record_type'' ''unknown or zero type'')
      else if rf_Sequence f = 1 \<and> rf_PreviousCommitment f \<noteq> GenesisCommitment
        then Inl (codec_nonCanonical ''previous_commitment'' ''genesis must be zero digest'')
      else
        let payloadLen = length (rf_Payload f) in
        if payloadLen > MaxPayloadBytes then Inl (codec_limit ''payload'' ''exceeds MaxPayloadBytes'')
        else
          let recordLen = RecordOverhead + payloadLen in
          if recordLen > MaxRecordBytes then Inl (codec_limit ''record_length'' ''exceeds MaxRecordBytes'')
          else
            case admitRecordBytes (word_of_nat recordLen) of
              Some err \<Rightarrow> Inl err
            | None \<Rightarrow>
                let payloadDigest = SHA256 (rf_Payload f);
                    out = make_bytes recordLen;
                    out = copy_at 0 RecordMagic out;
                    out = copy_at 8 (PutU16LE FormatVersion) out;
                    out = copy_at 10 (PutU16LE HeaderLength) out;
                    out = copy_at 12 (PutU32LE (word_of_nat recordLen)) out;
                    out = copy_at 16 (PutU64LE (rf_Sequence f)) out;
                    out = copy_at 24 (rf_TransactionID f) out;
                    out = copy_at 40 (PutU16LE (rf_Type f)) out;
                    out = copy_at 42 (PutU16LE 0) out;
                    out = copy_at 44 payloadDigest out;
                    out = copy_at 76 (rf_PreviousCommitment f) out;
                    out = copy_at 108 (rf_Payload f) out;
                    commitment = SHA256 (commitmentPreimage (word_of_nat recordLen) (rf_Sequence f)
                      (rf_TransactionID f) (rf_Type f) payloadDigest (rf_PreviousCommitment f) (rf_Payload f));
                    off = 108 + payloadLen;
                    out = copy_at off commitment out;
                    out = copy_at (off + 32) TrailerMagic out;
                    out = copy_at (off + 40) (PutU32LE (word_of_nat recordLen)) out
                in Inr out)"

definition DecodeRecord :: "bytes \<Rightarrow> codec_error + (journal_record \<times> nat)" where
  "DecodeRecord b =
     (if length b < 8 then Inl (codec_incomplete ''record'' ''truncated before magic'')
      else if slice 0 8 b \<noteq> RecordMagic then Inl (codec_nonCanonical ''magic'' ''not RecordMagic'')
      else if length b < minFramingBytes
        then Inl (codec_incomplete ''record'' ''truncated before record_length'')
      else
        let version = U16LE (slice 8 10 b) in
        if version \<noteq> FormatVersion
          then Inl (codec_unsupported ''format_version'' ''unsupported journal format version'')
        else
        let headerLen = U16LE (slice 10 12 b) in
        if headerLen \<noteq> HeaderLength
          then Inl (codec_nonCanonical ''header_length'' ''must equal 108 for version 1'')
        else
        let recordLen = U32LE (slice 12 16 b) in
        if unat recordLen < RecordOverhead
          then Inl (codec_nonCanonical ''record_length'' ''below minimum'')
        else if unat recordLen > MaxRecordBytes
          then Inl (codec_limit ''record_length'' ''exceeds MaxRecordBytes'')
        else if length b < unat recordLen
          then Inl (codec_incomplete ''record'' ''truncated before full record'')
        else
        let seq = U64LE (slice 16 24 b) in
        if seq = 0 then Inl (codec_nonCanonical ''sequence'' ''must be >= 1'')
        else
        let txid = slice 24 40 b;
            rtype = U16LE (slice 40 42 b) in
        if \<not> ValidRecordType rtype
          then Inl (codec_unsupported ''record_type'' ''unknown or zero type'')
        else
        let reserved = U16LE (slice 42 44 b) in
        if reserved \<noteq> 0 then Inl (codec_nonCanonical ''reserved'' ''must be zero'')
        else
        let payloadLen = unat recordLen - RecordOverhead in
        if payloadLen > MaxPayloadBytes
          then Inl (codec_limit ''payload'' ''derived length out of bounds'')
        else
          case admitRecordBytes (ucast recordLen) of
            Some err \<Rightarrow> Inl err
          | None \<Rightarrow>
              let payloadDigest = slice 44 76 b;
                  prev = slice 76 108 b;
                  payload = slice 108 (108 + payloadLen) b in
              if SHA256 payload \<noteq> payloadDigest then Inl (codec_digestErr ''payload_digest'' ''mismatch'')
              else if seq = 1 \<and> prev \<noteq> GenesisCommitment
                then Inl (codec_nonCanonical ''previous_commitment'' ''genesis must be zero digest'')
              else
              let off = 108 + payloadLen;
                  commitment = slice off (off + 32) b in
              if slice (off + 32) (off + 40) b \<noteq> TrailerMagic
                then Inl (codec_nonCanonical ''trailer_magic'' ''not TrailerMagic'')
              else
              let trailerLen = U32LE (slice (off + 40) (off + 44) b) in
              if trailerLen \<noteq> recordLen
                then Inl (codec_nonCanonical ''record_length'' ''trailer duplicate mismatch'')
              else
              let expected = SHA256 (commitmentPreimage recordLen seq txid rtype payloadDigest prev payload) in
              if expected \<noteq> commitment then Inl (codec_digestErr ''record_commitment'' ''mismatch'')
              else Inr (\<lparr>r_Sequence = seq, r_TransactionID = txid, r_Type = rtype,
                         r_PayloadDigest = payloadDigest, r_PreviousCommitment = prev,
                         r_Payload = payload, r_RecordCommitment = commitment,
                         r_RecordLength = recordLen\<rparr>, unat recordLen))"

lemmas codec_const_defs =
  FormatVersion_def HeaderLength_def RecordOverhead_def MaxPayloadBytes_def MaxRecordBytes_def
  MaxJournalSegmentBytes_def minFramingBytes_def DigestSize_def

lemma length_RecordMagic [simp, wire_simps]: "length RecordMagic = 8"
  by (simp add: RecordMagic_def)

lemma length_TrailerMagic [simp, wire_simps]: "length TrailerMagic = 8"
  by (simp add: TrailerMagic_def)

subsection \<open>The layout the writes produce\<close>

text \<open>The Go array types fix the lengths of transaction identifiers and digests.\<close>

definition wf_fields :: "record_fields \<Rightarrow> bool" where
  "wf_fields f \<longleftrightarrow> length (rf_TransactionID f) = 16 \<and> length (rf_PreviousCommitment f) = 32"

definition header_bytes :: "u32 \<Rightarrow> u64 \<Rightarrow> transaction_id \<Rightarrow> record_type \<Rightarrow> digest \<Rightarrow> digest \<Rightarrow> bytes" where
  "header_bytes recordLen seq txid rtype payloadDigest prev =
     RecordMagic @ PutU16LE FormatVersion @ PutU16LE HeaderLength @ PutU32LE recordLen @
     PutU64LE seq @ txid @ PutU16LE rtype @ PutU16LE 0 @ payloadDigest @ prev"

lemma length_header_bytes:
  "length txid = 16 \<Longrightarrow> length pd = 32 \<Longrightarrow> length prev = 32 \<Longrightarrow>
   length (header_bytes rl seq txid t pd prev) = 108"
  by (simp add: header_bytes_def)

lemma commitmentPreimage_layout:
  assumes "length txid = 16" and "length pd = 32" and "length prev = 32"
  shows "commitmentPreimage rl seq txid t pd prev payload = header_bytes rl seq txid t pd prev @ payload"
  using assms
  by (simp add: commitmentPreimage_def header_bytes_def Let_def copy_at_make copy_at_fill DigestSize_def
      flip: append_assoc)

definition record_len :: "record_fields \<Rightarrow> nat" where
  "record_len f = RecordOverhead + length (rf_Payload f)"

definition record_header :: "record_fields \<Rightarrow> bytes" where
  "record_header f = header_bytes (word_of_nat (record_len f)) (rf_Sequence f) (rf_TransactionID f)
     (rf_Type f) (SHA256 (rf_Payload f)) (rf_PreviousCommitment f)"

definition record_commitment :: "record_fields \<Rightarrow> digest" where
  "record_commitment f = SHA256 (record_header f @ rf_Payload f)"

definition record_bytes :: "record_fields \<Rightarrow> bytes" where
  "record_bytes f = record_header f @ rf_Payload f @ record_commitment f @ TrailerMagic @
     PutU32LE (word_of_nat (record_len f))"

text \<open>What the encoder accepts.\<close>

definition encodable :: "record_fields \<Rightarrow> bool" where
  "encodable f \<longleftrightarrow> rf_Sequence f \<noteq> 0 \<and> ValidRecordType (rf_Type f) \<and>
     (rf_Sequence f = 1 \<longrightarrow> rf_PreviousCommitment f = GenesisCommitment) \<and>
     length (rf_Payload f) \<le> MaxPayloadBytes"

lemma admitRecordBytes_small: "n \<le> MaxRecordBytes \<Longrightarrow> admitRecordBytes (word_of_nat n) = None"
  by (simp add: admitRecordBytes_def AdmitBytes_def Let_def codec_const_defs word_less_nat_alt
      unat_of_nat_small)

lemma EncodeRecord_encodable:
  assumes "wf_fields f" and "encodable f"
  shows "EncodeRecord f = Inr (record_bytes f)"
proof -
  have "admitRecordBytes (word_of_nat (RecordOverhead + length (rf_Payload f))) = None"
    using assms(2) by (intro admitRecordBytes_small) (simp add: encodable_def codec_const_defs)
  with assms show ?thesis
    by (simp add: EncodeRecord_def encodable_def Let_def record_bytes_def record_commitment_def
        record_header_def record_len_def header_bytes_def wf_fields_def commitmentPreimage_layout
        copy_at_make copy_at_fill codec_const_defs del: of_nat_add flip: append_assoc)
qed

lemma EncodeRecord_refused: "\<not> encodable f \<Longrightarrow> \<exists>e. EncodeRecord f = Inl e"
  by (auto simp: EncodeRecord_def encodable_def Let_def)

lemma EncodeRecord_Inr_iff:
  assumes "wf_fields f"
  shows "EncodeRecord f = Inr b \<longleftrightarrow> encodable f \<and> b = record_bytes f"
  using EncodeRecord_encodable [OF assms] EncodeRecord_refused [of f] by (cases "encodable f") auto

lemma record_len_bounds:
  assumes "encodable f"
  shows "record_len f \<le> MaxRecordBytes" and "RecordOverhead \<le> record_len f"
    and "unat (word_of_nat (record_len f) :: u32) = record_len f"
proof -
  show len: "record_len f \<le> MaxRecordBytes" and "RecordOverhead \<le> record_len f"
    using assms by (simp_all add: encodable_def record_len_def MaxRecordBytes_def)
  then have "record_len f < 2 ^ 32"
    by (simp add: codec_const_defs)
  then show "unat (word_of_nat (record_len f) :: u32) = record_len f"
    by (simp add: unat_of_nat_small)
qed

lemma length_record_bytes: "wf_fields f \<Longrightarrow> length (record_bytes f) = record_len f"
  by (simp add: record_bytes_def record_header_def header_bytes_def wf_fields_def record_commitment_def
      record_len_def codec_const_defs)

lemma record_bytes_nonempty [simp]: "record_bytes f \<noteq> []"
  by (simp add: record_bytes_def record_header_def header_bytes_def RecordMagic_def bytes_of_def)

text \<open>Every field of the layout is found again at its offset, whatever follows the record.\<close>

lemma record_bytes_slices:
  assumes "wf_fields f"
  shows "slice 0 8 (record_bytes f @ rest) = RecordMagic"
    and "slice 8 10 (record_bytes f @ rest) = PutU16LE FormatVersion"
    and "slice 10 12 (record_bytes f @ rest) = PutU16LE HeaderLength"
    and "slice 12 16 (record_bytes f @ rest) = PutU32LE (word_of_nat (record_len f))"
    and "slice 16 24 (record_bytes f @ rest) = PutU64LE (rf_Sequence f)"
    and "slice 24 40 (record_bytes f @ rest) = rf_TransactionID f"
    and "slice 40 42 (record_bytes f @ rest) = PutU16LE (rf_Type f)"
    and "slice 42 44 (record_bytes f @ rest) = PutU16LE 0"
    and "slice 44 76 (record_bytes f @ rest) = SHA256 (rf_Payload f)"
    and "slice 76 108 (record_bytes f @ rest) = rf_PreviousCommitment f"
    and "slice 108 (108 + length (rf_Payload f)) (record_bytes f @ rest) = rf_Payload f"
    and "slice (108 + length (rf_Payload f)) (140 + length (rf_Payload f)) (record_bytes f @ rest)
         = record_commitment f"
    and "slice (140 + length (rf_Payload f)) (148 + length (rf_Payload f)) (record_bytes f @ rest)
         = TrailerMagic"
    and "slice (148 + length (rf_Payload f)) (152 + length (rf_Payload f)) (record_bytes f @ rest)
         = PutU32LE (word_of_nat (record_len f))"
  using assms
  by (simp_all add: record_bytes_def record_header_def header_bytes_def wf_fields_def
      record_commitment_def slice_def)

text \<open>The record the decoder reconstructs from the fields.\<close>

definition record_of :: "record_fields \<Rightarrow> journal_record" where
  "record_of f = \<lparr>r_Sequence = rf_Sequence f, r_TransactionID = rf_TransactionID f, r_Type = rf_Type f,
     r_PayloadDigest = SHA256 (rf_Payload f), r_PreviousCommitment = rf_PreviousCommitment f,
     r_Payload = rf_Payload f, r_RecordCommitment = record_commitment f,
     r_RecordLength = word_of_nat (record_len f)\<rparr>"

definition fields_of :: "journal_record \<Rightarrow> record_fields" where
  "fields_of r = \<lparr>rf_Sequence = r_Sequence r, rf_TransactionID = r_TransactionID r, rf_Type = r_Type r,
     rf_PreviousCommitment = r_PreviousCommitment r, rf_Payload = r_Payload r\<rparr>"

lemma DecodeRecord_record_bytes:
  assumes wf: "wf_fields f" and enc: "encodable f"
  shows "DecodeRecord (record_bytes f @ rest) = Inr (record_of f, record_len f)"
proof -
  note len = record_len_bounds [OF enc]
  have blen: "\<not> length (record_bytes f @ rest) < record_len f"
    "\<not> length (record_bytes f @ rest) < 8" "\<not> length (record_bytes f @ rest) < minFramingBytes"
    using len(2) by (simp_all add: length_record_bytes [OF wf] RecordOverhead_def minFramingBytes_def)
  have sub: "record_len f - RecordOverhead = length (rf_Payload f)"
    by (simp add: record_len_def)
  have adm: "admitRecordBytes (ucast (word_of_nat (record_len f) :: u32)) = None"
    using len by (simp add: admitRecordBytes_def AdmitBytes_def Let_def codec_const_defs
        word_less_nat_alt unat_of_nat_small unat_ucast_u64)
  have com: "SHA256 (commitmentPreimage (word_of_nat (record_len f)) (rf_Sequence f) (rf_TransactionID f)
      (rf_Type f) (SHA256 (rf_Payload f)) (rf_PreviousCommitment f) (rf_Payload f)) = record_commitment f"
    using wf by (simp add: commitmentPreimage_layout wf_fields_def record_commitment_def record_header_def)
  have pay: "\<not> MaxPayloadBytes < length (rf_Payload f)" "\<not> MaxRecordBytes < record_len f"
    "\<not> record_len f < RecordOverhead"
    using enc len by (simp_all add: encodable_def)
  show ?thesis
    using enc
    by (simp add: DecodeRecord_def Let_def record_bytes_slices [OF wf] len(3) blen pay sub adm com
        encodable_def record_of_def del: length_append)
qed

text \<open>Conversely, an accepted prefix is the layout of what was decoded from it.\<close>

lemma layout_of_slices:
  assumes "152 + p \<le> length b"
  shows "take (152 + p) b =
    slice 0 8 b @ slice 8 10 b @ slice 10 12 b @ slice 12 16 b @ slice 16 24 b @ slice 24 40 b @
    slice 40 42 b @ slice 42 44 b @ slice 44 76 b @ slice 76 108 b @ slice 108 (108 + p) b @
    slice (108 + p) (140 + p) b @ slice (140 + p) (148 + p) b @ slice (148 + p) (152 + p) b"
  by (simp add: slice_join take_eq_slice)

lemma DecodeRecord_Inr_D:
  assumes "DecodeRecord b = Inr (r, n)"
  defines "p \<equiv> unat (U32LE (slice 12 16 b)) - RecordOverhead"
  shows "n = unat (U32LE (slice 12 16 b))" and "n = 152 + p" and "n \<le> length b"
    and "p \<le> MaxPayloadBytes"
    and "slice 0 8 b = RecordMagic" and "U16LE (slice 8 10 b) = FormatVersion"
    and "U16LE (slice 10 12 b) = HeaderLength" and "U64LE (slice 16 24 b) \<noteq> 0"
    and "ValidRecordType (U16LE (slice 40 42 b))" and "U16LE (slice 42 44 b) = 0"
    and "slice 44 76 b = SHA256 (slice 108 (108 + p) b)"
    and "U64LE (slice 16 24 b) = 1 \<Longrightarrow> slice 76 108 b = GenesisCommitment"
    and "slice (140 + p) (148 + p) b = TrailerMagic"
    and "U32LE (slice (148 + p) (152 + p) b) = U32LE (slice 12 16 b)"
    and "slice (108 + p) (140 + p) b = SHA256 (commitmentPreimage (U32LE (slice 12 16 b))
          (U64LE (slice 16 24 b)) (slice 24 40 b) (U16LE (slice 40 42 b)) (slice 44 76 b)
          (slice 76 108 b) (slice 108 (108 + p) b))"
    and "r = \<lparr>r_Sequence = U64LE (slice 16 24 b), r_TransactionID = slice 24 40 b,
          r_Type = U16LE (slice 40 42 b), r_PayloadDigest = slice 44 76 b,
          r_PreviousCommitment = slice 76 108 b, r_Payload = slice 108 (108 + p) b,
          r_RecordCommitment = slice (108 + p) (140 + p) b, r_RecordLength = U32LE (slice 12 16 b)\<rparr>"
  using assms(1) unfolding p_def
  by (simp_all add: DecodeRecord_def Let_def RecordOverhead_def split: if_splits option.splits) auto

lemma DecodeRecord_sound:
  assumes dec: "DecodeRecord b = Inr (r, n)"
  shows "wf_fields (fields_of r)" and "encodable (fields_of r)" and "r = record_of (fields_of r)"
    and "n = record_len (fields_of r)" and "n \<le> length b" and "take n b = record_bytes (fields_of r)"
proof -
  define p where "p = unat (U32LE (slice 12 16 b)) - RecordOverhead"
  note d = DecodeRecord_Inr_D [OF dec, folded p_def]
  have len: "152 + p \<le> length b"
    using d(2,3) by simp
  then have plen: "length (slice 108 (108 + p) b) = p"
    by simp
  show wf: "wf_fields (fields_of r)"
    using len by (simp add: d(16) wf_fields_def fields_of_def)
  show enc: "encodable (fields_of r)"
    using len d(4,8,9,12) by (simp add: d(16) encodable_def fields_of_def)
  show n: "n = record_len (fields_of r)"
    using len by (simp add: d(2,16) record_len_def fields_of_def RecordOverhead_def)
  have rl: "U32LE (slice 12 16 b) = word_of_nat (record_len (fields_of r))"
    using d(1) by (simp flip: n)
  have hdr: "record_header (fields_of r) =
      slice 0 8 b @ slice 8 10 b @ slice 10 12 b @ slice 12 16 b @ slice 16 24 b @ slice 24 40 b @
      slice 40 42 b @ slice 42 44 b @ slice 44 76 b @ slice 76 108 b"
    using len unfolding record_header_def header_bytes_def rl [symmetric] d(6,7,10) [symmetric]
    by (simp add: d(5,11,16) fields_of_def PutU16LE_U16LE PutU32LE_U32LE PutU64LE_U64LE)
  have com: "record_commitment (fields_of r) = slice (108 + p) (140 + p) b"
    unfolding d(15) record_commitment_def record_header_def rl [symmetric]
    using len by (subst commitmentPreimage_layout) (simp_all add: d(11,16) fields_of_def)
  show "r = record_of (fields_of r)"
    unfolding record_of_def com rl [symmetric] by (simp add: d(11,16) fields_of_def)
  show "n \<le> length b" by (rule d(3))
  have tr: "PutU32LE (word_of_nat (record_len (fields_of r))) = slice (148 + p) (152 + p) b"
    using len PutU32LE_U32LE [of "slice (148 + p) (152 + p) b"] by (simp add: d(14) rl)
  show "take n b = record_bytes (fields_of r)"
    unfolding record_bytes_def hdr com d(13) [symmetric] tr d(2) layout_of_slices [OF len]
    by (simp add: d(16) fields_of_def)
qed

text \<open>A strict prefix of a record is reported as incomplete, never as corrupt.\<close>

lemma DecodeRecord_truncated:
  assumes wf: "wf_fields f" and enc: "encodable f" and k: "k < length (record_bytes f)"
  shows "\<exists>e. DecodeRecord (take k (record_bytes f)) = Inl e \<and> ce_Kind e = KindIncomplete"
proof -
  let ?t = "take k (record_bytes f)"
  have s: "slice i j ?t = slice i j (record_bytes f @ [])" if "j \<le> k" for i j
    using that by (simp add: slice_take)
  note sl = record_bytes_slices [OF wf, of "[]"]
  have lt: "length ?t = k" "k < record_len f"
    using k length_record_bytes [OF wf] by simp_all
  consider "k < 8" | "8 \<le> k" "k < 16" | "16 \<le> k" by linarith
  then show ?thesis
  proof cases
    case 3
    then show ?thesis
      using record_len_bounds [OF enc] lt
      by (simp add: DecodeRecord_def Let_def s sl minFramingBytes_def codec_incomplete_def del: append_Nil2)
  qed (use lt in \<open>simp_all add: DecodeRecord_def s sl minFramingBytes_def codec_incomplete_def del: append_Nil2\<close>)
qed

text \<open>
  The decoder looks at no byte beyond the largest record, so a reader may bound its buffer.
\<close>

lemma DecodeRecord_take_max: "DecodeRecord (take MaxRecordBytes b) = DecodeRecord b"
proof (cases "length b \<le> MaxRecordBytes")
  case False
  let ?t = "take MaxRecordBytes b"
  define w where "w = U32LE (slice 12 16 b)"
  define p where "p = unat w - RecordOverhead"
  have hs: "slice 0 8 ?t = slice 0 8 b" "slice 8 10 ?t = slice 8 10 b" "slice 10 12 ?t = slice 10 12 b"
    "slice 12 16 ?t = slice 12 16 b" "slice 16 24 ?t = slice 16 24 b" "slice 24 40 ?t = slice 24 40 b"
    "slice 40 42 ?t = slice 40 42 b" "slice 42 44 ?t = slice 42 44 b" "slice 44 76 ?t = slice 44 76 b"
    "slice 76 108 ?t = slice 76 108 b"
    by (simp_all add: slice_take codec_const_defs)
  have len: "(length ?t < 8) = False" "(length b < 8) = False" "(length ?t < minFramingBytes) = False"
    "(length b < minFramingBytes) = False" "(length ?t < unat w) = (MaxRecordBytes < unat w)"
    "\<not> MaxRecordBytes < unat w \<Longrightarrow> (length b < unat w) = False"
    using False by (simp_all add: codec_const_defs)
  show ?thesis
  proof (cases "p \<le> MaxPayloadBytes")
    case True
    then have "slice 108 (108 + p) ?t = slice 108 (108 + p) b"
      "slice (108 + p) (108 + p + 32) ?t = slice (108 + p) (108 + p + 32) b"
      "slice (108 + p + 32) (108 + p + 40) ?t = slice (108 + p + 32) (108 + p + 40) b"
      "slice (108 + p + 40) (108 + p + 44) ?t = slice (108 + p + 40) (108 + p + 44) b"
      by (simp_all add: slice_take codec_const_defs)
    note ts = this
    show ?thesis
      unfolding DecodeRecord_def Let_def hs w_def [symmetric] p_def [symmetric] ts
      by (simp only: len if_False cong: if_cong)
  next
    case False
    then have "(MaxRecordBytes < unat w) = True"
      by (simp add: p_def codec_const_defs)
    then show ?thesis
      unfolding DecodeRecord_def Let_def hs w_def [symmetric] p_def [symmetric]
      by (simp only: len if_False if_True cong: if_cong)
  qed
qed simp

subsection \<open>Properties of the record codec\<close>

definition sample_fields :: record_fields where
  "sample_fields = \<lparr>rf_Sequence = 1, rf_TransactionID = replicate 16 7, rf_Type = TypeObservation,
     rf_PreviousCommitment = GenesisCommitment, rf_Payload = [1, 2, 3]\<rparr>"

lemma sample_fields_ok: "wf_fields sample_fields" "encodable sample_fields"
  by (simp_all add: sample_fields_def wf_fields_def encodable_def GenesisCommitment_def
      ValidRecordType_def record_type_defs MaxPayloadBytes_def)

text \<open>
  C11: decoding an encoded record, whatever bytes follow it, returns exactly the encoded fields
  with their payload digest, commitment and length, and consumes exactly the record.
\<close>

theorem record_roundtrip:
  assumes "wf_fields f" and "EncodeRecord f = Inr b"
  shows "DecodeRecord (b @ rest) = Inr (record_of f, length b)"
  using assms DecodeRecord_record_bytes length_record_bytes by (simp add: EncodeRecord_Inr_iff)

theorem record_roundtrip_witness:
  "wf_fields sample_fields \<and> EncodeRecord sample_fields = Inr (record_bytes sample_fields) \<and>
   DecodeRecord (record_bytes sample_fields @ [255]) = Inr (record_of sample_fields, 155)"
proof -
  have enc: "EncodeRecord sample_fields = Inr (record_bytes sample_fields)"
    by (rule EncodeRecord_encodable) (rule sample_fields_ok)+
  have "length (record_bytes sample_fields) = 155"
    by (simp add: length_record_bytes sample_fields_ok record_len_def RecordOverhead_def)
      (simp add: sample_fields_def)
  with record_roundtrip [OF sample_fields_ok(1) enc, of "[255]"] show ?thesis
    by (simp add: sample_fields_ok enc)
qed

text \<open>
  C12: the encoding is canonical.  Whatever the decoder accepts is, byte for byte, the encoding
  of the record it returns, so a record has exactly one accepted representation.
\<close>

theorem record_canonical:
  assumes "DecodeRecord b = Inr (r, n)"
  shows "n \<le> length b \<and> EncodeRecord (fields_of r) = Inr (take n b) \<and> r = record_of (fields_of r)"
  using DecodeRecord_sound [OF assms] by (simp add: EncodeRecord_encodable)

theorem record_canonical_witness:
  "DecodeRecord (record_bytes sample_fields @ [9]) = Inr (record_of sample_fields, record_len sample_fields) \<and>
   EncodeRecord (fields_of (record_of sample_fields)) = Inr (record_bytes sample_fields)"
proof -
  have dec: "DecodeRecord (record_bytes sample_fields @ [9]) = Inr (record_of sample_fields, record_len sample_fields)"
    by (rule DecodeRecord_record_bytes) (rule sample_fields_ok)+
  then show ?thesis
    using record_canonical [OF dec] by (simp add: length_record_bytes sample_fields_ok)
qed

end
