(* ===== verification/Journal.thy ===== *)
theory Journal
  imports Codec
begin

text \<open>
  The journal (\<open>src/internal/journal\<close>): the segment interface and its in-memory, file and
  fault-injecting implementations, the reader \<open>ReadPrefix\<close>, the append-only writer, and the
  independent verifier of \<open>src/internal/journal/verify\<close>.  A Go method with a pointer receiver
  returns the new state of its receiver.  What is proved of them is in \<open>Journal_Correct\<close>.
\<close>

subsection \<open>Errors and the Segment interface\<close>

datatype io_error = EOF | ErrShortWrite | NegativeOffset | InjectedCrash string | Killed string | OtherIO string

datatype journal_kind = KindTornTail | KindFatal | KindClosed | KindState

datatype journal_cause = NoCause | CodecCause codec_error | IOCause io_error

record journal_error =
  je_Kind :: journal_kind
  je_Offset :: int
  je_Message :: string
  je_Cause :: journal_cause

definition torn :: "int \<Rightarrow> journal_cause \<Rightarrow> journal_error" where
  "torn offset cause =
     \<lparr>je_Kind = KindTornTail, je_Offset = offset, je_Message = ''torn tail'', je_Cause = cause\<rparr>"

definition fatal :: "int \<Rightarrow> string \<Rightarrow> journal_cause \<Rightarrow> journal_error" where
  "fatal offset msg cause =
     \<lparr>je_Kind = KindFatal, je_Offset = offset, je_Message = msg, je_Cause = cause\<rparr>"

text \<open>The reader calls it with a non-nil error only.\<close>

definition classifyDecode :: "int \<Rightarrow> codec_error \<Rightarrow> journal_error" where
  "classifyDecode offset err =
     (if AsKind err KindIncomplete then torn offset (CodecCause err)
      else fatal offset ''interior corruption or non-canonical record'' (CodecCause err))"

text \<open>
  A Go value of interface type \<open>Segment\<close> is a state together with its methods.  \<open>ReadAt\<close> is
  given the length of the buffer and returns the bytes read; the mutating methods return the
  new state.
\<close>

record 's segment_ops =
  sg_Size :: "'s \<Rightarrow> int"
  sg_ReadAt :: "'s \<Rightarrow> nat \<Rightarrow> int \<Rightarrow> bytes \<times> io_error option"
  sg_Append :: "'s \<Rightarrow> bytes \<Rightarrow> 's \<times> io_error option"
  sg_Sync :: "'s \<Rightarrow> 's \<times> io_error option"

subsection \<open>The reader\<close>

record journal_prefix =
  p_Records :: "journal_record list"
  p_Bytes :: int
  p_HeadCommitment :: digest
  p_NextSequence :: u64
  p_Torn :: bool
  p_TornOffset :: int
  p_Quarantine :: bytes

definition zero_prefix :: journal_prefix where
  "zero_prefix = \<lparr>p_Records = [], p_Bytes = 0, p_HeadCommitment = zero_digest, p_NextSequence = 0,
     p_Torn = False, p_TornOffset = 0, p_Quarantine = []\<rparr>"

lemma DecodeRecord_pos: "DecodeRecord b = Inr (r, n) \<Longrightarrow> 0 < n"
  using DecodeRecord_Inr_D(2) by fastforce

text \<open>The scanning loop of \<open>ReadPrefix\<close>, over the accumulated prefix and the loop variables.\<close>

function (sequential) readPrefixLoop ::
  "'s segment_ops \<Rightarrow> 's \<Rightarrow> int \<Rightarrow> journal_prefix \<Rightarrow> int \<Rightarrow> u64 \<Rightarrow> digest \<Rightarrow> journal_error + journal_prefix" where
  "readPrefixLoop ops seg sz out offset expected prev =
     (if \<not> offset < sz then Inr out
      else
        let remaining = sz - offset;
            want = min remaining (int MaxRecordBytes);
            (buf, err) = sg_ReadAt ops seg (nat want) offset in
        if buf = [] \<and> err \<noteq> None then
          (if err = Some EOF then Inr out
           else Inl (fatal offset ''read failed'' (IOCause (the err))))
        else
          (case DecodeRecord buf of
             Inl derr \<Rightarrow>
               let je = classifyDecode offset derr in
               if je_Kind je = KindTornTail then
                 let qLen = min remaining (int MaxRecordBytes);
                     (quarantine, rerr) = sg_ReadAt ops seg (nat qLen) offset in
                 if rerr \<noteq> None \<and> rerr \<noteq> Some EOF \<and> quarantine = []
                   then Inl (fatal offset ''quarantine read failed'' (IOCause (the rerr)))
                 else Inr (out\<lparr>p_Torn := True, p_TornOffset := offset, p_Quarantine := quarantine\<rparr>)
               else Inl je
           | Inr (rec, recLen) \<Rightarrow>
               if r_Sequence rec \<noteq> expected then Inl (fatal offset ''sequence gap or restart'' NoCause)
               else if expected = 1 \<and> r_PreviousCommitment rec \<noteq> GenesisCommitment
                 then Inl (fatal offset ''genesis previous_commitment mismatch'' NoCause)
               else if expected \<noteq> 1 \<and> r_PreviousCommitment rec \<noteq> prev
                 then Inl (fatal offset ''previous_commitment fork'' NoCause)
               else readPrefixLoop ops seg sz
                      (out\<lparr>p_Records := p_Records out @ [rec], p_Bytes := p_Bytes out + int recLen,
                           p_HeadCommitment := r_RecordCommitment rec,
                           p_NextSequence := r_Sequence rec + 1\<rparr>)
                      (offset + int recLen) (expected + 1) (r_RecordCommitment rec)))"
  by pat_completeness auto
termination
  by (relation "measure (\<lambda>(ops, seg, sz, out, offset, expected, prev). nat (sz - offset))")
     (auto dest: DecodeRecord_pos)

declare readPrefixLoop.simps [simp del]

definition ReadPrefix :: "'s segment_ops \<Rightarrow> 's \<Rightarrow> journal_error + journal_prefix" where
  "ReadPrefix ops seg =
     (let sz = sg_Size ops seg in
      if sz < 0 then Inl (fatal 0 ''negative segment size'' NoCause)
      else if sz = 0 then Inr (zero_prefix\<lparr>p_NextSequence := 1\<rparr>)
      else readPrefixLoop ops seg sz (zero_prefix\<lparr>p_NextSequence := 1\<rparr>) 0 1 zero_digest)"

subsection \<open>The writer\<close>

record 's journal_writer =
  w_seg :: 's
  w_nextSeq :: u64
  w_prevCommitment :: digest
  w_closed :: bool

definition OpenWriter :: "'s segment_ops \<Rightarrow> 's \<Rightarrow> journal_error + ('s journal_writer \<times> journal_prefix)" where
  "OpenWriter ops seg =
     (case ReadPrefix ops seg of
        Inl err \<Rightarrow> Inl err
      | Inr p \<Rightarrow>
          let w = \<lparr>w_seg = seg, w_nextSeq = p_NextSequence p, w_prevCommitment = p_HeadCommitment p,
                   w_closed = False\<rparr>;
              w = (if p_NextSequence p = 1 then w\<lparr>w_prevCommitment := GenesisCommitment\<rparr> else w)
          in Inr (w, p))"

datatype append_error = JournalErr journal_error | CodecErr codec_error | IOErr io_error

definition journal_err :: "journal_kind \<Rightarrow> int \<Rightarrow> string \<Rightarrow> append_error" where
  "journal_err kind offset msg =
     JournalErr \<lparr>je_Kind = kind, je_Offset = offset, je_Message = msg, je_Cause = NoCause\<rparr>"

definition WriterAppend ::
  "'s segment_ops \<Rightarrow> 's journal_writer \<Rightarrow> transaction_id \<Rightarrow> record_type \<Rightarrow> bytes \<Rightarrow>
   's journal_writer \<times> (append_error + journal_record)" where
  "WriterAppend ops w txid rtype payload =
     (if w_closed w then (w, Inl (journal_err KindClosed 0 ''writer closed''))
      else if sg_Size ops (w_seg w) > 0 \<and> w_nextSeq w = 1
        then (w, Inl (journal_err KindState 0 ''refusing append on inconsistent empty head''))
      else
        case ReadPrefix ops (w_seg w) of
          Inl err \<Rightarrow> (w, Inl (JournalErr err))
        | Inr p \<Rightarrow>
            if p_Torn p then
              (w, Inl (journal_err KindState (p_TornOffset p)
                    ''torn tail present; truncate quarantine before append''))
            else if p_NextSequence p \<noteq> w_nextSeq w
              then (w, Inl (journal_err KindState 0 ''writer sequence diverged from segment''))
            else
              let fields = \<lparr>rf_Sequence = w_nextSeq w, rf_TransactionID = txid, rf_Type = rtype,
                            rf_PreviousCommitment = w_prevCommitment w, rf_Payload = payload\<rparr> in
              case EncodeRecord fields of
                Inl err \<Rightarrow> (w, Inl (CodecErr err))
              | Inr enc \<Rightarrow>
                  if sg_Size ops (w_seg w) + int (length enc) > int MaxJournalSegmentBytes
                    then (w, Inl (journal_err KindFatal 0 ''append would exceed MaxJournalSegmentBytes''))
                  else
                    let (seg1, aerr) = sg_Append ops (w_seg w) enc;
                        w = w\<lparr>w_seg := seg1\<rparr> in
                    case aerr of
                      Some e \<Rightarrow> (w, Inl (IOErr e))
                    | None \<Rightarrow>
                        let (seg2, serr) = sg_Sync ops (w_seg w);
                            w = w\<lparr>w_seg := seg2\<rparr> in
                        case serr of
                          Some e \<Rightarrow> (w, Inl (IOErr e))
                        | None \<Rightarrow>
                            (case DecodeRecord enc of
                               Inl derr \<Rightarrow>
                                 (w, Inl (JournalErr (fatal (sg_Size ops (w_seg w) - int (length enc))
                                       ''encoded record failed self-decode'' (CodecCause derr))))
                             | Inr (rec, _) \<Rightarrow>
                                 (w\<lparr>w_prevCommitment := r_RecordCommitment rec,
                                    w_nextSeq := w_nextSeq w + 1\<rparr>, Inr rec)))"

definition WriterClose :: "'s journal_writer \<Rightarrow> 's journal_writer" where
  "WriterClose w = w\<lparr>w_closed := True\<rparr>"

subsection \<open>Segments\<close>

record mem_segment =
  m_buf :: bytes

definition NewMemSegment :: mem_segment where
  "NewMemSegment = \<lparr>m_buf = []\<rparr>"

definition MemSize :: "mem_segment \<Rightarrow> int" where
  "MemSize m = int (length (m_buf m))"

definition MemReadAt :: "mem_segment \<Rightarrow> nat \<Rightarrow> int \<Rightarrow> bytes \<times> io_error option" where
  "MemReadAt m plen off =
     (if off < 0 then ([], Some NegativeOffset)
      else if off \<ge> int (length (m_buf m)) then ([], Some EOF)
      else
        let got = take plen (drop (nat off) (m_buf m)) in
        if length got < plen then (got, Some EOF) else (got, None))"

definition MemAppend :: "mem_segment \<Rightarrow> bytes \<Rightarrow> mem_segment \<times> io_error option" where
  "MemAppend m p = (m\<lparr>m_buf := m_buf m @ p\<rparr>, None)"

definition MemSync :: "mem_segment \<Rightarrow> mem_segment \<times> io_error option" where
  "MemSync m = (m, None)"

definition MemTruncate :: "mem_segment \<Rightarrow> int \<Rightarrow> mem_segment" where
  "MemTruncate m n =
     (let n = (if n < 0 then 0 else n);
          n = (if n > int (length (m_buf m)) then int (length (m_buf m)) else n)
      in m\<lparr>m_buf := take (nat n) (m_buf m)\<rparr>)"

definition MemCorrupt :: "mem_segment \<Rightarrow> int \<Rightarrow> byte \<Rightarrow> mem_segment" where
  "MemCorrupt m off x =
     (if off \<ge> 0 \<and> off < int (length (m_buf m))
      then m\<lparr>m_buf := (m_buf m)[nat off := (m_buf m ! nat off) XOR x]\<rparr> else m)"

definition mem_ops :: "mem_segment segment_ops" where
  "mem_ops = \<lparr>sg_Size = MemSize, sg_ReadAt = MemReadAt, sg_Append = MemAppend, sg_Sync = MemSync\<rparr>"

definition ReadPrefixBytes :: "bytes \<Rightarrow> journal_error + journal_prefix" where
  "ReadPrefixBytes data = ReadPrefix mem_ops \<lparr>m_buf = data\<rparr>"

text \<open>
  Fault injection at the append boundaries.  \<open>killSelfAt\<close> ends the process, so its value is
  never looked at by code that runs afterwards.  The directory barrier \<open>platform.SyncDir\<close> is a
  parameter.
\<close>

definition CrashJAppendPre :: string where "CrashJAppendPre = ''J-APPEND-PRE''"
definition CrashJAppendMid :: string where "CrashJAppendMid = ''J-APPEND-MID''"
definition CrashJAppendPost :: string where "CrashJAppendPost = ''J-APPEND-POST''"
definition CrashJMetaPost :: string where "CrashJMetaPost = ''J-META-POST''"

record 's crash_segment =
  cs_Inner :: 's
  cs_FailAt :: string
  cs_KillAt :: string
  cs_Dir :: string
  cs_Hits :: "string list"

definition killSelfAt :: "string \<Rightarrow> io_error" where
  "killSelfAt label = Killed label"

definition armed :: "'s crash_segment \<Rightarrow> string \<Rightarrow> bool" where
  "armed c label \<longleftrightarrow> (cs_KillAt c \<noteq> [] \<and> cs_KillAt c = label) \<or> (cs_FailAt c \<noteq> [] \<and> cs_FailAt c = label)"

definition stopAt :: "'s crash_segment \<Rightarrow> string \<Rightarrow> 's crash_segment \<times> io_error option" where
  "stopAt c label =
     (if \<not> armed c label then (c, None)
      else
        let c = c\<lparr>cs_Hits := cs_Hits c @ [label]\<rparr> in
        if cs_KillAt c \<noteq> [] \<and> cs_KillAt c = label then (c, Some (killSelfAt label))
        else (c, Some (InjectedCrash label)))"

definition CrashAppend ::
  "'s segment_ops \<Rightarrow> 's crash_segment \<Rightarrow> bytes \<Rightarrow> 's crash_segment \<times> io_error option" where
  "CrashAppend inner c p =
     (case stopAt c CrashJAppendPre of
        (c, Some err) \<Rightarrow> (c, Some err)
      | (c, None) \<Rightarrow>
          if armed c CrashJAppendMid then
            let n = length p div 2;
                n = (if n < 1 \<and> length p > 0 then 1 else n);
                (s, err) = (if n > 0 then sg_Append inner (cs_Inner c) (take n p) else (cs_Inner c, None));
                c = c\<lparr>cs_Inner := s\<rparr> in
            (case err of
               Some e \<Rightarrow> (c, Some e)
             | None \<Rightarrow> stopAt c CrashJAppendMid)
          else
            let (s, err) = sg_Append inner (cs_Inner c) p in (c\<lparr>cs_Inner := s\<rparr>, err))"

definition CrashSync ::
  "(string \<Rightarrow> io_error option) \<Rightarrow> 's segment_ops \<Rightarrow> 's crash_segment \<Rightarrow> 's crash_segment \<times> io_error option" where
  "CrashSync syncDir inner c =
     (let (s, err) = sg_Sync inner (cs_Inner c);
          c' = c\<lparr>cs_Inner := s\<rparr> in
      if armed c CrashJAppendPost then
        (case err of Some e \<Rightarrow> (c', Some e) | None \<Rightarrow> stopAt c' CrashJAppendPost)
      else if armed c CrashJMetaPost then
        (case err of
           Some e \<Rightarrow> (c', Some e)
         | None \<Rightarrow>
             (case (if cs_Dir c' \<noteq> [] then syncDir (cs_Dir c') else None) of
                Some e \<Rightarrow> (c', Some e)
              | None \<Rightarrow> stopAt c' CrashJMetaPost))
      else (c', err))"

definition crash_ops ::
  "(string \<Rightarrow> io_error option) \<Rightarrow> 's segment_ops \<Rightarrow> 's crash_segment segment_ops" where
  "crash_ops syncDir inner =
     \<lparr>sg_Size = (\<lambda>c. sg_Size inner (cs_Inner c)),
      sg_ReadAt = (\<lambda>c. sg_ReadAt inner (cs_Inner c)),
      sg_Append = CrashAppend inner,
      sg_Sync = CrashSync syncDir inner\<rparr>"

subsection \<open>The independent verifier\<close>

datatype verify_err = VerifyCodec codec_error | ErrSeq | ErrGenesis | ErrFork

record verify_result =
  v_RecordCount :: nat
  v_Bytes :: int
  v_HeadCommitment :: digest
  v_NextSequence :: u64
  v_Torn :: bool
  v_TornOffset :: int
  v_Fatal :: bool
  v_FatalOffset :: int
  v_Err :: "verify_err option"

definition verify_fatal :: "verify_result \<Rightarrow> nat \<Rightarrow> verify_err \<Rightarrow> verify_result" where
  "verify_fatal res offset e = res\<lparr>v_Fatal := True, v_FatalOffset := int offset, v_Err := Some e\<rparr>"

function (sequential) verifyLoop ::
  "bytes \<Rightarrow> verify_result \<Rightarrow> nat \<Rightarrow> u64 \<Rightarrow> digest \<Rightarrow> verify_result" where
  "verifyLoop data res offset expected prev =
     (if \<not> offset < length data then res
      else
        case DecodeRecord (drop offset data) of
          Inl err \<Rightarrow>
            if AsKind err KindIncomplete
              then res\<lparr>v_Torn := True, v_TornOffset := int offset, v_Err := Some (VerifyCodec err)\<rparr>
            else verify_fatal res offset (VerifyCodec err)
        | Inr (rec, n) \<Rightarrow>
            if r_Sequence rec \<noteq> expected then verify_fatal res offset ErrSeq
            else if expected = 1 \<and> r_PreviousCommitment rec \<noteq> GenesisCommitment
              then verify_fatal res offset ErrGenesis
            else if expected \<noteq> 1 \<and> r_PreviousCommitment rec \<noteq> prev
              then verify_fatal res offset ErrFork
            else verifyLoop data
                   (res\<lparr>v_RecordCount := v_RecordCount res + 1, v_Bytes := v_Bytes res + int n,
                        v_HeadCommitment := r_RecordCommitment rec,
                        v_NextSequence := r_Sequence rec + 1\<rparr>)
                   (offset + n) (expected + 1) (r_RecordCommitment rec))"
  by pat_completeness auto
termination
  by (relation "measure (\<lambda>(data, res, offset, expected, prev). length data - offset)")
     (auto dest: DecodeRecord_pos)

declare verifyLoop.simps [simp del]

definition VerifyBytes :: "bytes \<Rightarrow> verify_result" where
  "VerifyBytes data =
     (let res = \<lparr>v_RecordCount = 0, v_Bytes = 0, v_HeadCommitment = zero_digest, v_NextSequence = 1,
                 v_Torn = False, v_TornOffset = 0, v_Fatal = False, v_FatalOffset = 0, v_Err = None\<rparr> in
      if data = [] then res else verifyLoop data res 0 1 zero_digest)"

subsection \<open>The file segment\<close>

text \<open>
  The operating system's file is a byte sequence.  What a \<open>WriteAt\<close> achieves is a parameter:
  \<open>wr file p\<close> is the number of leading bytes of \<open>p\<close> that reach the file and the error it
  returns, as is the outcome of the durability barrier \<open>platform.SyncFile\<close>.  So is a failing
  read: \<open>rd file plen off = Some (n, e)\<close> makes a \<open>ReadAt\<close> of \<open>plen\<close> bytes stop after \<open>n\<close> of them with
  the system error \<open>e\<close>, which is never \<open>io.EOF\<close>; it fails in the same way when the same read is
  repeated at once.  \<open>tr\<close> and \<open>sk\<close> are the failures of \<open>File.Truncate\<close>, which leaves the file as
  it was, and of \<open>File.Seek\<close>.
\<close>

record file_segment =
  fs_file :: bytes
  fs_size :: int

definition writeAt :: "bytes \<Rightarrow> bytes \<Rightarrow> nat \<Rightarrow> bytes" where
  "writeAt file p off =
     (if p = [] then file
      else take off file @ replicate (off - length file) 0 @ p @ drop (off + length p) file)"

definition OpenFileSegment :: "bytes \<Rightarrow> file_segment" where
  "OpenFileSegment file = \<lparr>fs_file = file, fs_size = int (length file)\<rparr>"

definition FileSize :: "file_segment \<Rightarrow> int" where
  "FileSize s = fs_size s"

type_synonym read_fault = "bytes \<Rightarrow> nat \<Rightarrow> int \<Rightarrow> (nat \<times> string) option"

definition FileReadAt :: "read_fault \<Rightarrow> file_segment \<Rightarrow> nat \<Rightarrow> int \<Rightarrow> bytes \<times> io_error option" where
  "FileReadAt rd s plen off =
     (if off < 0 then ([], Some NegativeOffset)
      else
        let got = take plen (drop (nat off) (fs_file s));
            end_err = (if length got < plen then Some EOF else None) in
        case rd (fs_file s) plen off of
          None \<Rightarrow> (got, end_err)
        | Some (n, e) \<Rightarrow> if n < plen then (take n got, Some (OtherIO e)) else (got, end_err))"

definition FileAppend ::
  "(bytes \<Rightarrow> bytes \<Rightarrow> nat \<times> io_error option) \<Rightarrow> file_segment \<Rightarrow> bytes \<Rightarrow> file_segment \<times> io_error option" where
  "FileAppend wr s p =
     (let (n, err) = wr (fs_file s) p;
          s = s\<lparr>fs_file := writeAt (fs_file s) (take n p) (nat (fs_size s))\<rparr> in
      case err of
        Some e \<Rightarrow> (s, Some e)
      | None \<Rightarrow>
          if n \<noteq> length p then (s, Some ErrShortWrite)
          else (s\<lparr>fs_size := fs_size s + int n\<rparr>, None))"

definition FileSync :: "(bytes \<Rightarrow> io_error option) \<Rightarrow> file_segment \<Rightarrow> file_segment \<times> io_error option" where
  "FileSync syncFile s = (s, syncFile (fs_file s))"

text \<open>A nil receiver is \<open>None\<close>.\<close>

definition FileTruncate ::
  "(bytes \<Rightarrow> int \<Rightarrow> io_error option) \<Rightarrow> (int \<Rightarrow> io_error option) \<Rightarrow> file_segment option \<Rightarrow> int \<Rightarrow>
   file_segment option \<times> io_error option" where
  "FileTruncate tr sk seg n =
     (case seg of
        None \<Rightarrow> (None, Some (OtherIO ''journal: nil file segment''))
      | Some s \<Rightarrow>
          let n = (if n < 0 then 0 else n) in
          case tr (fs_file s) n of
            Some e \<Rightarrow> (Some s, Some e)
          | None \<Rightarrow>
              let s = s\<lparr>fs_file := take (nat n) (fs_file s) @ replicate (nat n - length (fs_file s)) 0\<rparr> in
              case sk n of
                Some e \<Rightarrow> (Some s, Some e)
              | None \<Rightarrow> (Some (s\<lparr>fs_size := n\<rparr>), None))"

definition file_ops ::
  "read_fault \<Rightarrow> (bytes \<Rightarrow> bytes \<Rightarrow> nat \<times> io_error option) \<Rightarrow> (bytes \<Rightarrow> io_error option) \<Rightarrow> file_segment segment_ops" where
  "file_ops rd wr syncFile =
     \<lparr>sg_Size = FileSize, sg_ReadAt = FileReadAt rd, sg_Append = FileAppend wr, sg_Sync = FileSync syncFile\<rparr>"

end
