(* ===== verification/Journal_Correct.thy ===== *)
theory Journal_Correct
  imports Journal
begin

text \<open>
  Correctness of the journal.  Reader and verifier are shown to compute one reference scan; the
  scan accepts exactly the hash-chained sequences of canonical records; and over every
  implementation of the segment contract, whose reads may fail, an append, a fault or a sequence
  of calls leaves a valid journal in the bytes the segment counts as its own.
\<close>

subsection \<open>The reference scan\<close>

text \<open>
  What reader and verifier both compute: the accepted records of a byte sequence and why the
  scan stopped.
\<close>

datatype scan_stop = ScanEnd | ScanTorn codec_error | ScanBad codec_error | ScanSeq | ScanGenesis | ScanFork

function (sequential) scan :: "u64 \<Rightarrow> digest \<Rightarrow> bytes \<Rightarrow> journal_record list \<times> scan_stop" where
  "scan e prev data =
     (if data = [] then ([], ScanEnd)
      else
        case DecodeRecord data of
          Inl err \<Rightarrow> ([], if AsKind err KindIncomplete then ScanTorn err else ScanBad err)
        | Inr (r, n) \<Rightarrow>
            if r_Sequence r \<noteq> e then ([], ScanSeq)
            else if e = 1 \<and> r_PreviousCommitment r \<noteq> GenesisCommitment then ([], ScanGenesis)
            else if e \<noteq> 1 \<and> r_PreviousCommitment r \<noteq> prev then ([], ScanFork)
            else (case scan (e + 1) (r_RecordCommitment r) (drop n data) of (rs, st) \<Rightarrow> (r # rs, st)))"
  by pat_completeness auto
termination
  by (relation "measure (\<lambda>(e, prev, data). length data)") (auto dest: DecodeRecord_pos)

declare scan.simps [simp del]

definition rec_len :: "journal_record \<Rightarrow> nat" where
  "rec_len r = unat (r_RecordLength r)"

definition recs_len :: "journal_record list \<Rightarrow> nat" where
  "recs_len rs = sum_list (map rec_len rs)"

lemma recs_len_simps [simp]: "recs_len [] = 0" "recs_len (r # rs) = rec_len r + recs_len rs"
  "recs_len (rs @ rs') = recs_len rs + recs_len rs'"
  by (simp_all add: recs_len_def)

lemma DecodeRecord_rec_len:
  assumes "DecodeRecord b = Inr (r, n)"
  shows "n = rec_len r" and "n \<le> length b"
proof -
  note d = DecodeRecord_sound [OF assms]
  have "r_RecordLength r = word_of_nat (record_len (fields_of r))"
    by (subst d(3)) (simp add: record_of_def)
  with d(4) record_len_bounds(3) [OF d(2)] show "n = rec_len r"
    by (simp add: rec_len_def)
qed (rule DecodeRecord_sound(5) [OF assms])

text \<open>How the reader accumulates an accepted record, and how it ends.\<close>

definition accept :: "journal_prefix \<Rightarrow> journal_record \<Rightarrow> journal_prefix" where
  "accept out r = out\<lparr>p_Records := p_Records out @ [r], p_Bytes := p_Bytes out + int (rec_len r),
     p_HeadCommitment := r_RecordCommitment r, p_NextSequence := r_Sequence r + 1\<rparr>"

definition read_stop :: "journal_prefix \<Rightarrow> int \<Rightarrow> bytes \<Rightarrow> scan_stop \<Rightarrow> journal_error + journal_prefix" where
  "read_stop out offset tail st =
     (case st of
        ScanEnd \<Rightarrow> Inr out
      | ScanTorn e \<Rightarrow> Inr (out\<lparr>p_Torn := True, p_TornOffset := offset, p_Quarantine := take MaxRecordBytes tail\<rparr>)
      | ScanBad e \<Rightarrow> Inl (fatal offset ''interior corruption or non-canonical record'' (CodecCause e))
      | ScanSeq \<Rightarrow> Inl (fatal offset ''sequence gap or restart'' NoCause)
      | ScanGenesis \<Rightarrow> Inl (fatal offset ''genesis previous_commitment mismatch'' NoCause)
      | ScanFork \<Rightarrow> Inl (fatal offset ''previous_commitment fork'' NoCause))"

definition read_result :: "bytes \<Rightarrow> journal_error + journal_prefix" where
  "read_result data =
     (case scan 1 zero_digest data of
        (rs, st) \<Rightarrow> read_stop (foldl accept (zero_prefix\<lparr>p_NextSequence := 1\<rparr>) rs) (int (recs_len rs))
                     (drop (recs_len rs) data) st)"

lemma p_Records_foldl_accept [simp]: "p_Records (foldl accept out rs) = p_Records out @ rs"
  by (induction rs arbitrary: out) (simp_all add: accept_def)

lemma p_Torn_foldl_accept [simp]:
  "p_Torn (foldl accept out rs) = p_Torn out" "p_TornOffset (foldl accept out rs) = p_TornOffset out"
  by (induction rs arbitrary: out) (simp_all add: accept_def)

lemma p_Bytes_foldl_accept [simp]: "p_Bytes (foldl accept out rs) = p_Bytes out + int (recs_len rs)"
  by (induction rs arbitrary: out) (simp_all add: accept_def)

definition scan_head :: "digest \<Rightarrow> journal_record list \<Rightarrow> digest" where
  "scan_head prev rs = (if rs = [] then prev else r_RecordCommitment (last rs))"

lemma p_Head_foldl_accept [simp]: "p_HeadCommitment (foldl accept out rs) = scan_head (p_HeadCommitment out) rs"
  by (induction rs arbitrary: out) (simp_all add: accept_def scan_head_def)

lemma p_Next_foldl_accept:
  "p_NextSequence (foldl accept out rs) = (if rs = [] then p_NextSequence out else r_Sequence (last rs) + 1)"
  by (induction rs arbitrary: out) (simp_all add: accept_def)

subsection \<open>The contract of a segment\<close>

text \<open>
  What reader and writer rely on: a read gives a prefix of the visible bytes asked for, and all of
  them unless it fails with an error other than \<open>io.EOF\<close>; a failed append has added at most a
  prefix of its argument, a successful one all of it, and nothing that was visible before is ever
  changed.  \<open>ok\<close> is the implementation's own invariant.
\<close>

locale segment =
  fixes ops :: "'s segment_ops"
    and contents :: "'s \<Rightarrow> bytes"
    and ok :: "'s \<Rightarrow> bool"
  assumes size_law: "ok s \<Longrightarrow> sg_Size ops s = int (length (contents s))"
    and read_law: "ok s \<Longrightarrow> k + n \<le> length (contents s) \<Longrightarrow> sg_ReadAt ops s n (int k) = (buf, err) \<Longrightarrow>
      (\<exists>j. buf = take j (take n (drop k (contents s)))) \<and>
      (err = None \<or> err = Some EOF \<longrightarrow> buf = take n (drop k (contents s)))"
    and append_ok: "ok s \<Longrightarrow> ok (fst (sg_Append ops s p))"
    and append_law: "ok s \<Longrightarrow> \<exists>k. contents (fst (sg_Append ops s p)) = contents s @ take k p"
    and append_all: "ok s \<Longrightarrow> snd (sg_Append ops s p) = None \<Longrightarrow>
      contents (fst (sg_Append ops s p)) = contents s @ p"
    and sync_ok: "ok s \<Longrightarrow> ok (fst (sg_Sync ops s))"
    and sync_law: "ok s \<Longrightarrow> contents (fst (sg_Sync ops s)) = contents s"

text \<open>A segment whose reads do not fail.\<close>

locale exact_segment = segment +
  assumes read_exact: "ok s \<Longrightarrow> k + n \<le> length (contents s) \<Longrightarrow>
      fst (sg_ReadAt ops s n (int k)) = take n (drop k (contents s))"
begin

lemma readPrefixLoop_scan:
  assumes "ok s" and "k \<le> length (contents s)"
  shows "readPrefixLoop ops s (int (length (contents s))) out (int k) e prev =
    (case scan e prev (drop k (contents s)) of
       (rs, st) \<Rightarrow> read_stop (foldl accept out rs) (int (k + recs_len rs)) (drop (k + recs_len rs) (contents s)) st)"
  using assms(2)
proof (induction "length (contents s) - k" arbitrary: k e prev out rule: less_induct)
  case less
  let ?c = "contents s"
  show ?case
  proof (cases "k < length ?c")
    case False
    then show ?thesis
      using less.prems by (simp add: readPrefixLoop.simps scan.simps read_stop_def)
  next
    case True
    let ?want = "min (int (length ?c) - int k) (int MaxRecordBytes)"
    obtain buf err where rd: "sg_ReadAt ops s (nat ?want) (int k) = (buf, err)"
      by fastforce
    have nw: "k + nat ?want \<le> length ?c"
      using True by linarith
    have "take (nat ?want) (drop k ?c) = take MaxRecordBytes (drop k ?c)"
      using True by (cases "length ?c - k \<le> MaxRecordBytes") (auto simp: min_def nat_diff_distrib)
    then have buf: "buf = take MaxRecordBytes (drop k ?c)"
      using read_exact [OF assms(1) nw] rd by simp
    have ne: "buf \<noteq> []"
      using True by (simp add: buf codec_const_defs)
    have dec: "DecodeRecord buf = DecodeRecord (drop k ?c)"
      by (simp add: buf DecodeRecord_take_max)
    show ?thesis
    proof (cases "DecodeRecord (drop k ?c)")
      case (Inl derr)
      with True rd ne dec buf show ?thesis
        by (subst readPrefixLoop.simps, subst scan.simps)
          (simp add: Let_def classifyDecode_def torn_def fatal_def read_stop_def)
    next
      case (Inr rn)
      obtain r n where rn: "rn = (r, n)"
        by fastforce
      with Inr have d: "DecodeRecord (drop k ?c) = Inr (r, n)"
        by simp
      note dl = DecodeRecord_rec_len [OF d] DecodeRecord_pos [OF d]
      have IH: "readPrefixLoop ops s (int (length ?c)) out' (int k + int n) e' prev' =
        (case scan e' prev' (drop (k + n) ?c) of
          (rs, st) \<Rightarrow> read_stop (foldl accept out' rs) (int (k + n + recs_len rs)) (drop (k + n + recs_len rs) ?c) st)"
        for out' e' prev'
        using less.hyps [of "k + n" out' e' prev'] dl(2,3) True by simp
      show ?thesis
      proof (cases "r_Sequence r = e \<and> (e = 1 \<longrightarrow> r_PreviousCommitment r = GenesisCommitment) \<and>
          (e \<noteq> 1 \<longrightarrow> r_PreviousCommitment r = prev)")
        case good: True
        have L: "readPrefixLoop ops s (int (length ?c)) out (int k) e prev =
          readPrefixLoop ops s (int (length ?c)) (accept out r) (int k + int n) (e + 1) (r_RecordCommitment r)"
          using True rd ne good
          by (subst readPrefixLoop.simps) (auto simp: Let_def dec d accept_def simp flip: dl(1))
        have S: "scan e prev (drop k ?c) =
          (case scan (e + 1) (r_RecordCommitment r) (drop (k + n) ?c) of (rs, st) \<Rightarrow> (r # rs, st))"
          using True good by (subst scan.simps) (auto simp: d add.commute)
        show ?thesis
          unfolding L S IH by (simp add: dl(1) add.assoc split: prod.split)
      next
        case False
        with True rd ne show ?thesis
          by (subst readPrefixLoop.simps, subst scan.simps) (auto simp: Let_def dec d read_stop_def)
      qed
    qed
  qed
qed

lemma ReadPrefix_scan:
  assumes "ok s"
  shows "ReadPrefix ops s = read_result (contents s)"
proof (cases "contents s = []")
  case True
  then show ?thesis
    by (simp add: ReadPrefix_def size_law assms read_result_def scan.simps read_stop_def)
next
  case False
  then show ?thesis
    using readPrefixLoop_scan [OF assms, of 0 "zero_prefix\<lparr>p_NextSequence := 1\<rparr>" 1 zero_digest]
    by (simp add: ReadPrefix_def size_law assms read_result_def)
qed

end

text \<open>
  A reader over failing reads: what it accepts without a torn tail is what is there; when it
  reports a torn tail, what it accepted is there, but more may follow.
\<close>

lemma DecodeRecord_prefix:
  assumes "DecodeRecord (take j b) = Inr (r, n)"
  shows "DecodeRecord b = Inr (r, n)"
proof -
  note d = DecodeRecord_sound [OF assms]
  have "n \<le> j"
    using d(5) by simp
  then have "b = record_bytes (fields_of r) @ drop n b"
    using d(6) by (metis append_take_drop_id min_def take_take)
  then show ?thesis
    using DecodeRecord_record_bytes [OF d(1,2), of "drop n b"] d(3,4) by simp
qed

definition read_shows :: "journal_prefix \<Rightarrow> nat \<Rightarrow> journal_record list \<times> scan_stop \<Rightarrow> journal_prefix \<Rightarrow> bool" where
  "read_shows out k sc p \<longleftrightarrow> (\<exists>rs rest st. sc = (rs @ rest, st) \<and>
     (if p_Torn p
      then \<exists>q. p = (foldl accept out rs)\<lparr>p_Torn := True, p_TornOffset := int (k + recs_len rs), p_Quarantine := q\<rparr>
      else p = foldl accept out rs \<and> rest = [] \<and> st = ScanEnd))"

lemma read_shows_none:
  "\<exists>q. p = out\<lparr>p_Torn := True, p_TornOffset := int k, p_Quarantine := q\<rparr> \<Longrightarrow> read_shows out k (rs, st) p"
  unfolding read_shows_def by (rule exI [of _ "[]"]) auto

lemma read_shows_Cons:
  assumes "read_shows (accept out r) (k + rec_len r) (rs, st) p"
  shows "read_shows out k (r # rs, st) p"
proof -
  from assms obtain xs ys where sc: "rs = xs @ ys" and
    c: "if p_Torn p
      then \<exists>q. p = (foldl accept (accept out r) xs)\<lparr>p_Torn := True, p_TornOffset := int (k + rec_len r + recs_len xs), p_Quarantine := q\<rparr>
      else p = foldl accept (accept out r) xs \<and> ys = [] \<and> st = ScanEnd"
    unfolding read_shows_def by auto
  show ?thesis
    unfolding read_shows_def
    by (rule exI [of _ "r # xs"], rule exI [of _ ys], rule exI [of _ st], cases "p_Torn p")
      (use sc c in \<open>simp_all add: add.assoc\<close>)
qed

context segment
begin

lemma readPrefixLoop_sound:
  assumes "ok s" and "k \<le> length (contents s)" and "\<not> p_Torn out"
    and "readPrefixLoop ops s (int (length (contents s))) out (int k) e prev = Inr p"
  shows "read_shows out k (scan e prev (drop k (contents s))) p"
  using assms(2-4)
proof (induction "length (contents s) - k" arbitrary: k e prev out rule: less_induct)
  case less
  let ?c = "contents s"
  show ?case
  proof (cases "k < length ?c")
    case False
    then show ?thesis
      using less.prems by (simp add: readPrefixLoop.simps scan.simps read_shows_def)
  next
    case True
    let ?want = "min (int (length ?c) - int k) (int MaxRecordBytes)"
    obtain buf err where rd: "sg_ReadAt ops s (nat ?want) (int k) = (buf, err)"
      by fastforce
    have nw: "k + nat ?want \<le> length ?c" and pos: "0 < nat ?want"
      using True by (auto simp: min_def codec_const_defs)
    have full: "err = None \<or> err = Some EOF \<Longrightarrow> buf = take (nat ?want) (drop k ?c)"
      and "\<exists>j. buf = take j (take (nat ?want) (drop k ?c))"
      using read_law [OF assms(1) nw rd] by blast+
    then obtain j where buf: "buf = take j (drop k ?c)"
      by (metis take_take)
    have ne: "buf \<noteq> []"
    proof
      assume e: "buf = []"
      have "take (nat ?want) (drop k ?c) \<noteq> []"
        using pos True by (simp del: min_less_iff_conj)
      then have "err \<noteq> None \<and> err \<noteq> Some EOF"
        using full e by metis
      then show False
        using less.prems(3) rd True e by (subst (asm) readPrefixLoop.simps) (simp add: Let_def)
    qed
    show ?thesis
    proof (cases "DecodeRecord buf")
      case (Inl derr)
      have "\<exists>q. p = out\<lparr>p_Torn := True, p_TornOffset := int k, p_Quarantine := q\<rparr>"
        using less.prems(3) rd True ne Inl
        by (subst (asm) readPrefixLoop.simps) (auto simp: Let_def split: if_splits prod.splits)
      then show ?thesis
        using read_shows_none by (cases "scan e prev (drop k ?c)") simp
    next
      case (Inr rn)
      obtain r n where rn: "rn = (r, n)"
        by fastforce
      with Inr have db: "DecodeRecord buf = Inr (r, n)"
        by simp
      then have d: "DecodeRecord (drop k ?c) = Inr (r, n)"
        unfolding buf by (rule DecodeRecord_prefix)
      note dl = DecodeRecord_rec_len [OF d] DecodeRecord_pos [OF d]
      have good: "r_Sequence r = e \<and> (e = 1 \<longrightarrow> r_PreviousCommitment r = GenesisCommitment) \<and>
          (e \<noteq> 1 \<longrightarrow> r_PreviousCommitment r = prev)"
        using less.prems(3) rd True ne db
        by (subst (asm) readPrefixLoop.simps) (auto simp: Let_def split: if_splits)
      have "readPrefixLoop ops s (int (length ?c)) (accept out r) (int (k + n)) (e + 1) (r_RecordCommitment r) = Inr p"
        using less.prems(3) rd True ne db good
        by (subst (asm) readPrefixLoop.simps) (auto simp: Let_def accept_def simp flip: dl(1))
      then have "read_shows (accept out r) (k + n) (scan (e + 1) (r_RecordCommitment r) (drop (k + n) ?c)) p"
        using dl(2,3) True less.prems(2) by (intro less.hyps) (auto simp: accept_def)
      then show ?thesis
        using True good read_shows_Cons [of out r k _ _ p]
        by (subst scan.simps) (auto simp: d add.commute dl(1) split: prod.splits)
    qed
  qed
qed

lemma ReadPrefix_sound:
  assumes "ok s" and "ReadPrefix ops s = Inr p"
  shows "read_shows (zero_prefix\<lparr>p_NextSequence := 1\<rparr>) 0 (scan 1 zero_digest (contents s)) p"
proof (cases "contents s = []")
  case True
  then show ?thesis
    using assms by (auto simp: ReadPrefix_def size_law read_shows_def scan.simps zero_prefix_def)
next
  case False
  then show ?thesis
    using readPrefixLoop_sound [OF assms(1), of 0 "zero_prefix\<lparr>p_NextSequence := 1\<rparr>" 1 zero_digest p] assms
    by (simp add: ReadPrefix_def size_law zero_prefix_def)
qed

lemma ReadPrefix_untorn:
  assumes "ok s" and "ReadPrefix ops s = Inr p" and "\<not> p_Torn p"
  shows "read_result (contents s) = Inr p"
  using ReadPrefix_sound [OF assms(1,2)] assms(3) by (auto simp: read_shows_def read_result_def read_stop_def)

end

subsection \<open>The verifier computes the same scan\<close>

definition verify_accept :: "verify_result \<Rightarrow> journal_record \<Rightarrow> verify_result" where
  "verify_accept res r = res\<lparr>v_RecordCount := v_RecordCount res + 1, v_Bytes := v_Bytes res + int (rec_len r),
     v_HeadCommitment := r_RecordCommitment r, v_NextSequence := r_Sequence r + 1\<rparr>"

definition verify_stop :: "verify_result \<Rightarrow> nat \<Rightarrow> scan_stop \<Rightarrow> verify_result" where
  "verify_stop res offset st =
     (case st of
        ScanEnd \<Rightarrow> res
      | ScanTorn e \<Rightarrow> res\<lparr>v_Torn := True, v_TornOffset := int offset, v_Err := Some (VerifyCodec e)\<rparr>
      | ScanBad e \<Rightarrow> verify_fatal res offset (VerifyCodec e)
      | ScanSeq \<Rightarrow> verify_fatal res offset ErrSeq
      | ScanGenesis \<Rightarrow> verify_fatal res offset ErrGenesis
      | ScanFork \<Rightarrow> verify_fatal res offset ErrFork)"

lemma verifyLoop_scan:
  assumes "k \<le> length data"
  shows "verifyLoop data res k e prev =
    (case scan e prev (drop k data) of (rs, st) \<Rightarrow> verify_stop (foldl verify_accept res rs) (k + recs_len rs) st)"
  using assms
proof (induction "length data - k" arbitrary: k e prev res rule: less_induct)
  case less
  show ?case
  proof (cases "k < length data \<and> (\<exists>r n. DecodeRecord (drop k data) = Inr (r, n))")
    case False
    then show ?thesis
      by (cases "DecodeRecord (drop k data)")
        (auto simp: verifyLoop.simps [of data res] scan.simps [of e] verify_stop_def)
  next
    case True
    then obtain r n where k: "k < length data" and d: "DecodeRecord (drop k data) = Inr (r, n)"
      by blast
    note dl = DecodeRecord_rec_len [OF d] DecodeRecord_pos [OF d]
    have IH: "verifyLoop data res' (k + n) e' prev' = (case scan e' prev' (drop (k + n) data) of
        (rs, st) \<Rightarrow> verify_stop (foldl verify_accept res' rs) (k + n + recs_len rs) st)" for res' e' prev'
      using less.hyps [of "k + n" res' e' prev'] dl(2,3) k by simp
    show ?thesis
    proof (cases "r_Sequence r = e \<and> (e = 1 \<longrightarrow> r_PreviousCommitment r = GenesisCommitment) \<and>
        (e \<noteq> 1 \<longrightarrow> r_PreviousCommitment r = prev)")
      case good: True
      have L: "verifyLoop data res k e prev = verifyLoop data (verify_accept res r) (k + n) (e + 1) (r_RecordCommitment r)"
        using k good by (subst verifyLoop.simps) (auto simp: d verify_accept_def simp flip: dl(1))
      have S: "scan e prev (drop k data) =
        (case scan (e + 1) (r_RecordCommitment r) (drop (k + n) data) of (rs, st) \<Rightarrow> (r # rs, st))"
        using k good by (subst scan.simps) (auto simp: d add.commute)
      show ?thesis
        unfolding L S IH by (simp add: dl(1) add.assoc split: prod.split)
    next
      case False
      with k show ?thesis
        by (subst verifyLoop.simps, subst scan.simps) (auto simp: d verify_stop_def)
    qed
  qed
qed

definition verify_init :: verify_result where
  "verify_init = \<lparr>v_RecordCount = 0, v_Bytes = 0, v_HeadCommitment = zero_digest, v_NextSequence = 1,
     v_Torn = False, v_TornOffset = 0, v_Fatal = False, v_FatalOffset = 0, v_Err = None\<rparr>"

lemma VerifyBytes_scan:
  "VerifyBytes data =
     (case scan 1 zero_digest data of (rs, st) \<Rightarrow> verify_stop (foldl verify_accept verify_init rs) (recs_len rs) st)"
  using verifyLoop_scan [of 0 data verify_init 1 zero_digest]
  by (auto simp: VerifyBytes_def verify_init_def Let_def scan.simps [of _ _ "[]"] verify_stop_def)

text \<open>Reader and verifier accumulate the same head.\<close>

definition same_head :: "journal_prefix \<Rightarrow> verify_result \<Rightarrow> bool" where
  "same_head p v \<longleftrightarrow> v_RecordCount v = length (p_Records p) \<and> v_Bytes v = p_Bytes p \<and>
     v_HeadCommitment v = p_HeadCommitment p \<and> v_NextSequence v = p_NextSequence p \<and>
     v_Torn v = p_Torn p \<and> v_TornOffset v = p_TornOffset p"

lemma same_head_accept:
  "same_head p v \<Longrightarrow> same_head (accept p r) (verify_accept v r)"
  "v_Fatal (verify_accept v r) = v_Fatal v"
  by (simp_all add: same_head_def accept_def verify_accept_def)

lemma same_head_foldl:
  "same_head p v \<Longrightarrow> v_Fatal v = f \<Longrightarrow>
   same_head (foldl accept p rs) (foldl verify_accept v rs) \<and> v_Fatal (foldl verify_accept v rs) = f"
proof (induction rs arbitrary: p v)
  case (Cons r rs)
  then show ?case
    using Cons.IH [of "accept p r" "verify_accept v r"] by (simp add: same_head_accept)
qed simp

subsection \<open>Chains of records\<close>

text \<open>The records of a healthy journal: consecutive sequence numbers, each linked to the one before.\<close>

fun chained :: "u64 \<Rightarrow> digest \<Rightarrow> record_fields list \<Rightarrow> bool" where
  "chained e prev [] \<longleftrightarrow> True"
| "chained e prev (f # fs) \<longleftrightarrow> wf_fields f \<and> encodable f \<and> rf_Sequence f = e \<and>
     (e \<noteq> 1 \<longrightarrow> rf_PreviousCommitment f = prev) \<and> chained (e + 1) (record_commitment f) fs"

definition stop_clean :: "scan_stop \<Rightarrow> bool" where
  "stop_clean st \<longleftrightarrow> st = ScanEnd \<or> (\<exists>e. st = ScanTorn e)"

lemma stop_clean_simps [simp]: "stop_clean ScanEnd" "stop_clean (ScanTorn e)" "\<not> stop_clean (ScanBad e)"
  "\<not> stop_clean ScanSeq" "\<not> stop_clean ScanGenesis" "\<not> stop_clean ScanFork"
  by (simp_all add: stop_clean_def)

lemma fields_of_simps [simp]:
  "rf_Sequence (fields_of r) = r_Sequence r" "rf_PreviousCommitment (fields_of r) = r_PreviousCommitment r"
  "rf_TransactionID (fields_of r) = r_TransactionID r" "rf_Type (fields_of r) = r_Type r"
  "rf_Payload (fields_of r) = r_Payload r"
  by (simp_all add: fields_of_def)

lemma record_of_simps [simp]:
  "r_Sequence (record_of f) = rf_Sequence f" "r_PreviousCommitment (record_of f) = rf_PreviousCommitment f"
  "r_TransactionID (record_of f) = rf_TransactionID f" "r_Type (record_of f) = rf_Type f"
  "r_Payload (record_of f) = rf_Payload f" "r_RecordCommitment (record_of f) = record_commitment f"
  by (simp_all add: record_of_def)

lemma scan_record_bytes:
  assumes "wf_fields f" and "encodable f" and "rf_Sequence f = e" and "e \<noteq> 1 \<longrightarrow> rf_PreviousCommitment f = prev"
  shows "scan e prev (record_bytes f @ rest) =
    (case scan (e + 1) (record_commitment f) rest of (rs, st) \<Rightarrow> (record_of f # rs, st))"
proof -
  have "e = 1 \<longrightarrow> rf_PreviousCommitment f = GenesisCommitment"
    using assms(2,3) by (simp add: encodable_def)
  with assms show ?thesis
    by (subst scan.simps)
      (auto simp: DecodeRecord_record_bytes length_record_bytes record_of_def)
qed

lemma scan_chained:
  "chained e prev fs \<Longrightarrow>
   scan e prev (concat (map record_bytes fs) @ rest) =
   (case scan (e + of_nat (length fs)) (if fs = [] then prev else record_commitment (last fs)) rest of
      (rs, st) \<Rightarrow> (map record_of fs @ rs, st))"
proof (induction fs arbitrary: e prev)
  case (Cons f fs)
  then have "scan e prev (record_bytes f @ concat (map record_bytes fs) @ rest) =
     (case scan (e + 1) (record_commitment f) (concat (map record_bytes fs) @ rest) of
        (rs, st) \<Rightarrow> (record_of f # rs, st))"
    by (intro scan_record_bytes) auto
  with Cons show ?case
    by (simp add: add.assoc split: prod.split)
qed (simp split: prod.split)

lemma scan_sound:
  "scan e prev data = (rs, st) \<Longrightarrow>
   chained e prev (map fields_of rs) \<and> rs = map record_of (map fields_of rs) \<and>
   (\<exists>rest. data = concat (map record_bytes (map fields_of rs)) @ rest \<and> recs_len rs + length rest = length data \<and>
      (st = ScanEnd \<longleftrightarrow> rest = []) \<and>
      (\<forall>err. st = ScanTorn err \<longrightarrow> DecodeRecord rest = Inl err \<and> ce_Kind err = KindIncomplete))"
proof (induction e prev data arbitrary: rs rule: scan.induct)
  case (1 e prev data)
  show ?case
  proof (cases "data \<noteq> [] \<and> (\<exists>r n. DecodeRecord data = Inr (r, n) \<and> r_Sequence r = e \<and>
      (e = 1 \<longrightarrow> r_PreviousCommitment r = GenesisCommitment) \<and> (e \<noteq> 1 \<longrightarrow> r_PreviousCommitment r = prev))")
    case False
    with "1.prems" show ?thesis
      by (subst (asm) scan.simps)
        (auto simp: AsKind_def split: sum.splits prod.splits if_splits)
  next
    case True
    then obtain r n where ne: "data \<noteq> []" and d: "DecodeRecord data = Inr (r, n)"
      and g: "r_Sequence r = e" "e = 1 \<longrightarrow> r_PreviousCommitment r = GenesisCommitment"
        "e \<noteq> 1 \<longrightarrow> r_PreviousCommitment r = prev"
      by blast
    obtain rs' where rs': "scan (e + 1) (r_RecordCommitment r) (drop n data) = (rs', st)" "rs = r # rs'"
      using "1.prems" ne d g by (subst (asm) scan.simps) (auto split: prod.splits)
    note s = DecodeRecord_sound [OF d] and dl = DecodeRecord_rec_len [OF d]
    have commit: "r_RecordCommitment r = record_commitment (fields_of r)"
      by (subst s(3)) (simp add: record_of_def)
    have data: "data = record_bytes (fields_of r) @ drop n data"
      using s(6) by (metis append_take_drop_id)
    have IH: "chained (e + 1) (r_RecordCommitment r) (map fields_of rs') \<and> rs' = map record_of (map fields_of rs') \<and>
       (\<exists>rest. drop n data = concat (map record_bytes (map fields_of rs')) @ rest \<and>
          recs_len rs' + length rest = length (drop n data) \<and> (st = ScanEnd \<longleftrightarrow> rest = []) \<and>
          (\<forall>err. st = ScanTorn err \<longrightarrow> DecodeRecord rest = Inl err \<and> ce_Kind err = KindIncomplete))"
      by (rule "1.IH" [OF ne d]) (use rs' g in auto)
    then obtain rest where rest: "drop n data = concat (map record_bytes (map fields_of rs')) @ rest"
      "recs_len rs' + length rest = length (drop n data)" "st = ScanEnd \<longleftrightarrow> rest = []"
      "\<forall>err. st = ScanTorn err \<longrightarrow> DecodeRecord rest = Inl err \<and> ce_Kind err = KindIncomplete"
      by blast
    have "data = concat (map record_bytes (map fields_of rs)) @ rest"
      using data rest(1) rs'(2) by simp
    moreover have "recs_len rs + length rest = length data"
      using rest(2) rs'(2) dl by (simp only: recs_len_simps length_drop)
    moreover have "chained e prev (map fields_of rs)" "rs = map record_of (map fields_of rs)"
      using IH rs'(2) s(1,2,3) g by (simp_all add: commit)
    ultimately show ?thesis
      using rest(3,4) by blast
  qed
qed

lemma chained_last:
  "chained e prev fs \<Longrightarrow> fs \<noteq> [] \<Longrightarrow> rf_Sequence (last fs) + 1 = e + of_nat (length fs)"
proof (induction fs arbitrary: e prev)
  case (Cons f fs)
  then show ?case
    using Cons.IH [of "e + 1" "record_commitment f"] by (cases "fs = []") (simp_all add: algebra_simps)
qed simp

lemma scan_head_fields:
  assumes "rs = map record_of (map fields_of rs)"
  shows "scan_head prev rs = (if rs = [] then prev else record_commitment (last (map fields_of rs)))"
  by (subst assms) (simp add: scan_head_def last_map)

lemma scan_append:
  assumes "scan e prev data = (rs, ScanEnd)"
  shows "scan e prev (data @ ext) =
    (case scan (e + of_nat (length rs)) (scan_head prev rs) ext of (rs', st) \<Rightarrow> (rs @ rs', st))"
proof -
  note s = scan_sound [OF assms]
  then have "data = concat (map record_bytes (map fields_of rs))" and ch: "chained e prev (map fields_of rs)"
    and rs: "rs = map record_of (map fields_of rs)"
    by auto
  with scan_chained [OF ch, of ext] show ?thesis
    by (simp add: scan_head_fields [OF rs] flip: map_map)
qed

definition next_record :: "u64 \<Rightarrow> digest \<Rightarrow> record_fields \<Rightarrow> bool" where
  "next_record e prev f \<longleftrightarrow> wf_fields f \<and> encodable f \<and> rf_Sequence f = e \<and> (e \<noteq> 1 \<longrightarrow> rf_PreviousCommitment f = prev)"

lemma scan_partial:
  assumes "next_record e prev f"
  shows "scan e prev (take k (record_bytes f)) =
     (if length (record_bytes f) \<le> k then ([record_of f], ScanEnd)
      else if k = 0 then ([], ScanEnd)
      else ([], ScanTorn (projl (DecodeRecord (take k (record_bytes f))))))"
proof (cases "length (record_bytes f) \<le> k")
  case True
  then show ?thesis
    using scan_record_bytes [of f e prev "[]"] assms by (simp add: next_record_def scan.simps [of _ _ "[]"])
next
  case False
  with assms obtain er where "DecodeRecord (take k (record_bytes f)) = Inl er" "ce_Kind er = KindIncomplete"
    using DecodeRecord_truncated [of f k] by (auto simp: next_record_def)
  with False show ?thesis
    by (subst scan.simps) (simp add: AsKind_def)
qed

text \<open>What an accepted scan means for the result of the reader.\<close>

definition prefix_shows :: "journal_prefix \<Rightarrow> journal_record list \<Rightarrow> bool \<Rightarrow> bool" where
  "prefix_shows p rs t \<longleftrightarrow> p_Records p = rs \<and> p_Torn p = t \<and> p_NextSequence p = 1 + of_nat (length rs) \<and>
     p_HeadCommitment p = scan_head zero_digest rs \<and> p_Bytes p = int (recs_len rs)"

lemma scan_next_sequence:
  assumes "scan 1 zero_digest data = (rs, st)"
  shows "p_NextSequence (foldl accept (zero_prefix\<lparr>p_NextSequence := 1\<rparr>) rs) = 1 + of_nat (length rs)"
proof -
  note s = scan_sound [OF assms]
  then have "rs = map record_of (map fields_of rs)"
    by blast
  then have "rs \<noteq> [] \<Longrightarrow> r_Sequence (last rs) = rf_Sequence (last (map fields_of rs))"
    by (simp add: last_map)
  with s chained_last [of 1 zero_digest "map fields_of rs"] show ?thesis
    by (simp add: p_Next_foldl_accept)
qed

lemma read_result_clean:
  assumes "scan 1 zero_digest data = (rs, st)" and "stop_clean st"
  obtains p where "read_result data = Inr p" "prefix_shows p rs (st \<noteq> ScanEnd)"
proof -
  note next_seq = scan_next_sequence [OF assms(1)]
  from assms(2) consider "st = ScanEnd" | e where "st = ScanTorn e"
    by (auto simp: stop_clean_def)
  then show ?thesis
    by cases (use that next_seq in \<open>force simp: read_result_def assms(1) read_stop_def prefix_shows_def zero_prefix_def\<close>)+
qed

lemma read_result_Inr:
  assumes "read_result data = Inr p"
  obtains rs st where "scan 1 zero_digest data = (rs, st)" "stop_clean st" "prefix_shows p rs (st \<noteq> ScanEnd)"
proof -
  obtain rs st where sc: "scan 1 zero_digest data = (rs, st)"
    by fastforce
  with assms have "stop_clean st"
    by (cases st) (simp_all add: read_result_def read_stop_def)
  with sc assms that show ?thesis
    by (metis read_result_clean sum.inject(2))
qed

lemma zero_digest_genesis: "GenesisCommitment = zero_digest"
  by (simp add: GenesisCommitment_def)

text \<open>
  The writer's invariant: the visible bytes are a healthy journal, possibly with a torn tail,
  and when the writer's sequence number is the next one its commitment is the head.
\<close>

definition writer_view :: "bytes \<Rightarrow> u64 \<Rightarrow> digest \<Rightarrow> bool" where
  "writer_view data nextSeq prev \<longleftrightarrow>
     (\<exists>rs st. scan 1 zero_digest data = (rs, st) \<and> stop_clean st \<and> length prev = 32 \<and>
        (st = ScanEnd \<and> nextSeq = 1 + of_nat (length rs) \<longrightarrow> prev = scan_head zero_digest rs))"

definition writer_fields :: "'s journal_writer \<Rightarrow> transaction_id \<Rightarrow> record_type \<Rightarrow> bytes \<Rightarrow> record_fields" where
  "writer_fields w txid rtype payload = \<lparr>rf_Sequence = w_nextSeq w, rf_TransactionID = txid, rf_Type = rtype,
     rf_PreviousCommitment = w_prevCommitment w, rf_Payload = payload\<rparr>"

text \<open>Every outcome of \<open>Append\<close>: a refusal that touches nothing, or an attempt to add one record.\<close>

lemma WriterAppend_cases:
  assumes "WriterAppend ops w txid rtype payload = (w', res)"
  obtains (refused) e where "w' = w" "res = Inl e"
  | (failed) p enc seg e where "ReadPrefix ops (w_seg w) = Inr p" "\<not> p_Torn p" "p_NextSequence p = w_nextSeq w"
      "EncodeRecord (writer_fields w txid rtype payload) = Inr enc"
      "sg_Size ops (w_seg w) + int (length enc) \<le> int MaxJournalSegmentBytes"
      "seg = fst (sg_Append ops (w_seg w) enc) \<or>
       snd (sg_Append ops (w_seg w) enc) = None \<and> seg = fst (sg_Sync ops (fst (sg_Append ops (w_seg w) enc)))"
      "w' = w\<lparr>w_seg := seg\<rparr>" "res = Inl e"
  | (stored) p enc rec n where "ReadPrefix ops (w_seg w) = Inr p" "\<not> p_Torn p" "p_NextSequence p = w_nextSeq w"
      "EncodeRecord (writer_fields w txid rtype payload) = Inr enc"
      "sg_Size ops (w_seg w) + int (length enc) \<le> int MaxJournalSegmentBytes"
      "snd (sg_Append ops (w_seg w) enc) = None" "DecodeRecord enc = Inr (rec, n)"
      "w' = w\<lparr>w_seg := fst (sg_Sync ops (fst (sg_Append ops (w_seg w) enc))),
             w_prevCommitment := r_RecordCommitment rec, w_nextSeq := w_nextSeq w + 1\<rparr>" "res = Inr rec"
proof (cases "\<exists>p enc. \<not> w_closed w \<and> \<not> (sg_Size ops (w_seg w) > 0 \<and> w_nextSeq w = 1) \<and>
    ReadPrefix ops (w_seg w) = Inr p \<and> \<not> p_Torn p \<and> p_NextSequence p = w_nextSeq w \<and>
    EncodeRecord (writer_fields w txid rtype payload) = Inr enc \<and>
    \<not> sg_Size ops (w_seg w) + int (length enc) > int MaxJournalSegmentBytes")
  case False
  with assms show ?thesis
    by (intro refused [of "projl res"])
      (auto simp: WriterAppend_def Let_def writer_fields_def split: if_splits sum.splits)
next
  case True
  then obtain p enc where g: "\<not> w_closed w" "\<not> (sg_Size ops (w_seg w) > 0 \<and> w_nextSeq w = 1)"
    "ReadPrefix ops (w_seg w) = Inr p" "\<not> p_Torn p" "p_NextSequence p = w_nextSeq w"
    "EncodeRecord (writer_fields w txid rtype payload) = Inr enc"
    "\<not> sg_Size ops (w_seg w) + int (length enc) > int MaxJournalSegmentBytes"
    by blast
  obtain seg1 aerr seg2 serr where io: "sg_Append ops (w_seg w) enc = (seg1, aerr)" "sg_Sync ops seg1 = (seg2, serr)"
    by fastforce
  show ?thesis
  proof (cases "aerr = None \<and> serr = None \<and> \<not> isl (DecodeRecord enc)")
    case True
    then obtain rec n where "DecodeRecord enc = Inr (rec, n)"
      by (metis surj_pair sum.collapse(2))
    with True g io assms stored [OF g(3-6)] show ?thesis
      by (auto simp: WriterAppend_def Let_def writer_fields_def)
  next
    case False
    with g io assms failed [OF g(3-6), of "w_seg w'" "projl res"] show ?thesis
      by (auto simp: WriterAppend_def Let_def writer_fields_def split: option.splits sum.splits)
  qed
qed

lemma scan_head_length:
  assumes "scan 1 zero_digest data = (rs, st)"
  shows "length (scan_head zero_digest rs) = 32"
proof -
  have "rs = map record_of (map fields_of rs)"
    using scan_sound [OF assms] by blast
  then show ?thesis
    by (simp add: scan_head_fields zero_digest_def record_commitment_def DigestSize_def)
qed

text \<open>A journal cannot hold so many records that the 64-bit sequence number wraps.\<close>

lemma chained_bound: "chained e prev fs \<Longrightarrow> unat e + length fs \<le> 2 ^ 64"
proof (induction fs arbitrary: e prev)
  case Nil
  then show ?case
    using unsigned_less [of e, where ?'a = nat] by simp
next
  case (Cons f fs)
  show ?case
  proof (cases "e + 1 = 0")
    case True
    with Cons.prems have "fs = []"
      by (cases fs) (auto simp: encodable_def)
    then show ?thesis
      using unsigned_less [of e, where ?'a = nat] by simp
  next
    case False
    then have "unat (e + 1) = unat e + 1"
      using unatSuc [of e] by (simp add: add.commute)
    with Cons.IH [of "e + 1" "record_commitment f"] Cons.prems show ?thesis
      by simp
  qed
qed

lemma scan_no_wrap:
  assumes "scan 1 zero_digest data = (rs, st)" and "1 + of_nat (length rs) = (1 :: u64)"
  shows "rs = []"
proof -
  have "length rs < 2 ^ 64"
    using scan_sound [OF assms(1)] chained_bound [of 1 zero_digest "map fields_of rs"] by simp
  then have "unat (of_nat (length rs) :: u64) = length rs"
    by (simp add: unat_of_nat_small)
  with assms(2) show ?thesis
    by simp
qed

context segment
begin

definition writer_ok :: "'s journal_writer \<Rightarrow> bool" where
  "writer_ok w \<longleftrightarrow> ok (w_seg w) \<and> writer_view (contents (w_seg w)) (w_nextSeq w) (w_prevCommitment w)"

lemma OpenWriter_ok:
  assumes "ok s" and "OpenWriter ops s = Inr (w, p)" and res: "read_result (contents s) = Inr p"
  shows "writer_ok w" and "w_seg w = s" and "w_nextSeq w = p_NextSequence p"
proof -
  have w: "w_seg w = s" "w_nextSeq w = p_NextSequence p"
    "w_prevCommitment w = (if p_NextSequence p = 1 then GenesisCommitment else p_HeadCommitment p)"
    using assms(2) by (auto simp: OpenWriter_def Let_def split: sum.splits if_splits)
  then show "w_seg w = s" "w_nextSeq w = p_NextSequence p"
    by simp_all
  obtain rs st where sc: "scan 1 zero_digest (contents s) = (rs, st)" "stop_clean st" "prefix_shows p rs (st \<noteq> ScanEnd)"
    using res by (rule read_result_Inr)
  have "scan_head zero_digest rs = zero_digest" if "p_NextSequence p = 1"
    using that sc(3) scan_no_wrap [OF sc(1)] by (simp add: prefix_shows_def scan_head_def)
  with sc w assms(1) scan_head_length [OF sc(1)] show "writer_ok w"
    by (auto simp: writer_ok_def writer_view_def prefix_shows_def zero_digest_genesis zero_digest_def DigestSize_def)
qed

text \<open>An opened writer: what the reader said is there, unless a failing read made it see a torn tail.\<close>

lemma OpenWriter_reads:
  assumes "ok s" and "OpenWriter ops s = Inr (w, p)" and "p_Torn p \<longrightarrow> read_result (contents s) = Inr p"
  shows "read_result (contents s) = Inr p"
proof -
  have "ReadPrefix ops s = Inr p"
    using assms(2) by (auto simp: OpenWriter_def Let_def split: sum.splits)
  with assms ReadPrefix_untorn show ?thesis
    by blast
qed

lemma ok_read_result:
  assumes "writer_ok w"
  obtains p rs st where "scan 1 zero_digest (contents (w_seg w)) = (rs, st)" "stop_clean st"
    "read_result (contents (w_seg w)) = Inr p" "prefix_shows p rs (st \<noteq> ScanEnd)"
proof -
  from assms obtain rs st where "scan 1 zero_digest (contents (w_seg w)) = (rs, st)" "stop_clean st"
    by (auto simp: writer_ok_def writer_view_def)
  with that read_result_clean show ?thesis
    by metis
qed

lemma Append_attempt:
  assumes w: "writer_ok w" and tx: "length txid = 16" and sc: "scan 1 zero_digest (contents (w_seg w)) = (rs, st)"
    and p: "ReadPrefix ops (w_seg w) = Inr p" "\<not> p_Torn p" "p_NextSequence p = w_nextSeq w"
    and enc: "EncodeRecord f = Inr enc" and f: "f = writer_fields w txid rtype payload"
  shows "st = ScanEnd" and "w_nextSeq w = 1 + of_nat (length rs)" and "enc = record_bytes f"
    and "next_record (w_nextSeq w) (scan_head zero_digest rs) f"
    and "scan 1 zero_digest (contents (w_seg w) @ take k enc) =
      (case scan (w_nextSeq w) (scan_head zero_digest rs) (take k (record_bytes f)) of (rs', st') \<Rightarrow> (rs @ rs', st'))"
proof -
  have ok: "ok (w_seg w)" and view: "writer_view (contents (w_seg w)) (w_nextSeq w) (w_prevCommitment w)"
    using w by (simp_all add: writer_ok_def)
  have "stop_clean st"
    using view sc by (auto simp: writer_view_def)
  then have "prefix_shows p rs (st \<noteq> ScanEnd)"
    using ReadPrefix_untorn [OF ok p(1,2)] read_result_clean [OF sc] by (metis sum.inject(2))
  with p view sc have r: "st = ScanEnd" "w_nextSeq w = 1 + of_nat (length rs)"
    "w_prevCommitment w = scan_head zero_digest rs" "length (w_prevCommitment w) = 32"
    by (auto simp: prefix_shows_def writer_view_def)
  have "wf_fields f"
    using r(4) tx by (simp add: wf_fields_def f writer_fields_def)
  with r enc show e: "st = ScanEnd" "w_nextSeq w = 1 + of_nat (length rs)" "enc = record_bytes f"
    "next_record (w_nextSeq w) (scan_head zero_digest rs) f"
    by (simp_all add: EncodeRecord_Inr_iff next_record_def) (simp_all add: f writer_fields_def)
  show "scan 1 zero_digest (contents (w_seg w) @ take k enc) =
      (case scan (w_nextSeq w) (scan_head zero_digest rs) (take k (record_bytes f)) of (rs', st') \<Rightarrow> (rs @ rs', st'))"
    using scan_append [of 1 zero_digest "contents (w_seg w)" rs] sc e by simp
qed

lemma Append_scan:
  assumes w: "writer_ok w" and tx: "length txid = 16" and app: "WriterAppend ops w txid rtype payload = (w', res)"
    and sc: "scan 1 zero_digest (contents (w_seg w)) = (rs, st)"
  defines "f \<equiv> writer_fields w txid rtype payload"
  shows "writer_ok w' \<and>
    (case res of
       Inr rec \<Rightarrow> rec = record_of f \<and> st = ScanEnd \<and>
         scan 1 zero_digest (contents (w_seg w')) = (rs @ [rec], ScanEnd) \<and>
         length (contents (w_seg w')) \<le> MaxJournalSegmentBytes
     | Inl e \<Rightarrow> contents (w_seg w') = contents (w_seg w) \<or>
         st = ScanEnd \<and> (\<exists>st'. stop_clean st' \<and>
           (scan 1 zero_digest (contents (w_seg w')) = (rs, st') \<or>
            scan 1 zero_digest (contents (w_seg w')) = (rs @ [record_of f], st'))))"
proof -
  have ok: "ok (w_seg w)" and view: "writer_view (contents (w_seg w)) (w_nextSeq w) (w_prevCommitment w)"
    using w by (simp_all add: writer_ok_def)
  from app show ?thesis
  proof (cases rule: WriterAppend_cases)
    case refused
    then show ?thesis
      using w by simp
  next
    case (failed p enc seg e)
    note a = Append_attempt [OF w tx sc failed(1-3) failed(4) [folded f_def] meta_eq_to_obj_eq [OF f_def]]
    have "ok seg" "\<exists>k. contents seg = contents (w_seg w) @ take k enc"
      using failed(6) append_ok [OF ok] append_law [OF ok] sync_ok sync_law by metis+
    then obtain k where k: "contents seg = contents (w_seg w) @ take k enc"
      by blast
    note g = a(5) [of k, unfolded scan_partial [OF a(4)]]
    show ?thesis
      using a(1,2) failed(7,8) \<open>ok seg\<close> view g k
      by (auto simp: writer_ok_def writer_view_def split: if_splits)
  next
    case (stored p enc rec n)
    note a = Append_attempt [OF w tx sc stored(1-3) stored(4) [folded f_def] meta_eq_to_obj_eq [OF f_def]]
    let ?s = "fst (sg_Sync ops (fst (sg_Append ops (w_seg w) enc)))"
    have s: "ok ?s" "contents ?s = contents (w_seg w) @ take (length enc) enc"
      using append_ok [OF ok] append_all [OF ok stored(6)] sync_ok sync_law by simp_all
    have rec: "rec = record_of f"
      using a(4) DecodeRecord_record_bytes [of f "[]"] stored(7) by (simp add: next_record_def a(3))
    have "scan 1 zero_digest (contents ?s) = (rs @ [rec], ScanEnd)"
      unfolding s(2) a(5) scan_partial [OF a(4)] by (simp add: rec a(3))
    moreover have "length (record_commitment f) = 32"
      by (simp add: record_commitment_def DigestSize_def)
    ultimately show ?thesis
      using a(1,2) stored(5,8,9) s rec size_law [OF ok]
      by (auto simp: writer_ok_def writer_view_def scan_head_def)
  qed
qed

text \<open>The contract of \<open>Append\<close> in terms of what a reader sees afterwards.\<close>

lemma Append_recoverable:
  assumes writer_ok: "writer_ok w" and tx: "length txid = 16" and app: "WriterAppend ops w txid rtype payload = (w', res)"
    and p: "read_result (contents (w_seg w)) = Inr p"
  shows "writer_ok w' \<and> (\<exists>p'. read_result (contents (w_seg w')) = Inr p' \<and>
    (case res of
       Inr rec \<Rightarrow> \<not> p_Torn p \<and> \<not> p_Torn p' \<and> p_Records p' = p_Records p @ [rec] \<and>
         fields_of rec = writer_fields w txid rtype payload \<and> p_Bytes p' \<le> int MaxJournalSegmentBytes
     | Inl e \<Rightarrow> p' = p \<or> \<not> p_Torn p \<and> (p_Records p' = p_Records p \<or>
         (\<exists>rec. p_Records p' = p_Records p @ [rec] \<and> fields_of rec = writer_fields w txid rtype payload))))"
proof -
  obtain rs st where sc: "scan 1 zero_digest (contents (w_seg w)) = (rs, st)" "prefix_shows p rs (st \<noteq> ScanEnd)"
    using ok_read_result [OF writer_ok] p by (metis sum.inject(2))
  note A = Append_scan [OF writer_ok tx app sc(1)]
  then have writer_ok': "writer_ok w'"
    by blast
  obtain p' rs' st' where sc': "scan 1 zero_digest (contents (w_seg w')) = (rs', st')"
    "read_result (contents (w_seg w')) = Inr p'" "prefix_shows p' rs' (st' \<noteq> ScanEnd)"
    using ok_read_result [OF writer_ok'] by metis
  have same: "p' = p" if "contents (w_seg w') = contents (w_seg w)"
    using that p sc'(2) by simp
  have fields: "fields_of (record_of f) = f" for f
    by (simp add: fields_of_def)
  show ?thesis
  proof (cases res)
    case (Inr rec)
    have "recs_len rs' \<le> length (contents (w_seg w'))"
      using scan_sound [OF sc'(1)] by linarith
    with A Inr sc sc' writer_ok' show ?thesis
      by (auto simp: prefix_shows_def fields)
  next
    case (Inl e)
    with A sc sc' same writer_ok' fields show ?thesis
      by (auto simp: prefix_shows_def)
  qed
qed

text \<open>A call only ever adds bytes after the visible ones.\<close>

lemma Append_grows:
  assumes "ok (w_seg w)" and "WriterAppend ops w txid rtype payload = (w', res)"
  shows "\<exists>x. contents (w_seg w') = contents (w_seg w) @ x"
  using assms(2)
proof (cases rule: WriterAppend_cases)
  case refused
  then show ?thesis
    by simp
next
  case (failed p enc seg e)
  have "\<exists>k. contents seg = contents (w_seg w) @ take k enc"
    using failed(6) append_ok [OF assms(1)] append_law [OF assms(1)] sync_ok sync_law by metis
  then show ?thesis
    using failed(7) by auto
next
  case (stored p enc rec n)
  then show ?thesis
    using append_ok [OF assms(1)] append_all [OF assms(1) stored(6)] sync_law by simp
qed

end

subsection \<open>The segments meet the contract\<close>

lemma read_law_exact:
  "fst r = got \<Longrightarrow> r = (buf, err) \<Longrightarrow> (\<exists>j. buf = take j got) \<and> (err = None \<or> err = Some EOF \<longrightarrow> buf = got)"
  by (auto intro: exI [of _ "length got"])

lemma mem_ReadAt_law:
  "k + n \<le> length (m_buf s) \<Longrightarrow> fst (MemReadAt s n (int k)) = take n (drop k (m_buf s))"
  by (auto simp: MemReadAt_def Let_def)

interpretation mem_seg: exact_segment mem_ops m_buf "\<lambda>_. True"
proof
  fix s :: mem_segment and k n buf err
  assume "k + n \<le> length (m_buf s)" and "sg_ReadAt mem_ops s n (int k) = (buf, err)"
  then show "(\<exists>j. buf = take j (take n (drop k (m_buf s)))) \<and> (err = None \<or> err = Some EOF \<longrightarrow> buf = take n (drop k (m_buf s)))"
    using read_law_exact [OF mem_ReadAt_law] by (simp add: mem_ops_def)
qed (auto simp: mem_ops_def MemSize_def mem_ReadAt_law MemAppend_def MemSync_def
      intro: exI [of _ "length _"] take_all [symmetric])

definition file_visible :: "file_segment \<Rightarrow> bytes" where
  "file_visible s = take (nat (fs_size s)) (fs_file s)"

definition file_ok :: "file_segment \<Rightarrow> bool" where
  "file_ok s \<longleftrightarrow> 0 \<le> fs_size s \<and> fs_size s \<le> int (length (fs_file s))"

lemma FileAppend_law:
  assumes "file_ok s"
  shows "file_ok (fst (FileAppend wr s p))"
    and "snd (FileAppend wr s p) = None \<Longrightarrow> file_visible (fst (FileAppend wr s p)) = file_visible s @ p"
    and "snd (FileAppend wr s p) \<noteq> None \<Longrightarrow> file_visible (fst (FileAppend wr s p)) = file_visible s"
proof -
  obtain n err where wr: "wr (fs_file s) p = (n, err)"
    by fastforce
  obtain k where k: "fs_size s = int k" "k \<le> length (fs_file s)"
    using assms by (metis file_ok_def nonneg_int_cases of_nat_le_iff)
  have w: "take k (writeAt (fs_file s) q k) = take k (fs_file s)"
    "take (k + length q) (writeAt (fs_file s) q k) = take k (fs_file s) @ q"
    "k + length q \<le> length (writeAt (fs_file s) q k)" for q
    using k(2) by (simp_all add: writeAt_def)
  show "file_ok (fst (FileAppend wr s p))"
    "snd (FileAppend wr s p) = None \<Longrightarrow> file_visible (fst (FileAppend wr s p)) = file_visible s @ p"
    "snd (FileAppend wr s p) \<noteq> None \<Longrightarrow> file_visible (fst (FileAppend wr s p)) = file_visible s"
    using w [of "take n p"] w [of p] k(2)
    by (auto simp: FileAppend_def wr Let_def file_ok_def file_visible_def k(1) nat_add_distrib split: option.splits if_splits)
qed

lemma file_Size_law: "file_ok s \<Longrightarrow> FileSize s = int (length (file_visible s))"
  by (auto simp: FileSize_def file_ok_def file_visible_def)

definition no_read_fault :: read_fault where
  "no_read_fault file plen off = None"

lemma file_ReadAt_law:
  assumes "file_ok s" and "k + n \<le> length (file_visible s)" and "FileReadAt rd s n (int k) = (buf, err)"
  shows "(\<exists>j. buf = take j (take n (drop k (file_visible s)))) \<and>
    (err = None \<or> err = Some EOF \<longrightarrow> buf = take n (drop k (file_visible s)))"
    and "rd = no_read_fault \<Longrightarrow> buf = take n (drop k (file_visible s))"
proof -
  define got where "got = take n (drop k (file_visible s))"
  have "n \<le> nat (fs_size s) - k"
    using assms by (auto simp: file_visible_def)
  then have g: "take n (drop (nat (int k)) (fs_file s)) = got"
    by (simp add: got_def file_visible_def drop_take min_def)
  have "buf = got \<or> (\<exists>j e. buf = take j got \<and> err = Some (OtherIO e) \<and> rd \<noteq> no_read_fault)"
    using assms(3) unfolding FileReadAt_def Let_def g
    by (auto simp: no_read_fault_def split: option.splits if_splits)
  then show "(\<exists>j. buf = take j (take n (drop k (file_visible s)))) \<and>
      (err = None \<or> err = Some EOF \<longrightarrow> buf = take n (drop k (file_visible s)))"
    and "rd = no_read_fault \<Longrightarrow> buf = take n (drop k (file_visible s))"
    unfolding got_def [symmetric] by (auto intro: exI [of _ "length got"])
qed

lemma file_contract: "segment (file_ops rd wr syncFile) file_visible file_ok"
proof
  fix s :: file_segment and p :: bytes
  assume "file_ok s"
  note a = FileAppend_law [OF this, of wr p]
  then show "\<exists>k. file_visible (fst (sg_Append (file_ops rd wr syncFile) s p)) = file_visible s @ take k p"
    by (cases "snd (FileAppend wr s p)") (auto simp: file_ops_def intro: exI [of _ 0] exI [of _ "length p"])
next
  fix s :: file_segment and k n buf err
  assume "file_ok s" "k + n \<le> length (file_visible s)" "sg_ReadAt (file_ops rd wr syncFile) s n (int k) = (buf, err)"
  then show "(\<exists>j. buf = take j (take n (drop k (file_visible s)))) \<and>
      (err = None \<or> err = Some EOF \<longrightarrow> buf = take n (drop k (file_visible s)))"
    by (intro file_ReadAt_law(1)) (simp_all add: file_ops_def)
qed (simp_all add: file_ops_def FileAppend_law FileSync_def file_Size_law)

interpretation file_seg: segment "file_ops rd wr syncFile" file_visible file_ok for rd wr syncFile
  by (rule file_contract)

interpretation file_exact: exact_segment "file_ops no_read_fault wr syncFile" file_visible file_ok for wr syncFile
proof
  fix s :: file_segment and k n
  assume "file_ok s" "k + n \<le> length (file_visible s)"
  then show "fst (sg_ReadAt (file_ops no_read_fault wr syncFile) s n (int k)) = take n (drop k (file_visible s))"
    using file_ReadAt_law(2) [OF _ _ prod.collapse [symmetric], of s k n no_read_fault] by (simp add: file_ops_def)
qed

text \<open>Fault injection over a segment that meets the contract meets it again.\<close>

lemma armed_update [simp]: "armed (c\<lparr>cs_Inner := s\<rparr>) l = armed c l"
  by (simp add: armed_def)

lemma stopAt_simps [simp]:
  "\<not> armed c l \<Longrightarrow> stopAt c l = (c, None)"
  "cs_Inner (fst (stopAt c l)) = cs_Inner c" "snd (stopAt c l) = None \<longleftrightarrow> \<not> armed c l"
  by (auto simp: stopAt_def Let_def)

lemma stopAt_eqD: "stopAt c l = (c', err) \<Longrightarrow> cs_Inner c' = cs_Inner c \<and> (err = None \<longleftrightarrow> \<not> armed c l)"
  using stopAt_simps(2,3) [of c l] by simp

lemma CrashSync_inner: "cs_Inner (fst (CrashSync syncDir inner c)) = fst (sg_Sync inner (cs_Inner c))"
  by (auto simp: CrashSync_def Let_def split: prod.split option.split)

lemma CrashAppend_cases:
  assumes "CrashAppend inner c p = (c', err)"
  obtains (untouched) "cs_Inner c' = cs_Inner c" "err \<noteq> None"
  | (half) "cs_Inner c' = fst (sg_Append inner (cs_Inner c) (take (max 1 (length p div 2)) p))" "err \<noteq> None"
  | (full) "cs_Inner c' = fst (sg_Append inner (cs_Inner c) p)" "err = snd (sg_Append inner (cs_Inner c) p)"
proof (cases "armed c CrashJAppendPre")
  case True
  then obtain e c1 where "stopAt c CrashJAppendPre = (c1, Some e)" "cs_Inner c1 = cs_Inner c"
    using stopAt_simps(2,3) [of c CrashJAppendPre] by (metis fst_conv not_None_eq prod.collapse snd_conv)
  with assms show ?thesis
    by (intro untouched) (auto simp: CrashAppend_def)
next
  case pre: False
  show ?thesis
  proof (cases "armed c CrashJAppendMid")
    case False
    with pre assms show ?thesis
      by (intro full) (auto simp: CrashAppend_def split: prod.splits)
  next
    case True
    let ?q = "take (max 1 (length p div 2)) p"
    let ?s = "if p = [] then cs_Inner c else fst (sg_Append inner (cs_Inner c) ?q)"
    have n: "(if length p div 2 < 1 \<and> length p > 0 then 1 else length p div 2) = (if p = [] then 0 else max 1 (length p div 2))"
      by (cases p) auto
    have "err \<noteq> None \<and> cs_Inner c' = ?s"
      using assms pre True n
      by (auto simp: CrashAppend_def Let_def dest!: stopAt_eqD split: prod.splits option.splits if_splits)
    then show ?thesis
      using untouched half by (cases "p = []") auto
  qed
qed

lemma crash_contract:
  assumes "segment inner contents ok"
  shows "segment (crash_ops syncDir inner) (\<lambda>c. contents (cs_Inner c)) (\<lambda>c. ok (cs_Inner c))"
proof -
  note law = segment.size_law [OF assms] segment.append_ok [OF assms]
    segment.append_all [OF assms] segment.sync_ok [OF assms] segment.sync_law [OF assms]
  have app: "ok (cs_Inner c') \<and> (\<exists>k. contents (cs_Inner c') = contents (cs_Inner c) @ take k p) \<and>
      (err = None \<longrightarrow> contents (cs_Inner c') = contents (cs_Inner c) @ p)"
    if okc: "ok (cs_Inner c)" and app: "CrashAppend inner c p = (c', err)" for c p c' err
    using app
  proof (cases rule: CrashAppend_cases)
    case untouched
    then show ?thesis
      using okc by (auto intro: exI [of _ 0])
  next
    case half
    obtain k where "contents (cs_Inner c') = contents (cs_Inner c) @ take k (take (max 1 (length p div 2)) p)"
      using half(1) segment.append_law [OF assms okc] by metis
    then show ?thesis
      using half okc law(2) by (auto simp: take_take)
  next
    case full
    then show ?thesis
      using okc segment.append_law [OF assms okc] law(2,3) by auto
  qed
  show ?thesis
  proof
    fix c k n buf err
    assume "ok (cs_Inner c)" "k + n \<le> length (contents (cs_Inner c))" "sg_ReadAt (crash_ops syncDir inner) c n (int k) = (buf, err)"
    then show "(\<exists>j. buf = take j (take n (drop k (contents (cs_Inner c))))) \<and>
        (err = None \<or> err = Some EOF \<longrightarrow> buf = take n (drop k (contents (cs_Inner c))))"
      by (intro segment.read_law [OF assms]) (simp_all add: crash_ops_def)
  qed (simp_all add: crash_ops_def CrashSync_inner law app [OF _ prod.collapse [symmetric]])
qed

lemma crash_contract_exact:
  assumes "exact_segment inner contents ok"
  shows "exact_segment (crash_ops syncDir inner) (\<lambda>c. contents (cs_Inner c)) (\<lambda>c. ok (cs_Inner c))"
proof -
  note seg = exact_segment.axioms(1) [OF assms]
  show ?thesis
    by (rule exact_segment.intro [OF crash_contract [OF seg]])
      (simp add: exact_segment_axioms_def crash_ops_def exact_segment.read_exact [OF assms])
qed

interpretation crash_mem: exact_segment "crash_ops syncDir mem_ops" "\<lambda>c. m_buf (cs_Inner c)" "\<lambda>c. True" for syncDir
  using crash_contract_exact [OF mem_seg.exact_segment_axioms] .

interpretation crash_file: segment "crash_ops syncDir (file_ops rd wr syncFile)"
    "\<lambda>c. file_visible (cs_Inner c)" "\<lambda>c. file_ok (cs_Inner c)" for syncDir rd wr syncFile
  using crash_contract [OF file_contract] .

interpretation crash_file_exact: exact_segment "crash_ops syncDir (file_ops no_read_fault wr syncFile)"
    "\<lambda>c. file_visible (cs_Inner c)" "\<lambda>c. file_ok (cs_Inner c)" for syncDir wr syncFile
  using crash_contract_exact [OF file_exact.exact_segment_axioms] .


subsection \<open>The life of a writer\<close>

text \<open>
  One call on a writer, whatever its arguments and its outcome.  The segment's methods are taken
  from a set, so that every call may meet faults of its own.
\<close>

inductive writer_step :: "'s segment_ops set \<Rightarrow> 's journal_writer \<Rightarrow> 's journal_writer \<Rightarrow> bool" for Ops where
  step_append: "ops \<in> Ops \<Longrightarrow> length txid = 16 \<Longrightarrow> WriterAppend ops w txid rtype payload = (w', res) \<Longrightarrow>
    writer_step Ops w w'"
| step_close: "writer_step Ops w (WriterClose w)"

inductive_simps writer_step_simps: "writer_step Ops w w'"

context segment
begin

text \<open>Relative to the bytes and records at the start, later ones only come after them.\<close>

definition extends :: "bytes \<Rightarrow> journal_record list \<Rightarrow> 's journal_writer \<Rightarrow> bool" where
  "extends c0 rs0 w \<longleftrightarrow> writer_ok w \<and> (\<exists>x. contents (w_seg w) = c0 @ x) \<and>
     (\<exists>rs st. scan 1 zero_digest (contents (w_seg w)) = (rs0 @ rs, st))"

lemma append_extends:
  assumes "extends c0 rs0 w" and "length txid = 16" and "WriterAppend ops w txid rtype payload = (w', res)"
  shows "extends c0 rs0 w'"
proof -
  from assms(1) obtain rs st where w: "writer_ok w" and sc: "scan 1 zero_digest (contents (w_seg w)) = (rs0 @ rs, st)"
    by (auto simp: extends_def)
  have "\<exists>x. contents (w_seg w') = contents (w_seg w) @ x"
    using w by (intro Append_grows [OF _ assms(3)]) (simp add: writer_ok_def)
  with Append_scan [OF w assms(2,3) sc] sc assms(1) show ?thesis
    by (cases res) (auto simp: extends_def)
qed

lemma close_extends: "extends c0 rs0 w \<Longrightarrow> extends c0 rs0 (WriterClose w)"
  by (simp add: extends_def writer_ok_def WriterClose_def)

lemma open_extends:
  assumes "ok s" and "OpenWriter ops s = Inr (w, p)" and "p_Torn p \<longrightarrow> read_result (contents s) = Inr p"
  shows "extends (contents s) (p_Records p) w"
proof -
  note res = OpenWriter_reads [OF assms]
  note opened = OpenWriter_ok [OF assms(1,2) res]
  obtain rs st where "scan 1 zero_digest (contents s) = (rs, st)" "p_Records p = rs"
    using res by (rule read_result_Inr) (simp add: prefix_shows_def)
  with opened show ?thesis
    by (simp add: extends_def)
qed

end

text \<open>The file behind the fault injection, with any faults.\<close>

definition faulty_ops :: "file_segment crash_segment segment_ops set" where
  "faulty_ops = {crash_ops syncDir (file_ops rd wr syncFile) | syncDir rd wr syncFile. True}"

lemma run_extends:
  assumes "(writer_step faulty_ops)\<^sup>*\<^sup>* w0 w" and "crash_file.extends c0 rs0 w0"
  shows "crash_file.extends c0 rs0 w"
  using assms
proof (induction rule: rtranclp_induct)
  case (step v u)
  from step(2) show ?case
  proof (cases rule: writer_step.cases)
    case (step_append ops txid rtype payload res)
    then obtain syncDir rd wr syncFile where "ops = crash_ops syncDir (file_ops rd wr syncFile)"
      by (auto simp: faulty_ops_def)
    with step_append(2,3) step(3) assms(2) show ?thesis
      using crash_file.append_extends by blast
  next
    case step_close
    with step(3) assms(2) show ?thesis
      using crash_file.close_extends by blast
  qed
qed

text \<open>Bytes after a journal never hide a record of it from a scan.\<close>

lemma scan_more:
  assumes "scan 1 zero_digest data = (rs, st)"
  shows "\<exists>rs' st'. scan 1 zero_digest (data @ x) = (rs @ rs', st')"
proof -
  obtain rest where "chained 1 zero_digest (map fields_of rs)" "rs = map record_of (map fields_of rs)"
    "data = concat (map record_bytes (map fields_of rs)) @ rest"
    using scan_sound [OF assms] by blast
  then show ?thesis
    using scan_chained [of 1 zero_digest "map fields_of rs" "rest @ x"] by (simp split: prod.splits)
qed

lemma read_result_keeps:
  assumes "scan 1 zero_digest data = (rs @ rs', st)"
  shows "case read_result data of Inr q \<Rightarrow> \<exists>rs'. p_Records q = rs @ rs' | Inl e \<Rightarrow> int (recs_len rs) \<le> je_Offset e"
proof -
  have "recs_len (rs @ rs') = recs_len rs + recs_len rs'"
    by (simp add: recs_len_def)
  then show ?thesis
    using assms by (cases st) (simp_all add: read_result_def read_stop_def fatal_def zero_prefix_def)
qed

subsection \<open>What is proved of the journal\<close>

lemma p_Quarantine_foldl_accept [simp]: "p_Quarantine (foldl accept out rs) = p_Quarantine out"
  by (induction rs arbitrary: out) (simp_all add: accept_def)

lemma read_result_explicit:
  assumes "scan 1 zero_digest data = (rs, st)" and "stop_clean st"
  shows "read_result data = Inr \<lparr>p_Records = rs, p_Bytes = int (recs_len rs), p_HeadCommitment = scan_head zero_digest rs,
    p_NextSequence = 1 + of_nat (length rs), p_Torn = (st \<noteq> ScanEnd),
    p_TornOffset = (if st = ScanEnd then 0 else int (recs_len rs)),
    p_Quarantine = (if st = ScanEnd then [] else take MaxRecordBytes (drop (recs_len rs) data))\<rparr>"
proof -
  have "foldl accept (zero_prefix\<lparr>p_NextSequence := 1\<rparr>) rs =
    \<lparr>p_Records = rs, p_Bytes = int (recs_len rs), p_HeadCommitment = scan_head zero_digest rs,
     p_NextSequence = 1 + of_nat (length rs), p_Torn = False, p_TornOffset = 0, p_Quarantine = []\<rparr>"
    using scan_next_sequence [OF assms(1)]
    by (intro journal_prefix.equality) (simp_all add: zero_prefix_def)
  with assms show ?thesis
    by (auto simp: read_result_def read_stop_def stop_clean_def)
qed

lemma ReadPrefixBytes_scan: "ReadPrefixBytes data = read_result data"
  using mem_seg.ReadPrefix_scan [of "\<lparr>m_buf = data\<rparr>"] by (simp add: ReadPrefixBytes_def)

text \<open>
  C6: the journal reader and the independently written verifier agree on every byte sequence.
  Where the reader accepts, the verifier reports no fatal error and the same record count,
  accepted length, head commitment, next sequence number and torn-tail position; where the
  reader refuses, the verifier reports a fatal error at the same offset.
\<close>

theorem reader_verifier_agree:
  "case ReadPrefixBytes data of
     Inr p \<Rightarrow> \<not> v_Fatal (VerifyBytes data) \<and> v_RecordCount (VerifyBytes data) = length (p_Records p) \<and>
       v_Bytes (VerifyBytes data) = p_Bytes p \<and> v_HeadCommitment (VerifyBytes data) = p_HeadCommitment p \<and>
       v_NextSequence (VerifyBytes data) = p_NextSequence p \<and> v_Torn (VerifyBytes data) = p_Torn p \<and>
       v_TornOffset (VerifyBytes data) = p_TornOffset p
   | Inl e \<Rightarrow> v_Fatal (VerifyBytes data) \<and> v_FatalOffset (VerifyBytes data) = je_Offset e \<and> je_Kind e = KindFatal"
proof -
  obtain rs st where sc: "scan 1 zero_digest data = (rs, st)"
    by fastforce
  let ?p = "foldl accept (zero_prefix\<lparr>p_NextSequence := 1\<rparr>) rs" and ?v = "foldl verify_accept verify_init rs"
  have h: "same_head ?p ?v \<and> v_Fatal ?v = False"
    by (rule same_head_foldl) (simp_all add: same_head_def verify_init_def zero_prefix_def)
  show ?thesis
    using h unfolding ReadPrefixBytes_scan VerifyBytes_scan read_result_def sc same_head_def
    by (cases st) (auto simp: read_stop_def verify_stop_def verify_fatal_def fatal_def)
qed

text \<open>
  C13: the reader accepts exactly the journals.  It returns a prefix if and only if the bytes are
  the concatenated canonical encodings of a hash chain of records, consecutively numbered from 1
  and starting at the genesis commitment, followed by nothing or by an incomplete record; and
  what it returns is then fully determined, the torn tail included.
\<close>

theorem reader_accepts_exactly_chains:
  "ReadPrefixBytes data = Inr p \<longleftrightarrow>
   (\<exists>fs tail. data = concat (map record_bytes fs) @ tail \<and> chained 1 GenesisCommitment fs \<and>
      (tail = [] \<or> (\<exists>e. DecodeRecord tail = Inl e \<and> AsKind e KindIncomplete)) \<and>
      p = \<lparr>p_Records = map record_of fs, p_Bytes = int (length data - length tail),
           p_HeadCommitment = (if fs = [] then zero_digest else record_commitment (last fs)),
           p_NextSequence = 1 + of_nat (length fs), p_Torn = (tail \<noteq> []),
           p_TornOffset = (if tail = [] then 0 else int (length data - length tail)),
           p_Quarantine = take MaxRecordBytes tail\<rparr>)" (is "?L \<longleftrightarrow> ?R")
proof
  assume ?L
  then obtain rs st where sc: "scan 1 zero_digest data = (rs, st)" "stop_clean st"
    unfolding ReadPrefixBytes_scan by (rule read_result_Inr)
  from scan_sound [OF sc(1)] obtain tail where s: "chained 1 zero_digest (map fields_of rs)"
    "rs = map record_of (map fields_of rs)" "data = concat (map record_bytes (map fields_of rs)) @ tail"
    "recs_len rs + length tail = length data" "st = ScanEnd \<longleftrightarrow> tail = []"
    "\<forall>err. st = ScanTorn err \<longrightarrow> DecodeRecord tail = Inl err \<and> ce_Kind err = KindIncomplete"
    by blast
  have len: "recs_len rs = length data - length tail" "drop (recs_len rs) data = tail"
    using s(3,4) by (auto simp: append_eq_conv_conj)
  show ?R
    using \<open>?L\<close> s read_result_explicit [OF sc] sc(2) len
    unfolding ReadPrefixBytes_scan zero_digest_genesis
    by (intro exI [of _ "map fields_of rs"] exI [of _ tail])
      (auto simp: scan_head_fields AsKind_def stop_clean_def)
next
  assume ?R
  then obtain fs tail where d: "data = concat (map record_bytes fs) @ tail" and ch: "chained 1 zero_digest fs"
    and t: "tail = [] \<or> (\<exists>e. DecodeRecord tail = Inl e \<and> AsKind e KindIncomplete)"
    and p: "p = \<lparr>p_Records = map record_of fs, p_Bytes = int (length data - length tail),
           p_HeadCommitment = (if fs = [] then zero_digest else record_commitment (last fs)),
           p_NextSequence = 1 + of_nat (length fs), p_Torn = (tail \<noteq> []),
           p_TornOffset = (if tail = [] then 0 else int (length data - length tail)),
           p_Quarantine = take MaxRecordBytes tail\<rparr>"
    unfolding zero_digest_genesis by blast
  have tl: "\<exists>st. scan e prev tail = ([], st) \<and> stop_clean st \<and> (st = ScanEnd \<longleftrightarrow> tail = [])" for e prev
    using t unfolding scan.simps [of e prev tail] by auto
  obtain st where st: "scan 1 zero_digest data = (map record_of fs, st)" "stop_clean st" "st = ScanEnd \<longleftrightarrow> tail = []"
    using tl [of "1 + of_nat (length fs)" "if fs = [] then zero_digest else record_commitment (last fs)"]
    unfolding d scan_chained [OF ch] by auto
  obtain rest where rest: "data = concat (map record_bytes (map fields_of (map record_of fs))) @ rest"
    "recs_len (map record_of fs) + length rest = length data"
    using scan_sound [OF st(1)] by blast
  have "map fields_of (map record_of fs) = fs"
    by (simp add: map_idI fields_of_def)
  with rest(1) d have "rest = tail"
    by (simp only: same_append_eq)
  with rest(2) have len: "recs_len (map record_of fs) = length data - length tail" "drop (recs_len (map record_of fs)) data = tail"
    using d by (auto simp: append_eq_conv_conj)
  show ?L
    unfolding ReadPrefixBytes_scan read_result_explicit [OF st(1,2)] p
    using st(3) len by (simp add: scan_head_def last_map)
qed

lemma fresh_writer:
  "OpenWriter ops s = Inr (w, p) \<Longrightarrow> w_seg w = s"
  by (auto simp: OpenWriter_def Let_def split: sum.splits if_splits)

text \<open>On a freshly opened file an append adds a prefix of its argument to the file itself.\<close>

lemma FileAppend_file:
  assumes "fs_size s = int (length (fs_file s))"
  shows "\<exists>k. fs_file (fst (FileAppend wr s p)) = fs_file s @ take k p"
    and "snd (FileAppend wr s p) = None \<Longrightarrow> fs_file (fst (FileAppend wr s p)) = fs_file s @ p"
proof -
  obtain n err where wr: "wr (fs_file s) p = (n, err)"
    by fastforce
  have "writeAt (fs_file s) q (length (fs_file s)) = fs_file s @ q" for q
    by (simp add: writeAt_def)
  with wr show "\<exists>k. fs_file (fst (FileAppend wr s p)) = fs_file s @ take k p"
    "snd (FileAppend wr s p) = None \<Longrightarrow> fs_file (fst (FileAppend wr s p)) = fs_file s @ p"
    by (auto simp: FileAppend_def Let_def assms intro: exI [of _ n] split: option.splits if_splits)
qed

lemma crash_FileAppend_file:
  assumes "fs_size (cs_Inner c) = int (length (fs_file (cs_Inner c)))"
    and "sg_Append (crash_ops syncDir (file_ops rd wr syncFile)) c p = (c', err)"
  shows "\<exists>k. fs_file (cs_Inner c') = fs_file (cs_Inner c) @ take k p \<and> (err = None \<longrightarrow> take k p = p)"
proof -
  have "CrashAppend (file_ops rd wr syncFile) c p = (c', err)"
    using assms(2) by (simp add: crash_ops_def)
  then show ?thesis
  proof (cases rule: CrashAppend_cases)
    case untouched
    then show ?thesis
      by (auto intro: exI [of _ 0])
  next
    case half
    then show ?thesis
      using FileAppend_file(1) [OF assms(1), of wr "take (max 1 (length p div 2)) p"]
      by (auto simp: file_ops_def take_take)
  next
    case full
    then show ?thesis
      using FileAppend_file [OF assms(1), of wr p]
      by (cases err) (auto simp: file_ops_def intro: exI [of _ "length p"])
  qed
qed

lemma crash_sync_file: "fs_file (cs_Inner (fst (sg_Sync (crash_ops syncDir (file_ops rd wr syncFile)) c))) = fs_file (cs_Inner c)"
  by (simp add: crash_ops_def CrashSync_inner file_ops_def FileSync_def)

text \<open>
  C5: crash consistency of one append.  A journal file is opened and one record appended through
  the fault-injecting segment, whatever label is armed, whatever reads fail, however many bytes
  the write reaches and whatever the durability barriers return; if the opening reports a torn
  tail it is one of the file and not the effect of a failed read.  Reopening the file that is then on disk reads a valid
  journal: with the old records only, or with exactly the one new record after them; and with the
  new record, untorn, if the append reported success.
\<close>

theorem append_crash_consistent:
  assumes "cs_Inner c = OpenFileSegment file"
    and "OpenWriter (crash_ops syncDir0 (file_ops rd0 wr0 syncFile0)) c = Inr (w, p)"
    and "p_Torn p \<longrightarrow> ReadPrefixBytes file = Inr p"
    and "length txid = 16"
    and "WriterAppend (crash_ops syncDir (file_ops rd wr syncFile)) w txid rtype payload = (w', res)"
  shows "\<exists>p'. ReadPrefixBytes (fs_file (cs_Inner (w_seg w'))) = Inr p' \<and>
    (case res of
       Inr rec \<Rightarrow> \<not> p_Torn p' \<and> p_Records p' = p_Records p @ [rec]
     | Inl e \<Rightarrow> p_Records p' = p_Records p \<or>
         (\<exists>rec. p_Records p' = p_Records p @ [rec] \<and> r_TransactionID rec = txid \<and> r_Type rec = rtype \<and>
            r_Payload rec = payload))"
proof -
  let ?ops = "crash_ops syncDir (file_ops rd wr syncFile)"
  have ok: "file_ok (cs_Inner c)" and vis: "file_visible (cs_Inner c) = file" and fresh: "w_seg w = c"
    and size: "fs_size (cs_Inner c) = int (length (fs_file (cs_Inner c)))"
    using fresh_writer [OF assms(2)] by (simp_all add: assms(1) OpenFileSegment_def file_ok_def file_visible_def)
  have "p_Torn p \<longrightarrow> read_result (file_visible (cs_Inner c)) = Inr p"
    using assms(3) by (simp add: vis ReadPrefixBytes_scan)
  note res = crash_file.OpenWriter_reads [OF ok assms(2) this]
  note opened = crash_file.OpenWriter_ok [OF ok assms(2) res]
  obtain rs st where sc: "scan 1 zero_digest file = (rs, st)" "stop_clean st" "p_Records p = rs"
    using res unfolding vis by (rule read_result_Inr) (simp add: prefix_shows_def)
  have sc': "scan 1 zero_digest (file_visible (cs_Inner (w_seg w))) = (rs, st)"
    by (simp add: fresh vis sc(1))
  have disk: "fs_file (cs_Inner c) = file"
    by (simp add: assms(1) OpenFileSegment_def)
  from assms(5) show ?thesis
  proof (cases rule: WriterAppend_cases)
    case refused
    then show ?thesis
      using read_result_explicit [OF sc(1,2)] sc(3) by (simp add: fresh disk ReadPrefixBytes_scan)
  next
    case (failed p0 enc seg e)
    note a = crash_file.Append_attempt [OF opened(1) assms(4) sc' failed(1-4) refl, unfolded fresh vis]
    have "\<exists>k. fs_file (cs_Inner seg) = file @ take k enc"
      using crash_FileAppend_file [OF size prod.collapse [symmetric], of syncDir rd wr syncFile enc] failed(6) crash_sync_file
      by (metis disk fresh)
    then obtain k where k: "fs_file (cs_Inner seg) = file @ take k enc" ..
    note g = a(5) [of k, unfolded scan_partial [OF a(4)]]
    show ?thesis
      using g failed(7,8) k sc(3) read_result_explicit [of "file @ take k enc"]
      by (auto simp: ReadPrefixBytes_scan writer_fields_def split: if_splits)
  next
    case (stored p0 enc rec n)
    note a = crash_file.Append_attempt [OF opened(1) assms(4) sc' stored(1-4) refl, unfolded fresh vis]
    have f: "fs_file (cs_Inner (w_seg w')) = file @ take (length enc) enc"
      using crash_FileAppend_file [OF size prod.collapse [symmetric], of syncDir rd wr syncFile enc] stored(6,8) crash_sync_file
      by (auto simp: disk fresh)
    have "rec = record_of (writer_fields w txid rtype payload)"
      using a(4) DecodeRecord_record_bytes [of _ "[]"] stored(7) by (simp add: next_record_def a(3))
    with f a(5) [of "length enc", unfolded scan_partial [OF a(4)]] sc(3) stored(9)
      read_result_explicit [of "file @ take (length enc) enc"]
    show ?thesis
      by (simp add: ReadPrefixBytes_scan a(3))
  qed
qed

lemma OpenFileSegment_ok: "file_ok (OpenFileSegment b)" "file_visible (OpenFileSegment b) = b"
  by (simp_all add: OpenFileSegment_def file_ok_def file_visible_def)

definition sample_crash :: "file_segment crash_segment" where
  "sample_crash = \<lparr>cs_Inner = OpenFileSegment [], cs_FailAt = CrashJAppendMid, cs_KillAt = [], cs_Dir = [], cs_Hits = []\<rparr>"

definition good_write :: "bytes \<Rightarrow> bytes \<Rightarrow> nat \<times> io_error option" where
  "good_write file p = (length p, None)"

definition no_fault :: "'a \<Rightarrow> io_error option" where
  "no_fault x = None"

abbreviation sample_ops :: "file_segment crash_segment segment_ops" where
  "sample_ops \<equiv> crash_ops no_fault (file_ops no_read_fault good_write no_fault)"

definition sample_writer :: "file_segment crash_segment journal_writer" where
  "sample_writer = \<lparr>w_seg = sample_crash, w_nextSeq = 1, w_prevCommitment = GenesisCommitment, w_closed = False\<rparr>"

lemma sample_open: "OpenWriter sample_ops sample_crash = Inr (sample_writer, zero_prefix\<lparr>p_NextSequence := 1\<rparr>)"
  by (simp add: OpenWriter_def ReadPrefix_def crash_ops_def sample_crash_def file_ops_def FileSize_def OpenFileSegment_def
      sample_writer_def)

theorem append_crash_consistent_witness:
  "\<exists>w' res p'. WriterAppend sample_ops sample_writer (replicate 16 0) TypeObservation [1] = (w', res) \<and>
     ReadPrefixBytes (fs_file (cs_Inner (w_seg w'))) = Inr p' \<and> length (p_Records p') \<le> 1"
proof -
  obtain w' res where app: "WriterAppend sample_ops sample_writer (replicate 16 0) TypeObservation [1] = (w', res)"
    by fastforce
  have "cs_Inner sample_crash = OpenFileSegment []" "length (replicate 16 (0 :: byte)) = 16"
    by (simp_all add: sample_crash_def)
  from append_crash_consistent [OF this(1) sample_open _ this(2) app] app show ?thesis
    by (cases res) (auto simp: zero_prefix_def)
qed

text \<open>
  C14: the committed prefix is never lost or rewritten.  A journal file is opened, with a torn tail
  only if it has one, and then used by any sequence of append and close calls with any arguments
  and outcomes, each call meeting injected faults, failing reads, short writes and failing barriers
  of its own.  The writing process, which reads up to the size it has recorded, still reads a valid
  journal, with the records read at the start as a prefix.  On disk the bytes of the start are
  in place: a reader of the reopened file accepts the records of the start, and where it refuses
  the file, it does so at an offset behind them.  It may refuse it, since a failed write can leave bytes behind the
  recorded size.
\<close>

theorem writer_keeps_committed_prefix:
  assumes "file_ok (cs_Inner c)" and "ops \<in> faulty_ops"
    and "OpenWriter ops c = Inr (w0, p0)"
    and "p_Torn p0 \<longrightarrow> ReadPrefixBytes (file_visible (cs_Inner c)) = Inr p0"
    and "(writer_step faulty_ops)\<^sup>*\<^sup>* w0 w"
  shows "(\<exists>p. ReadPrefix (crash_ops syncDir (file_ops no_read_fault wr syncFile)) (w_seg w) = Inr p \<and>
      (\<exists>rs. p_Records p = p_Records p0 @ rs)) \<and>
    (\<exists>rest. fs_file (cs_Inner (w_seg w)) = file_visible (cs_Inner c) @ rest) \<and>
    (case ReadPrefixBytes (fs_file (cs_Inner (w_seg w))) of
       Inr p \<Rightarrow> \<exists>rs. p_Records p = p_Records p0 @ rs
     | Inl e \<Rightarrow> p_Bytes p0 \<le> je_Offset e)"
proof -
  let ?start = "file_visible (cs_Inner c)" and ?now = "file_visible (cs_Inner (w_seg w))" and ?disk = "fs_file (cs_Inner (w_seg w))"
  obtain syncDir0 rd0 wr0 syncFile0 where o: "OpenWriter (crash_ops syncDir0 (file_ops rd0 wr0 syncFile0)) c = Inr (w0, p0)"
    using assms(2,3) by (auto simp: faulty_ops_def)
  have torn: "p_Torn p0 \<longrightarrow> read_result ?start = Inr p0"
    using assms(4) by (simp add: ReadPrefixBytes_scan)
  note ext = run_extends [OF assms(5) crash_file.open_extends [OF assms(1) o torn]]
  then have wok: "crash_file.writer_ok w" and grow: "\<exists>x. ?now = ?start @ x"
    and sc: "\<exists>rs st. scan 1 zero_digest ?now = (p_Records p0 @ rs, st)"
    by (auto simp: crash_file.extends_def)
  have "\<exists>p. read_result ?now = Inr p \<and> (\<exists>rs. p_Records p = p_Records p0 @ rs)"
    using crash_file.ok_read_result [OF wok] sc by (metis prefix_shows_def prod.inject)
  then have inproc: "\<exists>p. ReadPrefix (crash_ops syncDir (file_ops no_read_fault wr syncFile)) (w_seg w) = Inr p \<and>
      (\<exists>rs. p_Records p = p_Records p0 @ rs)"
    using wok crash_file_exact.ReadPrefix_scan [of "w_seg w"] by (simp add: crash_file.writer_ok_def)
  have disk: "\<exists>rest. ?disk = ?start @ rest"
    using grow by (metis append.assoc append_take_drop_id file_visible_def)
  obtain rs0 st0 where rs0: "scan 1 zero_digest ?start = (rs0, st0)" "prefix_shows p0 rs0 (st0 \<noteq> ScanEnd)"
    using crash_file.OpenWriter_reads [OF assms(1) o torn] by (rule read_result_Inr)
  obtain rs' st' where "scan 1 zero_digest ?disk = (rs0 @ rs', st')"
    using disk scan_more [OF rs0(1)] by metis
  from read_result_keeps [OF this] rs0(2)
  have "case ReadPrefixBytes ?disk of Inr p \<Rightarrow> \<exists>rs. p_Records p = p_Records p0 @ rs | Inl e \<Rightarrow> p_Bytes p0 \<le> je_Offset e"
    by (simp add: ReadPrefixBytes_scan prefix_shows_def split: sum.splits)
  with inproc disk show ?thesis
    by blast
qed

lemma sample_ops_faulty: "sample_ops \<in> faulty_ops"
  by (auto simp: faulty_ops_def)

theorem writer_keeps_committed_prefix_witness:
  "\<exists>w. writer_step faulty_ops sample_writer w \<and> (\<exists>p. ReadPrefix sample_ops (w_seg (WriterClose w)) = Inr p)"
proof -
  obtain w res where "WriterAppend sample_ops sample_writer (replicate 16 0) TypeObservation [1] = (w, res)"
    by fastforce
  then have w: "writer_step faulty_ops sample_writer w"
    by (rule step_append [OF sample_ops_faulty, rotated]) simp
  then have run: "(writer_step faulty_ops)\<^sup>*\<^sup>* sample_writer (WriterClose w)"
    using step_close [of faulty_ops w] by (meson r_into_rtranclp rtranclp_trans)
  have ok: "file_ok (cs_Inner sample_crash)"
    by (simp add: sample_crash_def OpenFileSegment_def file_ok_def)
  have "p_Torn (zero_prefix\<lparr>p_NextSequence := 1\<rparr>) \<longrightarrow>
      ReadPrefixBytes (file_visible (cs_Inner sample_crash)) = Inr (zero_prefix\<lparr>p_NextSequence := 1\<rparr>)"
    by (simp add: zero_prefix_def)
  from writer_keeps_committed_prefix [OF ok sample_ops_faulty sample_open this run, of no_fault good_write no_fault] w
  show ?thesis
    by blast
qed

lemma chained_append: "chained e prev (fs @ gs) \<Longrightarrow> chained e prev fs"
  by (induction fs arbitrary: e prev) auto

lemma chained_prefix_scan:
  assumes "chained 1 zero_digest (map fields_of (rs @ rest))" and "rs @ rest = map record_of (map fields_of (rs @ rest))"
  shows "scan 1 zero_digest (concat (map record_bytes (map fields_of rs))) = (rs, ScanEnd) \<and>
    length (concat (map record_bytes (map fields_of rs))) = recs_len rs"
proof -
  have ch: "chained 1 zero_digest (map fields_of rs)"
    using assms(1) chained_append by (metis map_append)
  have rs: "map record_of (map fields_of rs) = rs"
    using assms(2) by (metis append_eq_append_conv length_map map_append)
  have sc: "scan 1 zero_digest (concat (map record_bytes (map fields_of rs))) = (rs, ScanEnd)"
    using scan_chained [OF ch, of "[]"] rs by (simp add: scan.simps [of _ _ "[]"])
  then show ?thesis
    using scan_sound [OF sc] by auto
qed

text \<open>The accepted bytes of a journal file, on their own.\<close>

definition repaired :: "journal_prefix \<Rightarrow> journal_prefix" where
  "repaired p = p\<lparr>p_Torn := False, p_TornOffset := 0, p_Quarantine := []\<rparr>"

lemma read_shows_repaired:
  assumes "\<not> p_Torn out" "p_TornOffset out = 0" "p_Quarantine out = []" and "read_shows out k sc p"
  shows "\<exists>rs rest st. sc = (rs @ rest, st) \<and> repaired p = foldl accept out rs \<and> p_Bytes p = p_Bytes out + int (recs_len rs)"
proof -
  obtain rs rest st where sc: "sc = (rs @ rest, st)" and
    p: "if p_Torn p
      then \<exists>q. p = (foldl accept out rs)\<lparr>p_Torn := True, p_TornOffset := int (k + recs_len rs), p_Quarantine := q\<rparr>
      else p = foldl accept out rs \<and> rest = [] \<and> st = ScanEnd"
    using assms(4) unfolding read_shows_def by blast
  have "repaired p = foldl accept out rs"
    using p assms(1-3) by (cases "p_Torn p") (auto simp: repaired_def intro!: journal_prefix.equality)
  moreover have "p_Bytes p = p_Bytes out + int (recs_len rs)"
    using p by (cases "p_Torn p") auto
  ultimately show ?thesis
    using sc by blast
qed

lemma accepted_bytes:
  assumes "file_ok s" and "read_shows (zero_prefix\<lparr>p_NextSequence := 1\<rparr>) 0 (scan 1 zero_digest (file_visible s)) p"
  shows "read_result (take (nat (p_Bytes p)) (fs_file s)) = Inr (repaired p)"
    and "0 \<le> p_Bytes p" and "nat (p_Bytes p) \<le> length (fs_file s)"
proof -
  let ?d = "file_visible s" and ?z = "zero_prefix\<lparr>p_NextSequence := 1\<rparr>"
  obtain rs rest st where sc: "scan 1 zero_digest ?d = (rs @ rest, st)" and p: "repaired p = foldl accept ?z rs"
    "p_Bytes p = int (recs_len rs)"
    using read_shows_repaired [OF _ _ _ assms(2)] by (auto simp: zero_prefix_def)
  obtain tl where tl: "chained 1 zero_digest (map fields_of (rs @ rest))" "rs @ rest = map record_of (map fields_of (rs @ rest))"
    "?d = concat (map record_bytes (map fields_of (rs @ rest))) @ tl" "recs_len (rs @ rest) + length tl = length ?d"
    using scan_sound [OF sc] by blast
  let ?c = "concat (map record_bytes (map fields_of rs))"
  have "scan 1 zero_digest ?c = (rs, ScanEnd)" and "length ?c = recs_len rs"
    using chained_prefix_scan [OF tl(1,2)] by blast+
  then have "take (recs_len rs) ?d = ?c"
    using tl(3) by simp
  have len: "recs_len rs \<le> nat (fs_size s)" "nat (fs_size s) \<le> length (fs_file s)"
    using tl(4) assms(1) by (auto simp: file_visible_def file_ok_def recs_len_def)
  then have "take (recs_len rs) (fs_file s) = ?c"
    using \<open>take (recs_len rs) ?d = ?c\<close> by (simp add: file_visible_def min_def)
  then show "read_result (take (nat (p_Bytes p)) (fs_file s)) = Inr (repaired p)"
    using \<open>scan 1 zero_digest ?c = (rs, ScanEnd)\<close> p by (simp add: read_result_def read_stop_def)
  show "0 \<le> p_Bytes p" "nat (p_Bytes p) \<le> length (fs_file s)"
    using p(2) len by simp_all
qed

text \<open>
  C15: a torn tail is repairable.  Truncate a journal file to the length a reader accepted, which
  may have met failing reads.  If \<open>Truncate\<close> reports success, the process and whoever reopens the
  file read a journal with the same records, head and next sequence number and no torn tail.  If it
  reports an error, either nothing has changed, or only repositioning the file failed: then the file is already
  repaired for whoever reopens it, while the size recorded in the process is still the old one.
\<close>

theorem torn_tail_repair:
  assumes "file_ok s" and "ReadPrefix (file_ops rd wr syncFile) s = Inr p"
    and "FileTruncate tr sk (Some s) (p_Bytes p) = (t, err)"
  shows "\<exists>s'. t = Some s' \<and>
    (case err of
       None \<Rightarrow> file_ok s' \<and> ReadPrefix (file_ops no_read_fault wr' syncFile') s' = Inr (repaired p) \<and>
         ReadPrefixBytes (fs_file s') = Inr (repaired p)
     | Some e \<Rightarrow> tr (fs_file s) (p_Bytes p) = Some e \<and> s' = s \<or>
         sk (p_Bytes p) = Some e \<and> ReadPrefixBytes (fs_file s') = Inr (repaired p) \<and> fs_size s' = fs_size s)"
proof -
  note acc = accepted_bytes [OF assms(1) file_seg.ReadPrefix_sound [OF assms(1,2)]]
  let ?s1 = "s\<lparr>fs_file := take (nat (p_Bytes p)) (fs_file s)\<rparr>"
  let ?s2 = "?s1\<lparr>fs_size := p_Bytes p\<rparr>"
  have T: "FileTruncate tr sk (Some s) (p_Bytes p) =
    (case tr (fs_file s) (p_Bytes p) of
       Some e \<Rightarrow> (Some s, Some e)
     | None \<Rightarrow> (case sk (p_Bytes p) of Some e \<Rightarrow> (Some ?s1, Some e) | None \<Rightarrow> (Some ?s2, None)))"
    using acc(2,3) by (cases "tr (fs_file s) (p_Bytes p)"; cases "sk (p_Bytes p)") (simp_all add: FileTruncate_def Let_def)
  have ok: "file_ok ?s2" and vis: "file_visible ?s2 = take (nat (p_Bytes p)) (fs_file s)"
    using acc(2,3) by (simp_all add: file_ok_def file_visible_def)
  have "ReadPrefix (file_ops no_read_fault wr' syncFile') ?s2 = Inr (repaired p)"
    unfolding file_exact.ReadPrefix_scan [OF ok] vis by (rule acc(1))
  then show ?thesis
    using assms(3) ok acc(1) unfolding T by (auto simp: ReadPrefixBytes_scan split: option.splits)
qed

lemma sample_torn:
  "\<exists>p. read_result (take 100 (record_bytes sample_fields)) = Inr p \<and> p_Torn p \<and> p_Records p = [] \<and> p_Bytes p = 0"
proof -
  have next_rec: "next_record 1 zero_digest sample_fields"
    using sample_fields_ok by (simp add: next_record_def) (simp add: sample_fields_def)
  have "100 < length (record_bytes sample_fields)"
    by (simp add: length_record_bytes sample_fields_ok record_len_def RecordOverhead_def)
  then obtain e where "scan 1 zero_digest (take 100 (record_bytes sample_fields)) = ([], ScanTorn e)"
    using scan_partial [OF next_rec, of 100] by simp
  from read_result_clean [OF this] show ?thesis
    by (auto simp: prefix_shows_def)
qed

theorem torn_tail_repair_witness:
  "\<exists>p s'. ReadPrefix (file_ops no_read_fault good_write no_fault) (OpenFileSegment (take 100 (record_bytes sample_fields))) = Inr p \<and>
     p_Torn p \<and>
     FileTruncate (\<lambda>_. no_fault) no_fault (Some (OpenFileSegment (take 100 (record_bytes sample_fields)))) (p_Bytes p) = (Some s', None) \<and>
     ReadPrefix (file_ops no_read_fault good_write no_fault) s' = Inr (repaired p)"
proof -
  let ?b = "take 100 (record_bytes sample_fields)" and ?ops = "file_ops no_read_fault good_write no_fault"
  note ok = OpenFileSegment_ok [of ?b]
  obtain p where p: "ReadPrefix ?ops (OpenFileSegment ?b) = Inr p" "p_Torn p"
    using sample_torn by (auto simp: file_exact.ReadPrefix_scan ok)
  obtain t where t: "FileTruncate (\<lambda>_. no_fault) no_fault (Some (OpenFileSegment ?b)) (p_Bytes p) = (t, None)"
    by (simp add: FileTruncate_def no_fault_def Let_def)
  from torn_tail_repair [OF ok(1) p(1) t, of good_write no_fault] p t show ?thesis
    by auto
qed

text \<open>The preimage of a record's commitment determines the record.\<close>

definition commitment_input :: "record_fields \<Rightarrow> bytes" where
  "commitment_input f = record_header f @ rf_Payload f"

lemma commitment_input_inject:
  assumes "wf_fields f" and "wf_fields g" and "commitment_input f = commitment_input g"
  shows "f = g"
proof -
  have l: "length (record_header f) = 108" "length (record_header g) = 108"
    using assms(1,2) by (simp_all add: record_header_def length_header_bytes wf_fields_def)
  then have h: "record_header f = record_header g" and pl: "rf_Payload f = rf_Payload g"
    using assms(3) by (simp_all add: commitment_input_def)
  from h have "PutU64LE (rf_Sequence f) = PutU64LE (rf_Sequence g)" "rf_TransactionID f = rf_TransactionID g"
    "PutU16LE (rf_Type f) = PutU16LE (rf_Type g)" "rf_PreviousCommitment f = rf_PreviousCommitment g"
    using assms(1,2) by (simp_all add: record_header_def header_bytes_def wf_fields_def)
  with pl show ?thesis
    by simp
qed

lemma chained_snoc:
  "chained e prev (fs @ [f]) \<longleftrightarrow> chained e prev fs \<and>
     next_record (e + of_nat (length fs)) (if fs = [] then prev else record_commitment (last fs)) f"
  by (induction fs arbitrary: e prev) (auto simp: next_record_def add.assoc)

lemma len64_eq:
  assumes "chained 1 z fs" and "chained 1 z gs" and "(1 :: u64) + of_nat (length fs) = 1 + of_nat (length gs)"
  shows "length fs = length gs"
proof -
  have "length fs < 2 ^ 64" "length gs < 2 ^ 64"
    using assms(1,2) chained_bound [of 1 z] by fastforce+
  then have "unat (of_nat (length fs) :: u64) = length fs" "unat (of_nat (length gs) :: u64) = length gs"
    by (simp_all add: unat_of_nat_small)
  with assms(3) show ?thesis
    by (metis add_left_cancel)
qed

lemma chained_bind:
  assumes "chained 1 z fs" and "chained 1 z gs" and "fs \<noteq> []" and "gs \<noteq> []"
    and "inj_on SHA256 (commitment_input ` (set fs \<union> set gs))"
    and "record_commitment (last fs) = record_commitment (last gs)"
  shows "fs = gs"
  using assms
proof (induction fs arbitrary: gs rule: rev_induct)
  case (snoc f fs)
  obtain gs' g where gs: "gs = gs' @ [g]"
    using snoc.prems(4) by (metis rev_exhaust)
  have ch: "chained 1 z fs" "chained 1 z gs'" "next_record (1 + of_nat (length fs)) (if fs = [] then z else record_commitment (last fs)) f"
    "next_record (1 + of_nat (length gs')) (if gs' = [] then z else record_commitment (last gs')) g"
    using snoc.prems(1,2) by (simp_all add: gs chained_snoc)
  have "SHA256 (commitment_input f) = SHA256 (commitment_input g)"
    using snoc.prems(6) by (simp add: gs record_commitment_def commitment_input_def)
  then have "commitment_input f = commitment_input g"
    by (rule inj_onD [OF snoc.prems(5)]) (simp_all add: gs)
  then have fg: "f = g"
    using ch(3,4) by (intro commitment_input_inject) (simp_all add: next_record_def)
  with ch have len: "length fs = length gs'"
    by (intro len64_eq [of z]) (simp_all add: next_record_def)
  have "fs = gs'" if ne: "fs \<noteq> []"
  proof -
    have ne': "gs' \<noteq> []"
      using len ne by auto
    have "(1 :: u64) + of_nat (length fs) \<noteq> 1"
      using len64_eq [OF ch(1), of "[]"] ne by auto
    then have "record_commitment (last fs) = record_commitment (last gs')"
      using ch(3,4) ne ne' fg len by (simp add: next_record_def)
    moreover have "inj_on SHA256 (commitment_input ` (set fs \<union> set gs'))"
      by (rule inj_on_subset [OF snoc.prems(5)]) (auto simp: gs)
    ultimately show ?thesis
      using snoc.IH [OF ch(1,2) ne ne'] by blast
  qed
  with fg len show ?case
    by (cases "fs = []") (simp_all add: gs)
qed simp

text \<open>
  C17: the head commitment binds the whole journal.  If SHA-256 has no collision among the
  commitment inputs of the records of two accepted journals, then equal head commitments mean
  equal record sequences: no record can be altered, inserted, removed or reordered under an
  unchanged head.
\<close>

theorem head_commitment_binds:
  assumes "ReadPrefixBytes a = Inr p" and "ReadPrefixBytes b = Inr q"
    and "p_Records p \<noteq> []" and "p_Records q \<noteq> []"
    and "inj_on SHA256 (commitment_input ` fields_of ` (set (p_Records p) \<union> set (p_Records q)))"
    and "p_HeadCommitment p = p_HeadCommitment q"
  shows "p_Records p = p_Records q"
proof -
  have *: "chained 1 zero_digest (map fields_of (p_Records p)) \<and> p_Records p = map record_of (map fields_of (p_Records p)) \<and>
      p_HeadCommitment p = record_commitment (last (map fields_of (p_Records p)))"
    if acc: "ReadPrefixBytes d = Inr p" and ne: "p_Records p \<noteq> []" for d p
  proof -
    obtain rs st where sc: "scan 1 zero_digest d = (rs, st)" "prefix_shows p rs (st \<noteq> ScanEnd)"
      using acc unfolding ReadPrefixBytes_scan by (rule read_result_Inr)
    then have rs: "p_Records p = rs" "p_HeadCommitment p = scan_head zero_digest rs"
      by (simp_all add: prefix_shows_def)
    have ch: "chained 1 zero_digest (map fields_of rs)" and rec: "rs = map record_of (map fields_of rs)"
      using scan_sound [OF sc(1)] by blast+
    show ?thesis
      unfolding rs(1)
    proof (intro conjI)
      show "p_HeadCommitment p = record_commitment (last (map fields_of rs))"
        using scan_head_fields [OF rec, of zero_digest] rs ne by simp
    qed (rule ch rec)+
  qed
  note p = * [OF assms(1,3)] and q = * [OF assms(2,4)]
  have "map fields_of (p_Records p) = map fields_of (p_Records q)"
  proof (rule chained_bind)
    show "inj_on SHA256 (commitment_input ` (set (map fields_of (p_Records p)) \<union> set (map fields_of (p_Records q))))"
      using assms(5) by (simp add: image_Un)
    show "record_commitment (last (map fields_of (p_Records p))) = record_commitment (last (map fields_of (p_Records q)))"
      using p q assms(6) by metis
  qed (use p q assms(3,4) in blast, use p q assms(3,4) in blast, use assms(3,4) in simp_all)
  with p q show ?thesis
    by metis
qed

lemma sample_journal:
  "\<exists>p. ReadPrefixBytes (record_bytes sample_fields @ take k (record_bytes sample_fields)) = Inr p \<and>
     p_Records p = [record_of sample_fields] \<and>
     p_HeadCommitment p = record_commitment sample_fields"
  if k: "k < length (record_bytes sample_fields)"
proof -
  let ?f = sample_fields
  have "scan 1 zero_digest (record_bytes ?f @ take k (record_bytes ?f)) =
      (case scan (1 + 1) (record_commitment ?f) (take k (record_bytes ?f)) of (rs, st) \<Rightarrow> (record_of ?f # rs, st))"
    by (rule scan_record_bytes [OF sample_fields_ok]) (simp_all add: sample_fields_def)
  moreover have "\<exists>st. scan e d (take k (record_bytes ?f)) = ([], st) \<and> stop_clean st" for e d
    using DecodeRecord_truncated [OF sample_fields_ok k] unfolding scan.simps [of e d "take k (record_bytes ?f)"]
    by (auto simp: AsKind_def)
  from this [of "1 + 1" "record_commitment ?f"]
  obtain st where "scan (1 + 1) (record_commitment ?f) (take k (record_bytes ?f)) = ([], st)" "stop_clean st"
    by blast
  ultimately have sc: "scan 1 zero_digest (record_bytes ?f @ take k (record_bytes ?f)) = ([record_of ?f], st)"
    "stop_clean st"
    by simp_all
  from read_result_explicit [OF this] show ?thesis
    by (simp add: ReadPrefixBytes_scan scan_head_def)
qed

theorem head_commitment_binds_witness:
  "\<exists>p q. ReadPrefixBytes (record_bytes sample_fields) = Inr p \<and>
     ReadPrefixBytes (record_bytes sample_fields @ take 50 (record_bytes sample_fields)) = Inr q \<and>
     p_Records p \<noteq> [] \<and> p_Records p = p_Records q"
proof -
  have "50 < length (record_bytes sample_fields)" "0 < length (record_bytes sample_fields)"
    by (simp_all add: length_record_bytes sample_fields_ok record_len_def RecordOverhead_def)
  from sample_journal [OF this(1)] sample_journal [OF this(2)] this
  obtain p q where pq: "ReadPrefixBytes (record_bytes sample_fields) = Inr p"
    "ReadPrefixBytes (record_bytes sample_fields @ take 50 (record_bytes sample_fields)) = Inr q"
    "p_Records p = [record_of sample_fields]" "p_Records q = [record_of sample_fields]"
    "p_HeadCommitment p = p_HeadCommitment q"
    by auto
  with head_commitment_binds [OF pq(1,2)] show ?thesis
    by simp
qed







end
