(* ===== verification/Local_Journal.thy ===== *)
theory Local_Journal
  imports Journal_Correct
begin

text \<open>
  How local synchronisation opens its journal: \<open>finishOpenJournal\<close> of
  \<open>internal/localsync/journaled.go\<close> with the error wrapping of \<open>internal/localsync/errors.go\<close>.
  The segment is the file segment of the journal.  Closing the file after a failure has no effect
  on its bytes; the result of \<open>Close\<close> is discarded by the source.
\<close>

subsection \<open>Errors\<close>

datatype ls_error =
  LsError (ls_Kind: string) (ls_Op: string) (ls_Path: string) (ls_Message: string) (ls_Err: "ls_cause option")
  and ls_cause = FromJournal journal_error | FromIO io_error | FromLocal ls_error

definition ls_KindWrite :: string where "ls_KindWrite = ''write''"
definition ls_KindInternal :: string where "ls_KindInternal = ''internal''"

definition ls_classify :: "string \<Rightarrow> string \<Rightarrow> string \<Rightarrow> string \<Rightarrow> ls_cause option \<Rightarrow> ls_cause" where
  "ls_classify kind op rel msg err = FromLocal (LsError kind op rel msg err)"

text \<open>An error that is already one of the package is passed on as it is.\<close>

definition ls_wrap :: "string \<Rightarrow> string \<Rightarrow> string \<Rightarrow> ls_cause option \<Rightarrow> ls_cause option" where
  "ls_wrap kind op rel err =
     (case err of
        None \<Rightarrow> None
      | Some (FromLocal e) \<Rightarrow> Some (FromLocal e)
      | Some e \<Rightarrow> Some (ls_classify kind op rel [] (Some e)))"

subsection \<open>Opening\<close>

text \<open>
  The two openings have methods of their own, since a read may fail in one and work in the
  other.  \<open>tr\<close> and \<open>sk\<close> are the failures of truncating and repositioning the file.  The segment
  is returned with the result, as it is shared with the writer.
\<close>

definition finishOpenJournal ::
  "file_segment segment_ops \<Rightarrow> file_segment segment_ops \<Rightarrow> (bytes \<Rightarrow> int \<Rightarrow> io_error option) \<Rightarrow> (int \<Rightarrow> io_error option) \<Rightarrow>
   file_segment \<Rightarrow> file_segment \<times> (ls_cause option + file_segment journal_writer \<times> journal_prefix)" where
  "finishOpenJournal ops1 ops2 tr sk seg =
     (case OpenWriter ops1 seg of
        Inl err \<Rightarrow> (seg, Inl (ls_wrap ls_KindInternal ''journal'' [] (Some (FromJournal err))))
      | Inr (w, prefix) \<Rightarrow>
          if p_Torn prefix then
            (case FileTruncate tr sk (Some seg) (p_Bytes prefix) of
               (t, Some err) \<Rightarrow>
                 (case t of None \<Rightarrow> seg | Some s \<Rightarrow> s, Inl (ls_wrap ls_KindWrite ''journal'' [] (Some (FromIO err))))
             | (t, None) \<Rightarrow>
                 let seg = (case t of None \<Rightarrow> seg | Some s \<Rightarrow> s) in
                 (case OpenWriter ops2 seg of
                    Inl err \<Rightarrow> (seg, Inl (ls_wrap ls_KindInternal ''journal'' [] (Some (FromJournal err))))
                  | Inr (w, prefix) \<Rightarrow> (seg, Inr (w, prefix))))
          else (seg, Inr (w, prefix)))"

subsection \<open>A reader over records that are read exactly\<close>

context segment
begin

lemma readPrefixLoop_record:
  assumes "ok s" and c: "contents s = pre @ record_bytes f @ post" and f: "next_record e prev f"
    and rd: "\<And>n. length pre + n \<le> length (contents s) \<Longrightarrow>
      fst (sg_ReadAt ops s n (int (length pre))) = take n (drop (length pre) (contents s))"
  shows "readPrefixLoop ops s (int (length (contents s))) out (int (length pre)) e prev =
    readPrefixLoop ops s (int (length (contents s))) (accept out (record_of f))
      (int (length (pre @ record_bytes f))) (e + 1) (record_commitment f)"
proof -
  have wf: "wf_fields f" "encodable f" and seq: "rf_Sequence f = e" "e \<noteq> 1 \<longrightarrow> rf_PreviousCommitment f = prev"
    "e = 1 \<longrightarrow> rf_PreviousCommitment f = GenesisCommitment"
    using f by (auto simp: next_record_def encodable_def)
  let ?len = "int (length (contents s))" and ?rec = "record_of f"
  let ?want = "min (?len - int (length pre)) (int MaxRecordBytes)"
  have len: "length (record_bytes f) = record_len f" "rec_len ?rec = record_len f"
    using wf DecodeRecord_rec_len [OF DecodeRecord_record_bytes [OF wf]] by (simp_all add: length_record_bytes)
  have pos: "0 < record_len f"
    by (simp add: record_len_def RecordOverhead_def)
  obtain buf err where b: "sg_ReadAt ops s (nat ?want) (int (length pre)) = (buf, err)"
    by fastforce
  have "length pre \<le> length (contents s)"
    using c by simp
  then have "length pre + nat ?want \<le> length (contents s)"
    by linarith
  then have "buf = take (nat ?want) (record_bytes f @ post)"
    using rd [of "nat ?want"] b c by simp
  also have "\<dots> = take MaxRecordBytes (record_bytes f @ post)"
    using c by (simp add: min_def nat_diff_distrib)
  finally have dec: "DecodeRecord buf = Inr (?rec, record_len f)"
    using DecodeRecord_record_bytes [OF wf, of post] by (simp only: DecodeRecord_take_max)
  have "buf \<noteq> []"
    using DecodeRecord_sound(5) [OF dec] pos by auto
  then show ?thesis
    using b dec seq len pos c
    by (subst readPrefixLoop.simps) (auto simp: Let_def accept_def)
qed

lemma readPrefixLoop_records:
  assumes "ok s" and "contents s = pre @ concat (map record_bytes fs) @ post" and "chained e prev fs"
    and "\<And>k n. length pre \<le> k \<Longrightarrow> k < length (pre @ concat (map record_bytes fs)) \<Longrightarrow> k + n \<le> length (contents s) \<Longrightarrow>
      fst (sg_ReadAt ops s n (int k)) = take n (drop k (contents s))"
  shows "readPrefixLoop ops s (int (length (contents s))) out (int (length pre)) e prev =
    readPrefixLoop ops s (int (length (contents s))) (foldl accept out (map record_of fs))
      (int (length (pre @ concat (map record_bytes fs)))) (e + of_nat (length fs))
      (if fs = [] then prev else record_commitment (last fs))"
  using assms(2-4)
proof (induction fs arbitrary: pre out e prev)
  case (Cons f fs)
  have f: "next_record e prev f" and ch: "chained (e + 1) (record_commitment f) fs"
    using Cons.prems(2) by (auto simp: next_record_def)
  have "0 < length (record_bytes f)"
    using f by (simp add: next_record_def length_record_bytes record_len_def RecordOverhead_def)
  then have rd: "fst (sg_ReadAt ops s n (int (length pre))) = take n (drop (length pre) (contents s))"
    if "length pre + n \<le> length (contents s)" for n
    using that by (intro Cons.prems(3)) simp_all
  have rd': "fst (sg_ReadAt ops s n (int k)) = take n (drop k (contents s))"
    if "length (pre @ record_bytes f) \<le> k" "k < length ((pre @ record_bytes f) @ concat (map record_bytes fs))"
      "k + n \<le> length (contents s)" for k n
    using that by (intro Cons.prems(3)) simp_all
  have c: "contents s = pre @ record_bytes f @ concat (map record_bytes fs) @ post"
    "contents s = (pre @ record_bytes f) @ concat (map record_bytes fs) @ post"
    using Cons.prems(1) by simp_all
  have "readPrefixLoop ops s (int (length (contents s))) out (int (length pre)) e prev =
      readPrefixLoop ops s (int (length (contents s))) (accept out (record_of f))
        (int (length (pre @ record_bytes f))) (e + 1) (record_commitment f)"
    by (rule readPrefixLoop_record [OF assms(1) c(1) f rd])
  also have "\<dots> = readPrefixLoop ops s (int (length (contents s))) (foldl accept (accept out (record_of f)) (map record_of fs))
      (int (length ((pre @ record_bytes f) @ concat (map record_bytes fs)))) (e + 1 + of_nat (length fs))
      (if fs = [] then record_commitment f else record_commitment (last fs))"
    by (rule Cons.IH [OF c(2) ch rd'])
  finally show ?case
    by (simp add: add.assoc)
qed simp

end

subsection \<open>What opening makes of a journal file\<close>

lemma OpenWriter_Inr:
  assumes "ReadPrefix ops seg = Inr p"
  obtains w where "OpenWriter ops seg = Inr (w, p)" "w_seg w = seg" "w_nextSeq w = p_NextSequence p" "\<not> w_closed w"
  using assms by (auto simp: OpenWriter_def Let_def)

lemma finishOpen_torn:
  assumes ok: "file_ok seg" and first: "ReadPrefix (file_ops rd wr sf) seg = Inr p" and torn: "p_Torn p"
  defines "seg' \<equiv> \<lparr>fs_file = take (nat (p_Bytes p)) (fs_file seg), fs_size = p_Bytes p\<rparr>"
  obtains w where "w_seg w = seg'" "w_nextSeq w = p_NextSequence p" "\<not> w_closed w"
    "finishOpenJournal (file_ops rd wr sf) (file_ops no_read_fault wr' sf') tr sk seg =
      (case tr (fs_file seg) (p_Bytes p) of
         Some e \<Rightarrow> (seg, Inl (ls_wrap ls_KindWrite ''journal'' [] (Some (FromIO e))))
       | None \<Rightarrow>
           (case sk (p_Bytes p) of
              Some e \<Rightarrow> (seg\<lparr>fs_file := fs_file seg'\<rparr>, Inl (ls_wrap ls_KindWrite ''journal'' [] (Some (FromIO e))))
            | None \<Rightarrow> (seg', Inr (w, repaired p))))"
proof -
  note acc = accepted_bytes [OF ok file_seg.ReadPrefix_sound [OF ok first]]
  have ok': "file_ok seg'" and vis: "file_visible seg' = take (nat (p_Bytes p)) (fs_file seg)"
    using acc(2,3) by (simp_all add: seg'_def file_ok_def file_visible_def)
  have "ReadPrefix (file_ops no_read_fault wr' sf') seg' = Inr (repaired p)"
    unfolding file_exact.ReadPrefix_scan [OF ok'] vis by (rule acc(1))
  then obtain w where w: "OpenWriter (file_ops no_read_fault wr' sf') seg' = Inr (w, repaired p)" "w_seg w = seg'"
    "w_nextSeq w = p_NextSequence (repaired p)" "\<not> w_closed w"
    by (rule OpenWriter_Inr)
  obtain w1 where w1: "OpenWriter (file_ops rd wr sf) seg = Inr (w1, p)"
    using OpenWriter_Inr [OF first] .
  have next_seq: "w_nextSeq w = p_NextSequence p"
    using w(3) by (simp add: repaired_def)
  have all: "seg\<lparr>fs_file := fs_file seg', fs_size := p_Bytes p\<rparr> = seg'"
    by (simp add: seg'_def)
  have keep: "take (nat (p_Bytes p)) (fs_file seg) @ replicate (nat (p_Bytes p) - length (fs_file seg)) 0 = fs_file seg'"
    using acc(3) by (simp add: seg'_def)
  show ?thesis
    by (rule that [OF w(2) next_seq w(4)])
      (cases "tr (fs_file seg) (p_Bytes p)"; cases "sk (p_Bytes p)";
        use acc(2) torn w(1) w1 keep all in \<open>simp add: finishOpenJournal_def FileTruncate_def Let_def\<close>)
qed

lemma read_result_untorn:
  assumes "read_result data = Inr p" and "\<not> p_Torn p"
  shows "repaired p = p" "p_Bytes p = int (length data)"
proof -
  obtain rs st where sc: "scan 1 zero_digest data = (rs, st)" "stop_clean st" "prefix_shows p rs (st \<noteq> ScanEnd)"
    using assms(1) by (rule read_result_Inr)
  then have st: "st = ScanEnd"
    using assms(2) by (simp add: prefix_shows_def)
  with read_result_explicit [OF sc(1,2)] assms(1) show "repaired p = p"
    by (auto simp: repaired_def)
  show "p_Bytes p = int (length data)"
    using scan_sound [OF sc(1)] sc(3) st by (auto simp: prefix_shows_def)
qed

subsection \<open>A read that is interrupted\<close>

lemma chained_mem: "chained e prev fs \<Longrightarrow> f \<in> set fs \<Longrightarrow> wf_fields f \<and> encodable f"
  by (induction fs arbitrary: e prev) auto

lemma interrupted_step:
  assumes ff: "fs_file seg = pre @ record_bytes f @ post" and f: "wf_fields f" "encodable f"
    and j: "0 < j" "j < length (record_bytes f)" and rd: "\<And>n. rd (fs_file seg) n (int (length pre)) = Some (j, e)"
  shows "readPrefixLoop (file_ops rd wr sf) seg (int (length (fs_file seg))) out (int (length pre)) ex prev =
    Inr (out\<lparr>p_Torn := True, p_TornOffset := int (length pre), p_Quarantine := take j (record_bytes f)\<rparr>)"
proof -
  let ?len = "int (length (fs_file seg))"
  let ?want = "min (?len - int (length pre)) (int MaxRecordBytes)"
  have "length (record_bytes f) \<le> MaxRecordBytes"
    using f record_len_bounds by (simp add: length_record_bytes)
  then have want: "j < nat ?want"
    using j(2) ff by simp
  have "take j (take (nat ?want) (record_bytes f @ post)) = take j (record_bytes f)"
    using want j(2) by (simp add: min_def)
  then have b: "FileReadAt rd seg (nat ?want) (int (length pre)) = (take j (record_bytes f), Some (OtherIO e))"
    unfolding FileReadAt_def rd Let_def using want by (simp add: ff)
  have ne: "take j (record_bytes f) \<noteq> []"
    using j by auto
  obtain err where d: "DecodeRecord (take j (record_bytes f)) = Inl err" "ce_Kind err = KindIncomplete"
    using DecodeRecord_truncated [OF f j(2)] by blast
  have "int (length pre) < ?len"
    using ff j(2) by simp
  then show ?thesis
    using b ne d
    by (subst readPrefixLoop.simps) (simp add: file_ops_def Let_def classifyDecode_def AsKind_def torn_def)
qed

text \<open>
  A reader that meets an I/O error inside a record takes it for a torn tail, and opening then cuts
  off that record and all after it, although the file is complete and was never torn.
\<close>

lemma interrupted_read_truncates:
  fixes e :: string
  assumes ch: "chained 1 zero_digest (fs @ f # gs)" and j: "0 < j" "j < length (record_bytes f)"
  defines "whole \<equiv> concat (map record_bytes (fs @ f # gs))" and "kept \<equiv> concat (map record_bytes fs)"
  defines "rd \<equiv> (\<lambda>_ _ off. if off = int (length kept) then Some (j, e) else None)"
  shows "\<exists>p. ReadPrefixBytes whole = Inr p \<and> \<not> p_Torn p \<and> p_Records p = map record_of (fs @ f # gs)" (is ?whole)
    and "\<exists>seg w p. finishOpenJournal (file_ops rd wr sf) (file_ops no_read_fault wr' sf') (\<lambda>_ _. None) (\<lambda>_. None)
        (OpenFileSegment whole) = (seg, Inr (w, p)) \<and>
      fs_file seg = kept \<and> p_Records p = map record_of fs" (is ?cut)
proof -
  let ?seg = "OpenFileSegment whole" and ?z = "zero_prefix\<lparr>p_NextSequence := 1\<rparr>"
  have "scan 1 zero_digest (whole @ []) = (map record_of (fs @ f # gs), ScanEnd)"
    using scan_chained [OF ch, of "[]"] by (simp add: whole_def scan.simps [of _ _ "[]"])
  then show ?whole
    using read_result_explicit by (fastforce simp: ReadPrefixBytes_scan)
  have f: "wf_fields f" "encodable f" and chfs: "chained 1 zero_digest fs"
    using chained_mem [OF ch, of f] chained_append [OF ch] by simp_all
  have seg: "fs_file ?seg = whole" "file_ok ?seg" "file_visible ?seg = whole"
    by (simp_all add: OpenFileSegment_ok) (simp add: OpenFileSegment_def)
  have c: "whole = [] @ kept @ record_bytes f @ concat (map record_bytes gs)" "whole = kept @ record_bytes f @ concat (map record_bytes gs)"
    by (simp_all add: whole_def kept_def)
  let ?p = "(foldl accept ?z (map record_of fs))\<lparr>p_Torn := True, p_TornOffset := int (length kept), p_Quarantine := take j (record_bytes f)\<rparr>"
  have ff: "fs_file ?seg = kept @ record_bytes f @ concat (map record_bytes gs)"
    unfolding seg(1) by (rule c(2))
  have v: "file_visible ?seg = [] @ concat (map record_bytes fs) @ record_bytes f @ concat (map record_bytes gs)"
    unfolding seg(3) using c(1) by (simp only: kept_def)
  have exact: "fst (sg_ReadAt (file_ops rd wr sf) ?seg n (int k)) = take n (drop k (file_visible ?seg))"
    if "k < length ([] @ kept)" for k n
    using that by (simp add: file_ops_def FileReadAt_def rd_def seg Let_def)
  have "readPrefixLoop (file_ops rd wr sf) ?seg (int (length whole)) ?z 0 1 zero_digest =
      readPrefixLoop (file_ops rd wr sf) ?seg (int (length whole)) (foldl accept ?z (map record_of fs)) (int (length kept))
        (1 + of_nat (length fs)) (if fs = [] then zero_digest else record_commitment (last fs))"
    using file_seg.readPrefixLoop_records [OF seg(2) v chfs exact [unfolded kept_def], of ?z]
    unfolding seg(3) kept_def [symmetric] by simp
  also have "\<dots> = Inr ?p"
    by (rule interrupted_step [OF ff f j, unfolded seg(1)]) (simp add: rd_def)
  finally have r: "ReadPrefix (file_ops rd wr sf) ?seg = Inr ?p"
    using j(2) c by (simp add: ReadPrefix_def file_ops_def FileSize_def OpenFileSegment_def)
  have "p_Bytes ?p = int (length kept)"
    using scan_sound [of 1 zero_digest kept] scan_chained [OF chfs, of "[]"]
    by (simp add: kept_def scan.simps [of _ _ "[]"] zero_prefix_def)
  then have take: "take (nat (p_Bytes ?p)) whole = kept"
    using c(2) by simp
  obtain w where "finishOpenJournal (file_ops rd wr sf) (file_ops no_read_fault wr' sf') (\<lambda>_ _. None) (\<lambda>_. None) ?seg =
      (\<lparr>fs_file = take (nat (p_Bytes ?p)) (fs_file ?seg), fs_size = p_Bytes ?p\<rparr>, Inr (w, repaired ?p))"
    by (rule finishOpen_torn [OF seg(2) r, of wr' sf' "\<lambda>_ _. None" "\<lambda>_. None"]) simp_all
  then show ?cut
    using take by (auto simp: seg repaired_def zero_prefix_def)
qed

subsection \<open>Properties\<close>

text \<open>
  C16: What opening makes of a journal file when its reads work.  A corrupt file is refused and left
  alone.  Otherwise opening succeeds, unless cutting off a torn tail fails: the writer then stands
  on a journal without a torn tail that holds exactly the accepted records and bytes of the file, and
  goes on with the next sequence number.  If cutting off the tail fails, the file is as it was, or
  already repaired for whoever opens it next.
\<close>

theorem open_journal_repairs:
  assumes "finishOpenJournal (file_ops no_read_fault wr sf) (file_ops no_read_fault wr' sf') tr sk (OpenFileSegment whole) = (seg, res)"
  shows "case ReadPrefixBytes whole of
    Inl e \<Rightarrow> fs_file seg = whole \<and> res = Inl (ls_wrap ls_KindInternal ''journal'' [] (Some (FromJournal e)))
  | Inr p \<Rightarrow>
      (case res of
         Inr (w, q) \<Rightarrow> q = repaired p \<and> fs_file seg = take (nat (p_Bytes p)) whole \<and>
           ReadPrefixBytes (fs_file seg) = Inr q \<and> fs_size seg = int (length (fs_file seg)) \<and>
           w_seg w = seg \<and> w_nextSeq w = p_NextSequence p \<and> \<not> w_closed w
       | Inl err \<Rightarrow> p_Torn p \<and> (fs_file seg = whole \<or> ReadPrefixBytes (fs_file seg) = Inr (repaired p)) \<and>
           (\<exists>e. err = ls_wrap ls_KindWrite ''journal'' [] (Some (FromIO e))))"
proof -
  let ?seg = "OpenFileSegment whole" and ?ops = "file_ops no_read_fault wr sf"
  have ok: "file_ok ?seg" and ff: "fs_file ?seg = whole"
    by (simp_all add: OpenFileSegment_ok) (simp add: OpenFileSegment_def)
  have r: "ReadPrefix ?ops ?seg = read_result whole"
    using file_exact.ReadPrefix_scan [OF ok] by (simp add: OpenFileSegment_ok)
  show ?thesis
  proof (cases "read_result whole")
    case (Inl e)
    then show ?thesis
      using assms r by (auto simp: finishOpenJournal_def OpenWriter_def ReadPrefixBytes_scan ff)
  next
    case (Inr p)
    have rp: "ReadPrefix ?ops ?seg = Inr p"
      using r Inr by simp
    note acc = accepted_bytes [OF ok file_seg.ReadPrefix_sound [OF ok rp], unfolded ff]
    show ?thesis
    proof (cases "p_Torn p")
      case True
      obtain w where "w_seg w = \<lparr>fs_file = take (nat (p_Bytes p)) whole, fs_size = p_Bytes p\<rparr>" "w_nextSeq w = p_NextSequence p"
        "\<not> w_closed w" "(seg, res) = (case tr whole (p_Bytes p) of
         Some e \<Rightarrow> (?seg, Inl (ls_wrap ls_KindWrite ''journal'' [] (Some (FromIO e))))
       | None \<Rightarrow>
           (case sk (p_Bytes p) of
              Some e \<Rightarrow> (?seg\<lparr>fs_file := take (nat (p_Bytes p)) whole\<rparr>, Inl (ls_wrap ls_KindWrite ''journal'' [] (Some (FromIO e))))
            | None \<Rightarrow> (\<lparr>fs_file = take (nat (p_Bytes p)) whole, fs_size = p_Bytes p\<rparr>, Inr (w, repaired p))))"
        by (rule finishOpen_torn [OF ok rp True, of wr' sf' tr sk, unfolded ff assms file_segment.simps]) (rule that)
      then show ?thesis
        using acc Inr True ff by (auto simp: ReadPrefixBytes_scan split: option.splits)
    next
      case False
      note u = read_result_untorn [OF Inr False]
      obtain w where w: "OpenWriter ?ops ?seg = Inr (w, p)" "w_seg w = ?seg" "w_nextSeq w = p_NextSequence p" "\<not> w_closed w"
        using OpenWriter_Inr [OF rp] .
      then have "seg = ?seg" "res = Inr (w, p)"
        using assms False by (simp_all add: finishOpenJournal_def)
      then show ?thesis
        using w Inr u ff by (simp add: ReadPrefixBytes_scan) (simp add: OpenFileSegment_def)
    qed
  qed
qed

theorem open_journal_repairs_witness:
  "\<exists>seg w p. finishOpenJournal (file_ops no_read_fault good_write no_fault) (file_ops no_read_fault good_write no_fault)
      (\<lambda>_. no_fault) no_fault (OpenFileSegment (take 100 (record_bytes sample_fields))) = (seg, Inr (w, p)) \<and>
     fs_file seg = [] \<and> \<not> p_Torn p \<and> w_nextSeq w = p_NextSequence p"
proof -
  let ?b = "take 100 (record_bytes sample_fields)" and ?ops = "file_ops no_read_fault good_write no_fault"
  obtain q where q: "read_result ?b = Inr q" "p_Torn q" "p_Bytes q = 0"
    using sample_torn by blast
  then have r: "ReadPrefix ?ops (OpenFileSegment ?b) = Inr q"
    by (simp add: file_exact.ReadPrefix_scan OpenFileSegment_ok)
  obtain seg w p where opened: "finishOpenJournal ?ops ?ops (\<lambda>_. no_fault) no_fault (OpenFileSegment ?b) = (seg, Inr (w, p))"
    by (rule finishOpen_torn [OF OpenFileSegment_ok(1) r q(2), of good_write no_fault "\<lambda>_. no_fault" no_fault])
      (simp add: no_fault_def that)
  from open_journal_repairs [OF opened] opened q show ?thesis
    by (auto simp: ReadPrefixBytes_scan repaired_def)
qed

end
