(* ===== verification/Path.thy ===== *)
theory Path
  imports Codec "HOL-Library.Multiset"
begin

text \<open>
  Protocol paths (\<open>src/internal/path\<close>): the component grammar with its UTF-8 and NFC checks,
  slash-joined paths, and descriptor-relative resolution without following links against a file
  system that may change between any two calls.
\<close>

subsection \<open>Rules, limits and errors\<close>

definition MaxComponentBytes :: nat where "MaxComponentBytes = 255"
definition MaxComponents :: nat where "MaxComponents = 1024"
definition MaxPathBytes :: nat where "MaxPathBytes = 4096"

lemmas path_limit_defs = MaxComponentBytes_def MaxComponents_def MaxPathBytes_def

datatype rule_id = RuleEmpty | RuleDot | RuleDotDot | RuleNUL | RuleSep | RuleAbs | RuleUTF8 | RuleNorm
  | RuleCtrl | RuleLen | RuleCount | RuleBudget | RuleWinRes | RuleUnk | RuleLink | RuleType | RuleIdent
  | RuleVolume | RuleOpen | RulePolicy

fun rule_text :: "rule_id \<Rightarrow> string" where
  "rule_text RuleEmpty = ''G-EMPTY''"
| "rule_text RuleDot = ''G-DOT''"
| "rule_text RuleDotDot = ''G-DOTDOT''"
| "rule_text RuleNUL = ''G-NUL''"
| "rule_text RuleSep = ''G-SEP''"
| "rule_text RuleAbs = ''G-ABS''"
| "rule_text RuleUTF8 = ''G-UTF8''"
| "rule_text RuleNorm = ''G-NORM''"
| "rule_text RuleCtrl = ''G-CTRL''"
| "rule_text RuleLen = ''G-LEN''"
| "rule_text RuleCount = ''G-COUNT''"
| "rule_text RuleBudget = ''G-BUDGET''"
| "rule_text RuleWinRes = ''G-WINRES''"
| "rule_text RuleUnk = ''G-UNK''"
| "rule_text RuleLink = ''G-LINK''"
| "rule_text RuleType = ''G-TYPE''"
| "rule_text RuleIdent = ''G-IDENT''"
| "rule_text RuleVolume = ''G-VOLUME''"
| "rule_text RuleOpen = ''G-OPEN''"
| "rule_text RulePolicy = ''G-POLICY''"

record path_profile =
  WindowsReserved :: bool

definition DefaultProfile :: path_profile where
  "DefaultProfile = \<lparr>WindowsReserved = False\<rparr>"

record path_error =
  pe_Rule :: rule_id
  pe_Index :: int
  pe_Message :: string

definition path_error_text :: "path_error \<Rightarrow> string" where
  "path_error_text e =
     (if pe_Message e \<noteq> [] then rule_text (pe_Rule e) @ '': '' @ pe_Message e else rule_text (pe_Rule e))"

definition reject :: "rule_id \<Rightarrow> int \<Rightarrow> string \<Rightarrow> path_error" where
  "reject rule index msg = \<lparr>pe_Rule = rule, pe_Index = index, pe_Message = msg\<rparr>"

subsection \<open>UTF-8\<close>

text \<open>
  \<open>utf8.DecodeRune\<close> and \<open>utf8.Valid\<close> of the standard library.  A byte sequence that starts with
  no well-formed encoding decodes to the replacement rune with size 1.
\<close>

type_synonym go_rune = int

definition RuneError :: go_rune where
  "RuneError = 0xFFFD"

definition is_cont :: "byte \<Rightarrow> bool" where
  "is_cont b \<longleftrightarrow> 0x80 \<le> b \<and> b \<le> 0xBF"

definition cont_bits :: "byte \<Rightarrow> int" where
  "cont_bits b = uint (b AND 0x3F)"

fun DecodeRune :: "bytes \<Rightarrow> go_rune \<times> nat" where
  "DecodeRune [] = (RuneError, 0)"
| "DecodeRune (b0 # rest) =
     (if b0 < 0x80 then (uint b0, 1)
      else if 0xC2 \<le> b0 \<and> b0 \<le> 0xDF then
        (case rest of
           b1 # _ \<Rightarrow> if is_cont b1 then (uint (b0 AND 0x1F) * 64 + cont_bits b1, 2) else (RuneError, 1)
         | _ \<Rightarrow> (RuneError, 1))
      else if 0xE0 \<le> b0 \<and> b0 \<le> 0xEF then
        (case rest of
           b1 # b2 # _ \<Rightarrow>
             if is_cont b1 \<and> (b0 = 0xE0 \<longrightarrow> 0xA0 \<le> b1) \<and> (b0 = 0xED \<longrightarrow> b1 \<le> 0x9F) \<and> is_cont b2
             then (uint (b0 AND 0x0F) * 4096 + cont_bits b1 * 64 + cont_bits b2, 3) else (RuneError, 1)
         | _ \<Rightarrow> (RuneError, 1))
      else if 0xF0 \<le> b0 \<and> b0 \<le> 0xF4 then
        (case rest of
           b1 # b2 # b3 # _ \<Rightarrow>
             if is_cont b1 \<and> (b0 = 0xF0 \<longrightarrow> 0x90 \<le> b1) \<and> (b0 = 0xF4 \<longrightarrow> b1 \<le> 0x8F) \<and> is_cont b2 \<and> is_cont b3
             then (uint (b0 AND 0x07) * 262144 + cont_bits b1 * 4096 + cont_bits b2 * 64 + cont_bits b3, 4)
             else (RuneError, 1)
         | _ \<Rightarrow> (RuneError, 1))
      else (RuneError, 1))"

lemma DecodeRune_size: "b \<noteq> [] \<Longrightarrow> DecodeRune b = (r, n) \<Longrightarrow> 0 < n \<and> n \<le> length b"
  by (cases b) (auto split: if_splits list.splits)

function utf8_Valid :: "bytes \<Rightarrow> bool" where
  "utf8_Valid b =
     (if b = [] then True
      else let (r, n) = DecodeRune b in \<not> (r = RuneError \<and> n = 1) \<and> utf8_Valid (drop n b))"
  by pat_completeness auto
termination
  by (relation "measure length") (auto dest: DecodeRune_size [OF _ sym])

declare utf8_Valid.simps [simp del]

subsection \<open>Normalisation form C\<close>

text \<open>
  The Unicode tables of \<open>nfc_tables.go\<close> are generated data; the checker is modelled for any
  tables.  A combining class is 0 where the table has no entry.
\<close>

record nfc_tables =
  nfcCCC :: "go_rune \<Rightarrow> byte"
  nfcQCNo :: "go_rune list"
  nfcCompose :: "u64 \<Rightarrow> go_rune option"

definition hangulSBase :: int where "hangulSBase = 0xAC00"
definition hangulLBase :: int where "hangulLBase = 0x1100"
definition hangulVBase :: int where "hangulVBase = 0x1161"
definition hangulTBase :: int where "hangulTBase = 0x11A7"
definition hangulLCount :: int where "hangulLCount = 19"
definition hangulVCount :: int where "hangulVCount = 21"
definition hangulTCount :: int where "hangulTCount = 28"
definition hangulSCount :: int where "hangulSCount = hangulLCount * hangulVCount * hangulTCount"

definition composeHangul :: "go_rune \<Rightarrow> go_rune \<Rightarrow> go_rune option" where
  "composeHangul a b =
     (if a \<ge> hangulLBase \<and> a < hangulLBase + hangulLCount \<and> b \<ge> hangulVBase \<and> b < hangulVBase + hangulVCount
      then Some (hangulSBase + ((a - hangulLBase) * hangulVCount + (b - hangulVBase)) * hangulTCount)
      else if a \<ge> hangulSBase \<and> a < hangulSBase + hangulSCount \<and> (a - hangulSBase) mod hangulTCount = 0 \<and>
        b > hangulTBase \<and> b < hangulTBase + hangulTCount
      then Some (a + (b - hangulTBase))
      else None)"

definition composePair :: "nfc_tables \<Rightarrow> go_rune \<Rightarrow> go_rune \<Rightarrow> go_rune option" where
  "composePair t a b =
     (case composeHangul a b of
        Some c \<Rightarrow> Some c
      | None \<Rightarrow> nfcCompose t (push_bit 32 (word_of_int a) OR ucast (word_of_int b :: u32)))"

text \<open>\<open>sort.Search\<close>: the standard library's binary search for the least index with \<open>f\<close>.\<close>

function searchLoop :: "(nat \<Rightarrow> bool) \<Rightarrow> nat \<Rightarrow> nat \<Rightarrow> nat" where
  "searchLoop f i j =
     (if i < j then let h = (i + j) div 2 in if \<not> f h then searchLoop f (h + 1) j else searchLoop f i h
      else i)"
  by pat_completeness auto
termination
  by (relation "measure (\<lambda>(f, i, j). j - i)") auto

declare searchLoop.simps [simp del]

definition runeInSorted :: "go_rune list \<Rightarrow> go_rune \<Rightarrow> bool" where
  "runeInSorted xs r = (let i = searchLoop (\<lambda>i. xs ! i \<ge> r) 0 (length xs) in i < length xs \<and> xs ! i = r)"

type_synonym nfc_mark = "go_rune \<times> byte"

fun isBlocked :: "nfc_mark list \<Rightarrow> byte \<Rightarrow> bool" where
  "isBlocked [] cc = False"
| "isBlocked ((r, mcc) # ms) cc = (if mcc = 0 \<or> mcc \<ge> cc then True else isBlocked ms cc)"

text \<open>The scan of \<open>isNFC\<close>; \<open>lastStarter\<close> is None while no starter has been seen.\<close>

function nfcLoop :: "nfc_tables \<Rightarrow> nfc_mark list \<Rightarrow> go_rune option \<Rightarrow> byte \<Rightarrow> bytes \<Rightarrow> bool" where
  "nfcLoop t intervening lastStarter lastCC b =
     (if b = [] then True
      else
        let (r, n) = DecodeRune b in
        if r = RuneError \<and> n = 1 then False
        else if runeInSorted (nfcQCNo t) r then False
        else
          let cc = nfcCCC t r in
          if lastCC > cc \<and> cc \<noteq> 0 then False
          else if lastStarter \<noteq> None \<and> composePair t (the lastStarter) r \<noteq> None \<and> \<not> isBlocked intervening cc
            then False
          else if cc = 0 then nfcLoop t [] (Some r) cc (drop n b)
          else if lastStarter \<noteq> None then nfcLoop t (intervening @ [(r, cc)]) lastStarter cc (drop n b)
          else nfcLoop t intervening lastStarter cc (drop n b))"
  by pat_completeness auto
termination
  by (relation "measure (\<lambda>(t, iv, ls, lc, b). length b)") (auto dest: DecodeRune_size [OF _ sym])

declare nfcLoop.simps [simp del]

definition isNFC :: "nfc_tables \<Rightarrow> bytes \<Rightarrow> bool" where
  "isNFC t b = (if \<not> utf8_Valid b then False else nfcLoop t [] None 0 b)"

subsection \<open>The component grammar\<close>

definition slash :: byte where "slash = 0x2F"
definition backslash :: byte where "backslash = 0x5C"
definition dot :: byte where "dot = 0x2E"
definition colon :: byte where "colon = 0x3A"

lemmas path_byte_defs = slash_def backslash_def dot_def colon_def

definition isASCIILetter :: "byte \<Rightarrow> bool" where
  "isASCIILetter b \<longleftrightarrow> (b \<ge> 0x61 \<and> b \<le> 0x7A) \<or> (b \<ge> 0x41 \<and> b \<le> 0x5A)"

definition isAbsoluteComponent :: "bytes \<Rightarrow> bool" where
  "isAbsoluteComponent c = (length c \<ge> 2 \<and> isASCIILetter (c ! 0) \<and> c ! 1 = colon)"

definition asciiUpper :: "byte \<Rightarrow> byte" where
  "asciiUpper b = (if b \<ge> 0x61 \<and> b \<le> 0x7A then b - 0x20 else b)"

definition isWindowsReserved :: "bytes \<Rightarrow> bool" where
  "isWindowsReserved c =
     (if last c = dot \<or> last c = 0x20 then True
      else
        let base = takeWhile (\<lambda>b. b \<noteq> dot) c in
        if base = [] \<or> length base > 4 then False
        else
          let s = map asciiUpper base in
          if s \<in> {bytes_of ''CON'', bytes_of ''PRN'', bytes_of ''AUX'', bytes_of ''NUL''} then True
          else length s = 4 \<and> (take 3 s = bytes_of ''COM'' \<or> take 3 s = bytes_of ''LPT'') \<and>
               s ! 3 \<ge> 0x31 \<and> s ! 3 \<le> 0x39)"

fun scanSep :: "bytes \<Rightarrow> int \<Rightarrow> path_error option" where
  "scanSep [] index = None"
| "scanSep (b # bs) index =
     (if b = 0 then Some (reject RuleNUL index ''component contains NUL'')
      else if b = slash \<or> b = backslash then Some (reject RuleSep index ''component contains separator'')
      else scanSep bs index)"

definition validateComponent :: "nfc_tables \<Rightarrow> bytes \<Rightarrow> int \<Rightarrow> path_profile \<Rightarrow> path_error option" where
  "validateComponent t c index profile =
     (if c = [] then Some (reject RuleEmpty index ''empty component'')
      else if length c > MaxComponentBytes then Some (reject RuleLen index ''component exceeds MaxComponentBytes'')
      else if length c = 1 \<and> c ! 0 = dot then Some (reject RuleDot index ''component is .'')
      else if length c = 2 \<and> c ! 0 = dot \<and> c ! 1 = dot then Some (reject RuleDotDot index ''component is ..'')
      else
        case scanSep c index of
          Some e \<Rightarrow> Some e
        | None \<Rightarrow>
            if isAbsoluteComponent c then Some (reject RuleAbs index ''component is an absolute path form'')
            else if \<not> utf8_Valid c then Some (reject RuleUTF8 index ''component is not well-formed UTF-8'')
            else if list_ex (\<lambda>b. b < 0x20 \<or> b = 0x7F) c
              then Some (reject RuleCtrl index ''component contains control character'')
            else if \<not> isNFC t c then Some (reject RuleNorm index ''component is not Unicode NFC'')
            else if WindowsReserved profile \<and> isWindowsReserved c
              then Some (reject RuleWinRes index ''component matches Windows reserved name'')
            else None)"

fun validateLoop :: "nfc_tables \<Rightarrow> path_profile \<Rightarrow> nat \<Rightarrow> nat \<Rightarrow> bytes list \<Rightarrow> path_error option" where
  "validateLoop t profile i budget [] = None"
| "validateLoop t profile i budget (c # cs) =
     (case validateComponent t c (int i) profile of
        Some err \<Rightarrow> Some err
      | None \<Rightarrow>
          if budget + length c > MaxPathBytes
            then Some (reject RuleBudget (int i) ''sum of component bytes exceeds MaxPathBytes'')
          else validateLoop t profile (i + 1) (budget + length c) cs)"

definition ValidateComponents :: "nfc_tables \<Rightarrow> bytes list \<Rightarrow> path_profile \<Rightarrow> path_error option" where
  "ValidateComponents t components profile =
     (if components = [] then Some (reject RuleEmpty (-1) ''path requires at least one component'')
      else if length components > MaxComponents
        then Some (reject RuleCount (-1) ''component count exceeds MaxComponents'')
      else validateLoop t profile 0 0 components)"

definition ValidateComponentsDefault :: "nfc_tables \<Rightarrow> bytes list \<Rightarrow> path_error option" where
  "ValidateComponentsDefault t components = ValidateComponents t components DefaultProfile"

definition isAbsoluteJoined :: "bytes \<Rightarrow> bool" where
  "isAbsoluteJoined s =
     (if s = [] then False
      else if s ! 0 = slash \<or> s ! 0 = backslash then True
      else length s \<ge> 2 \<and> isASCIILetter (s ! 0) \<and> s ! 1 = colon)"

text \<open>\<open>splitSlash\<close>: the loop keeps the bytes since the last separator.\<close>

fun splitSlashLoop :: "bytes \<Rightarrow> bytes \<Rightarrow> bytes list" where
  "splitSlashLoop cur [] = [cur]"
| "splitSlashLoop cur (b # bs) = (if b = slash then cur # splitSlashLoop [] bs else splitSlashLoop (cur @ [b]) bs)"

definition splitSlash :: "bytes \<Rightarrow> bytes list" where
  "splitSlash s = (if s = [] then [] else splitSlashLoop [] s)"

definition ValidateJoined :: "nfc_tables \<Rightarrow> bytes \<Rightarrow> path_profile \<Rightarrow> path_error + bytes list" where
  "ValidateJoined t joined profile =
     (if joined = [] then Inl (reject RuleEmpty (-1) ''empty path string'')
      else if isAbsoluteJoined joined then Inl (reject RuleAbs (-1) ''absolute path string'')
      else
        let comps = splitSlash joined in
        case ValidateComponents t comps profile of
          Some err \<Rightarrow> Inl err
        | None \<Rightarrow> Inr comps)"

subsection \<open>Descriptor-relative resolution\<close>

text \<open>
  The file system a resolution talks to is an environment that may answer differently every
  time it is asked: its answers depend on the number of questions asked before.  The model
  records every call with its answer, so that properties can speak of what was observed.
\<close>

datatype object_type = TypeUnknown | TypeDir | TypeFile | TypeSymlink | TypeOther

record file_info =
  fi_Type :: object_type
  fi_ID :: u64
  fi_Volume :: u64
  fi_LinkCount :: u32
  fi_Mode :: u32

record root_identity =
  ri_Volume :: u64
  ri_AllowedVolumes :: "u64 list"

record resolve_opts =
  ro_Root :: root_identity
  ro_AllowHardLinks :: bool
  ro_RequireDir :: bool
  ro_ExpectFinal :: object_type

type_synonym fd = nat

record fs_env =
  env_ctxErr :: "nat \<Rightarrow> string option"
  env_open :: "nat \<Rightarrow> fd \<Rightarrow> bytes \<Rightarrow> string + fd"
  env_info :: "nat \<Rightarrow> fd \<Rightarrow> string + file_info"
  env_isDir :: "fd \<Rightarrow> bool"

datatype fs_event = EvCtx "string option" | EvOpen fd bytes "string + fd" | EvInfo fd "string + file_info" | EvClose fd

definition volumeAllowed :: "u64 \<Rightarrow> root_identity \<Rightarrow> bool" where
  "volumeAllowed v root =
     (if ri_Volume root = 0 \<and> ri_AllowedVolumes root = [] then True
      else if v = ri_Volume root then True
      else list_ex (\<lambda>a. v = a) (ri_AllowedVolumes root))"

definition lastComponent :: "nat \<Rightarrow> nat \<Rightarrow> bool" where
  "lastComponent i n \<longleftrightarrow> int i = int n - 1"

definition checkOpened :: "file_info \<Rightarrow> nat \<Rightarrow> bool \<Rightarrow> resolve_opts \<Rightarrow> path_error option" where
  "checkOpened info i isLast opts =
     (if fi_Type info = TypeSymlink then Some (reject RuleLink (int i) ''symlink encountered'')
      else if fi_Type info = TypeOther \<or> fi_Type info = TypeUnknown
        then Some (reject RuleType (int i) ''unsupported object type'')
      else
        let needDir = (\<not> isLast \<or> ro_RequireDir opts) in
        if needDir \<and> fi_Type info \<noteq> TypeDir then Some (reject RuleType (int i) ''expected directory'')
        else if isLast \<and> ro_ExpectFinal opts \<noteq> TypeUnknown \<and> fi_Type info \<noteq> ro_ExpectFinal opts
          then Some (reject RuleType (int i) ''final object type mismatch'')
        else if \<not> ro_AllowHardLinks opts \<and> fi_Type info \<noteq> TypeDir \<and> fi_LinkCount info > 1
          then Some (reject RulePolicy (int i) ''hard link not permitted'')
        else if \<not> volumeAllowed (fi_Volume info) (ro_Root opts)
          then Some (reject RuleVolume (int i) ''unauthorized mount/volume'')
        else None)"

definition sameIdentity :: "file_info \<Rightarrow> file_info \<Rightarrow> bool" where
  "sameIdentity a b \<longleftrightarrow> fi_Type a = fi_Type b \<and> fi_ID a = fi_ID b \<and> fi_Volume a = fi_Volume b \<and>
     fi_LinkCount a = fi_LinkCount b"

text \<open>Closing a chain goes from the last descriptor to the first.\<close>

definition closeAll :: "fd list \<Rightarrow> fs_event list" where
  "closeAll fds = map EvClose (rev fds)"

definition ChainClose :: "(fd \<Rightarrow> string option) \<Rightarrow> fd list \<Rightarrow> fs_event list \<times> string option" where
  "ChainClose closeErr fds =
     (closeAll fds, foldl (\<lambda>first f. if first = None then closeErr f else first) None (rev fds))"

text \<open>
  The loop of \<open>Resolve\<close>.  \<open>log\<close> is what has happened so far, \<open>out\<close> the descriptors held; on
  failure they are closed and no descriptor is returned.
\<close>

fun resolveLoop :: "fs_env \<Rightarrow> resolve_opts \<Rightarrow> nat \<Rightarrow> fs_event list \<Rightarrow> fd \<Rightarrow> fd list \<Rightarrow> nat \<Rightarrow> bytes list \<Rightarrow>
    fs_event list \<times> (path_error + fd list)" where
  "resolveLoop env opts n log parent out i [] = (log, Inr out)"
| "resolveLoop env opts n log parent out i (name # names) =
     (case env_ctxErr env (length log) of
        Some e \<Rightarrow> (log @ [EvCtx (Some e)] @ closeAll out, Inl (reject RuleOpen (int i) e))
      | None \<Rightarrow>
      let log = log @ [EvCtx None]; opened = env_open env (length log) parent name;
          log = log @ [EvOpen parent name opened] in
      case opened of
        Inl e \<Rightarrow> (log @ closeAll out, Inl (reject RuleOpen (int i) e))
      | Inr f \<Rightarrow>
      let answer = env_info env (length log) f; log = log @ [EvInfo f answer] in
      case answer of
        Inl e \<Rightarrow> (log @ [EvClose f] @ closeAll out, Inl (reject RuleOpen (int i) (''post-open info: '' @ e)))
      | Inr info \<Rightarrow>
      case checkOpened info i (lastComponent i n) opts of
        Some err \<Rightarrow> (log @ [EvClose f] @ closeAll out, Inl err)
      | None \<Rightarrow>
      let answer2 = env_info env (length log) f; log = log @ [EvInfo f answer2] in
      case answer2 of
        Inl e \<Rightarrow> (log @ [EvClose f] @ closeAll out, Inl (reject RuleOpen (int i) (''post-open recheck: '' @ e)))
      | Inr info2 \<Rightarrow>
      if \<not> sameIdentity info info2
        then (log @ [EvClose f] @ closeAll out, Inl (reject RuleIdent (int i) ''object identity changed after open''))
      else if fi_Type info = TypeDir then
        (if \<not> env_isDir env f
           then (log @ closeAll (out @ [f]), Inl (reject RuleType (int i) ''directory lacks Dir interface''))
         else resolveLoop env opts n log f (out @ [f]) (i + 1) names)
      else if \<not> lastComponent i n
        then (log @ closeAll (out @ [f]), Inl (reject RuleType (int i) ''intermediate component is not a directory''))
      else resolveLoop env opts n log parent (out @ [f]) (i + 1) names)"

definition Resolve :: "nfc_tables \<Rightarrow> fs_env \<Rightarrow> fd option \<Rightarrow> bytes list \<Rightarrow> resolve_opts \<Rightarrow> path_profile \<Rightarrow>
    fs_event list \<times> (path_error + fd list)" where
  "Resolve t env root components opts profile =
     (case root of
        None \<Rightarrow> ([], Inl (reject RuleOpen (-1) ''nil root descriptor''))
      | Some r \<Rightarrow>
      case ValidateComponents t components profile of
        Some err \<Rightarrow> ([], Inl err)
      | None \<Rightarrow>
      let answer = env_info env 0 r; log = [EvInfo r answer] in
      case answer of
        Inl e \<Rightarrow> (log, Inl (reject RuleOpen (-1) (''root info: '' @ e)))
      | Inr rootInfo \<Rightarrow>
      if fi_Type rootInfo \<noteq> TypeDir then (log, Inl (reject RuleType (-1) ''root is not a directory''))
      else if ri_Volume (ro_Root opts) \<noteq> 0 \<and> fi_Volume rootInfo \<noteq> ri_Volume (ro_Root opts)
        then (log, Inl (reject RuleVolume (-1) ''root volume does not match conferred identity''))
      else resolveLoop env opts (length components) log r [] 0 components)"

subsection \<open>Library lemmas\<close>

lemma scanSep_None: "scanSep c i = None \<longleftrightarrow> 0 \<notin> set c \<and> slash \<notin> set c \<and> backslash \<notin> set c"
  by (induction c) auto

text \<open>What a component must satisfy, in one place.\<close>

definition component_ok :: "nfc_tables \<Rightarrow> path_profile \<Rightarrow> bytes \<Rightarrow> bool" where
  "component_ok t profile c \<longleftrightarrow>
     c \<noteq> [] \<and> length c \<le> MaxComponentBytes \<and> c \<noteq> [dot] \<and> c \<noteq> [dot, dot] \<and>
     0 \<notin> set c \<and> slash \<notin> set c \<and> backslash \<notin> set c \<and> \<not> isAbsoluteComponent c \<and>
     utf8_Valid c \<and> list_all (\<lambda>b. 0x20 \<le> b \<and> b \<noteq> 0x7F) c \<and> isNFC t c \<and>
     \<not> (WindowsReserved profile \<and> isWindowsReserved c)"

lemma dot_forms:
  "length c = 1 \<and> c ! 0 = dot \<longleftrightarrow> c = [dot]"
  "length c = 2 \<and> c ! 0 = dot \<and> c ! 1 = dot \<longleftrightarrow> c = [dot, dot]"
  by (auto simp: length_Suc_conv numeral_2_eq_2 One_nat_def)

lemma validateComponent_None: "validateComponent t c i profile = None \<longleftrightarrow> component_ok t profile c"
proof -
  have ctrl: "list_ex (\<lambda>b. b < 0x20 \<or> b = 0x7F) c \<longleftrightarrow> \<not> list_all (\<lambda>b. 0x20 \<le> b \<and> b \<noteq> (0x7F :: byte)) c"
    by (auto simp: list_ex_iff list_all_iff not_le not_less)
  show ?thesis
    unfolding validateComponent_def component_ok_def dot_forms ctrl
    using scanSep_None [of c i] by (auto split: option.split)
qed

lemma validateLoop_None:
  "budget \<le> MaxPathBytes \<Longrightarrow>
   validateLoop t profile i budget cs = None \<longleftrightarrow>
   list_all (component_ok t profile) cs \<and> budget + sum_list (map length cs) \<le> MaxPathBytes"
proof (induction cs arbitrary: i budget)
  case (Cons c cs)
  have "validateLoop t profile i budget (c # cs) = None \<longleftrightarrow> component_ok t profile c \<and>
      budget + length c \<le> MaxPathBytes \<and> validateLoop t profile (i + 1) (budget + length c) cs = None"
    using validateComponent_None [of t c "int i" profile] by (auto split: option.split)
  with Cons.IH [of "budget + length c" "i + 1"] show ?case
    by auto
qed simp

lemma ValidateComponents_None:
  "ValidateComponents t cs profile = None \<longleftrightarrow>
   cs \<noteq> [] \<and> length cs \<le> MaxComponents \<and> sum_list (map length cs) \<le> MaxPathBytes \<and>
   list_all (component_ok t profile) cs"
  using validateLoop_None [of 0 t profile 0 cs] by (auto simp: ValidateComponents_def)

text \<open>Splitting at separators is the inverse of joining.\<close>

fun join_slash :: "bytes list \<Rightarrow> bytes" where
  "join_slash [] = []"
| "join_slash [c] = c"
| "join_slash (c # cs) = c @ slash # join_slash cs"

lemma splitSlashLoop_nonempty [simp]: "splitSlashLoop cur s \<noteq> []"
  by (induction s arbitrary: cur) auto

lemma join_split: "join_slash (splitSlashLoop cur s) = cur @ s"
proof (induction s arbitrary: cur)
  case (Cons b s)
  show ?case
  proof (cases "b = slash")
    case True
    obtain x xs where x: "splitSlashLoop [] s = x # xs"
      by (metis neq_Nil_conv splitSlashLoop_nonempty)
    with Cons.IH [of "[]"] True show ?thesis
      by simp
  qed (use Cons.IH in simp)
qed simp

lemma split_join:
  assumes "list_all (\<lambda>c. slash \<notin> set c) (c # cs)"
  shows "splitSlashLoop cur (join_slash (c # cs)) = (cur @ c) # cs"
proof -
  have plain: "splitSlashLoop cur (c @ rest) = splitSlashLoop (cur @ c) rest" if "slash \<notin> set c" for cur c rest
    using that by (induction c arbitrary: cur) auto
  show ?thesis
    using assms
  proof (induction cs arbitrary: c cur)
    case Nil
    then show ?case
      using plain [of c cur "[]"] by simp
  next
    case (Cons d cs)
    then show ?case
      using plain [of c cur "slash # join_slash (d # cs)"] by simp
  qed
qed

lemma join_slash_relative:
  assumes "component_ok t profile c"
  shows "join_slash (c # cs) \<noteq> []" and "\<not> isAbsoluteJoined (join_slash (c # cs))"
proof -
  obtain b bs where c: "c = b # bs"
    using assms by (cases c) (auto simp: component_ok_def)
  obtain rest where s: "join_slash (c # cs) = b # rest" and rest: "rest = (if cs = [] then bs else bs @ slash # join_slash cs)"
    by (cases cs) (simp_all add: c)
  have b: "b \<noteq> slash" "b \<noteq> backslash" and drive: "bs \<noteq> [] \<Longrightarrow> \<not> (isASCIILetter b \<and> hd bs = colon)"
    using assms by (auto simp: component_ok_def c isAbsoluteComponent_def neq_Nil_conv)
  have "slash \<noteq> colon"
    by (simp add: path_byte_defs)
  then have "rest \<noteq> [] \<Longrightarrow> \<not> (isASCIILetter b \<and> hd rest = colon)"
    using drive by (cases bs) (auto simp: rest split: if_splits)
  with b show "join_slash (c # cs) \<noteq> []" "\<not> isAbsoluteJoined (join_slash (c # cs))"
    by (cases rest; auto simp: s isAbsoluteJoined_def)+
qed

lemma ValidateJoined_exact:
  "ValidateJoined t s profile = Inr cs \<longleftrightarrow> ValidateComponents t cs profile = None \<and> s = join_slash cs"
proof
  assume *: "ValidateJoined t s profile = Inr cs"
  then have "s \<noteq> []" "cs = splitSlash s" "ValidateComponents t cs profile = None"
    by (auto simp: ValidateJoined_def Let_def split: if_splits option.splits)
  then show "ValidateComponents t cs profile = None \<and> s = join_slash cs"
    by (simp add: splitSlash_def join_split)
next
  assume *: "ValidateComponents t cs profile = None \<and> s = join_slash cs"
  then obtain c cs' where cs: "cs = c # cs'" "component_ok t profile c" and all: "list_all (component_ok t profile) cs"
    by (cases cs) (auto simp: ValidateComponents_None)
  have "list_all (\<lambda>c. slash \<notin> set c) cs"
    using all by (auto simp: list_all_iff component_ok_def)
  then have "splitSlash s = cs"
    using * split_join [of c cs' "[]"] join_slash_relative [OF cs(2), of cs'] by (simp add: splitSlash_def cs(1))
  with * join_slash_relative [OF cs(2), of cs'] show "ValidateJoined t s profile = Inr cs"
    by (simp add: ValidateJoined_def cs(1))
qed

text \<open>The binary search.\<close>

lemma searchLoop_correct:
  assumes "i \<le> j" "j \<le> n" "\<forall>k < i. \<not> f k" "\<forall>k. j \<le> k \<and> k < n \<longrightarrow> f k"
    and mono: "\<And>a b. a \<le> b \<Longrightarrow> b < n \<Longrightarrow> f a \<Longrightarrow> f b"
  shows "searchLoop f i j \<le> n \<and> (\<forall>k < searchLoop f i j. \<not> f k) \<and> (\<forall>k. searchLoop f i j \<le> k \<and> k < n \<longrightarrow> f k)"
  using assms(1-4)
proof (induction "j - i" arbitrary: i j rule: less_induct)
  case less
  show ?case
  proof (cases "i < j")
    case True
    define h where "h = (i + j) div 2"
    then have h: "i \<le> h" "h < j"
      using True by auto
    show ?thesis
    proof (cases "f h")
      case fh: True
      have up: "\<forall>k. h \<le> k \<and> k < n \<longrightarrow> f k"
        using mono fh by blast
      have eq: "searchLoop f i j = searchLoop f i h"
        using True fh by (subst searchLoop.simps) (simp add: Let_def h_def)
      show ?thesis
        unfolding eq by (rule less.hyps [OF _ h(1) _ less.prems(3) up]) (use h less.prems(2) in auto)
    next
      case fh: False
      have low: "\<forall>k < h + 1. \<not> f k"
      proof (intro allI impI)
        fix k assume "k < h + 1"
        then show "\<not> f k"
          using mono [of k h] fh h less.prems(2) by auto
      qed
      have eq: "searchLoop f i j = searchLoop f (h + 1) j"
        using True fh by (subst searchLoop.simps) (simp add: Let_def h_def)
      show ?thesis
        unfolding eq by (rule less.hyps [OF _ _ less.prems(2) low less.prems(4)]) (use h in auto)
    qed
  next
    case False
    then have "searchLoop f i j = i"
      by (simp add: searchLoop.simps [of f i j])
    then show ?thesis
      using less.prems False by simp
  qed
qed

lemma runeInSorted_iff:
  assumes "sorted xs"
  shows "runeInSorted xs r \<longleftrightarrow> r \<in> set xs"
proof -
  define m where "m = searchLoop (\<lambda>i. xs ! i \<ge> r) 0 (length xs)"
  have "m \<le> length xs \<and> (\<forall>k < m. \<not> xs ! k \<ge> r) \<and> (\<forall>k. m \<le> k \<and> k < length xs \<longrightarrow> xs ! k \<ge> r)"
    unfolding m_def
  proof (rule searchLoop_correct)
    show "xs ! b \<ge> r" if "a \<le> b" "b < length xs" "xs ! a \<ge> r" for a b
      using sorted_nth_mono [OF assms that(1,2)] that(3) by simp
  qed auto
  then have low: "k < m \<Longrightarrow> xs ! k < r" and up: "m \<le> k \<Longrightarrow> k < length xs \<Longrightarrow> r \<le> xs ! k" for k
    by auto
  have "m < length xs \<and> xs ! m = r" if k: "k < length xs" "xs ! k = r" for k
  proof -
    have le: "m \<le> k"
      using low [of k] k(2) by (cases "k < m") auto
    then show ?thesis
      using up [of m] k sorted_nth_mono [OF assms le] by auto
  qed
  then show ?thesis
    unfolding runeInSorted_def Let_def m_def [symmetric] by (auto simp: in_set_conv_nth)
qed

text \<open>Resolution.\<close>

definition safe_object :: "file_info \<Rightarrow> bool \<Rightarrow> resolve_opts \<Rightarrow> bool" where
  "safe_object info isLast opts \<longleftrightarrow>
     (fi_Type info = TypeDir \<or> isLast \<and> \<not> ro_RequireDir opts \<and> fi_Type info = TypeFile \<and>
        (ro_AllowHardLinks opts \<or> fi_LinkCount info \<le> 1)) \<and>
     (isLast \<and> ro_ExpectFinal opts \<noteq> TypeUnknown \<longrightarrow> fi_Type info = ro_ExpectFinal opts) \<and>
     volumeAllowed (fi_Volume info) (ro_Root opts)"

lemma checkOpened_None: "checkOpened info i isLast opts = None \<longleftrightarrow> safe_object info isLast opts"
  by (cases "fi_Type info") (auto simp: checkOpened_def safe_object_def Let_def)

fun opened_fds :: "fs_event list \<Rightarrow> fd list" where
  "opened_fds [] = []"
| "opened_fds (EvOpen d nm (Inr f) # es) = f # opened_fds es"
| "opened_fds (e # es) = opened_fds es"

fun closed_fds :: "fs_event list \<Rightarrow> fd list" where
  "closed_fds [] = []"
| "closed_fds (EvClose f # es) = f # closed_fds es"
| "closed_fds (e # es) = closed_fds es"

lemma opened_fds_append [simp]: "opened_fds (a @ b) = opened_fds a @ opened_fds b"
  by (induction a rule: opened_fds.induct) simp_all

lemma closed_fds_append [simp]: "closed_fds (a @ b) = closed_fds a @ closed_fds b"
  by (induction a rule: closed_fds.induct) simp_all

lemma closeAll_fds [simp]: "opened_fds (closeAll fds) = []" "closed_fds (closeAll fds) = rev fds"
proof -
  have "opened_fds (map EvClose xs) = []" "closed_fds (map EvClose xs) = xs" for xs
    by (induction xs) simp_all
  then show "opened_fds (closeAll fds) = []" "closed_fds (closeAll fds) = rev fds"
    by (simp_all add: closeAll_def)
qed

definition held :: "path_error + fd list \<Rightarrow> fd list" where
  "held res = (case res of Inr fds \<Rightarrow> fds | Inl e \<Rightarrow> [])"

text \<open>One component either ends the resolution with everything closed, or adds one checked descriptor.\<close>

lemma resolveLoop_step:
  assumes "resolveLoop env opts n log parent out i (name # names) = (log', res)"
  obtains (failed) es err where "log' = log @ es" "res = Inl err" "mset (opened_fds es) + mset out = mset (closed_fds es)"
  | (opened) f info info2 where "checkOpened info i (lastComponent i n) opts = None" "sameIdentity info info2"
      "fi_Type info = TypeDir \<or> lastComponent i n"
      "resolveLoop env opts n (log @ [EvCtx None, EvOpen parent name (Inr f), EvInfo f (Inr info), EvInfo f (Inr info2)])
         (if fi_Type info = TypeDir then f else parent) (out @ [f]) (i + 1) names = (log', res)"
proof (cases "env_ctxErr env (length log)")
  case (Some e)
  with assms show ?thesis
    by (intro failed [of "EvCtx (Some e) # closeAll out"]) auto
next
  case ctx: None
  let ?l1 = "log @ [EvCtx None]"
  show ?thesis
  proof (cases "env_open env (length ?l1) parent name")
    case (Inl e)
    with assms ctx show ?thesis
      by (intro failed [of "[EvCtx None, EvOpen parent name (Inl e)] @ closeAll out"]) auto
  next
    case op: (Inr f)
    let ?e2 = "[EvCtx None, EvOpen parent name (Inr f)]"
    show ?thesis
    proof (cases "env_info env (length (log @ ?e2)) f")
      case (Inl e)
      with assms ctx op show ?thesis
        by (intro failed [of "?e2 @ [EvInfo f (Inl e), EvClose f] @ closeAll out"]) auto
    next
      case i1: (Inr info)
      let ?e3 = "?e2 @ [EvInfo f (Inr info)]"
      show ?thesis
      proof (cases "checkOpened info i (lastComponent i n) opts")
        case (Some e)
        with assms ctx op i1 show ?thesis
          by (intro failed [of "?e3 @ [EvClose f] @ closeAll out"]) auto
      next
        case chk: None
        show ?thesis
        proof (cases "env_info env (length (log @ ?e3)) f")
          case (Inl e)
          with assms ctx op i1 chk show ?thesis
            by (intro failed [of "?e3 @ [EvInfo f (Inl e), EvClose f] @ closeAll out"]) auto
        next
          case i2: (Inr info2)
          let ?e4 = "?e3 @ [EvInfo f (Inr info2)]"
          consider "\<not> sameIdentity info info2" | "sameIdentity info info2" "fi_Type info = TypeDir" "\<not> env_isDir env f"
            | "sameIdentity info info2" "fi_Type info \<noteq> TypeDir" "\<not> lastComponent i n"
            | "sameIdentity info info2" "fi_Type info = TypeDir" "env_isDir env f"
            | "sameIdentity info info2" "fi_Type info \<noteq> TypeDir" "lastComponent i n"
            by blast
          then show ?thesis
          proof cases
            case 1
            with assms ctx op i1 chk i2 show ?thesis
              by (intro failed [of "?e4 @ [EvClose f] @ closeAll out"]) auto
          next
            case 2
            with assms ctx op i1 chk i2 show ?thesis
              by (intro failed [of "?e4 @ closeAll (out @ [f])"]) auto
          next
            case 3
            with assms ctx op i1 chk i2 show ?thesis
              by (intro failed [of "?e4 @ closeAll (out @ [f])"]) auto
          next
            case 4
            with assms ctx op i1 chk i2 show ?thesis
              by (intro opened [of info info2 f]) auto
          next
            case 5
            with assms ctx op i1 chk i2 show ?thesis
              by (intro opened [of info info2 f]) auto
          qed
        qed
      qed
    qed
  qed
qed

lemma resolveLoop_balance:
  assumes "resolveLoop env opts n log parent out i names = (log', res)"
    and "mset (opened_fds log) = mset (closed_fds log) + mset out"
  shows "mset (opened_fds log') = mset (closed_fds log') + mset (held res)"
  using assms
proof (induction names arbitrary: log parent out i)
  case (Cons name names)
  from Cons.prems(1) show ?case
  proof (cases rule: resolveLoop_step)
    case (failed es err)
    then show ?thesis
      using Cons.prems(2) by (simp add: held_def add.commute)
  next
    case (opened f info info2)
    from Cons.IH [OF opened(4)] Cons.prems(2) show ?thesis
      by simp
  qed
qed (auto simp: held_def)

text \<open>
  What the calls of a successful resolution must be: for each component in turn the context check,
  the open relative to the descriptor before it, and two observations of the new descriptor, one
  directly after the other, that agree on the object's identity and of which the first meets the
  object rules.  Nothing else happens.
\<close>

fun chain_safe :: "resolve_opts \<Rightarrow> fd \<Rightarrow> bytes list \<Rightarrow> fd list \<Rightarrow> fs_event list \<Rightarrow> bool" where
  "chain_safe opts parent [] fds log \<longleftrightarrow> fds = [] \<and> log = []"
| "chain_safe opts parent (name # names) (f # fds) (EvCtx None # EvOpen d n (Inr g) # EvInfo x (Inr info) # EvInfo y (Inr info2) # log) \<longleftrightarrow>
     d = parent \<and> n = name \<and> g = f \<and> x = f \<and> y = f \<and> sameIdentity info info2 \<and> safe_object info (names = []) opts \<and>
     chain_safe opts f names fds log"
| "chain_safe opts parent (name # names) fds log \<longleftrightarrow> False"

lemma resolveLoop_safe:
  assumes "resolveLoop env opts n log parent out i names = (log', Inr fds)" and "n = i + length names"
  shows "\<exists>hs es. fds = out @ hs \<and> log' = log @ es \<and> chain_safe opts parent names hs es"
  using assms
proof (induction names arbitrary: log parent out i)
  case (Cons name names)
  from Cons.prems(1) show ?case
  proof (cases rule: resolveLoop_step)
    case (opened f info info2)
    let ?es = "[EvCtx None, EvOpen parent name (Inr f), EvInfo f (Inr info), EvInfo f (Inr info2)]"
    have isLast: "lastComponent i n \<longleftrightarrow> names = []"
      using Cons.prems(2) by (auto simp: lastComponent_def)
    obtain hs es where hs: "fds = (out @ [f]) @ hs" "log' = (log @ ?es) @ es"
      "chain_safe opts (if fi_Type info = TypeDir then f else parent) names hs es"
      using Cons.IH [OF opened(4)] Cons.prems(2) by auto
    have "chain_safe opts f names hs es"
      using hs(3) opened(3) by (cases names) (auto simp: isLast split: if_splits)
    then show ?thesis
      using hs(1,2) opened(1,2)
      by (intro exI [of _ "f # hs"] exI [of _ "?es @ es"]) (simp add: checkOpened_None isLast)
  qed simp
qed simp

subsection \<open>What is proved of paths\<close>

text \<open>
  C23: the grammar is exactly the documented one.  A component sequence is accepted if and only if
  it is non-empty, within the count and byte budgets, and every component is non-empty, at most
  255 bytes, not a dot name, free of NUL, separators and control characters, not a drive form,
  well-formed UTF-8 and in normal form C, and not a reserved name where the profile forbids them.
\<close>

theorem path_grammar_exact:
  "ValidateComponents t components profile = None \<longleftrightarrow>
   components \<noteq> [] \<and> length components \<le> 1024 \<and> sum_list (map length components) \<le> 4096 \<and>
   list_all (\<lambda>c. c \<noteq> [] \<and> length c \<le> 255 \<and> c \<noteq> [dot] \<and> c \<noteq> [dot, dot] \<and>
     0 \<notin> set c \<and> slash \<notin> set c \<and> backslash \<notin> set c \<and> \<not> isAbsoluteComponent c \<and>
     utf8_Valid c \<and> list_all (\<lambda>b. 0x20 \<le> b \<and> b \<noteq> 0x7F) c \<and> isNFC t c \<and>
     \<not> (WindowsReserved profile \<and> isWindowsReserved c)) components"
  unfolding ValidateComponents_None path_limit_defs
  by (simp add: list_all_iff component_ok_def path_limit_defs)

text \<open>
  C24: resolution leaks no descriptor.  Whatever the file system answers, every descriptor opened
  during \<open>Resolve\<close> is either closed exactly once or returned to the caller, and on failure none
  is returned.
\<close>

theorem resolve_no_descriptor_leak:
  "case Resolve t env root components opts profile of
     (log, res) \<Rightarrow> mset (opened_fds log) =
       mset (closed_fds log) + mset (case res of Inr fds \<Rightarrow> fds | Inl e \<Rightarrow> [])"
proof -
  obtain log res where r: "Resolve t env root components opts profile = (log, res)"
    by fastforce
  have "mset (opened_fds log) = mset (closed_fds log) + mset (held res)"
    using r by (auto simp: Resolve_def Let_def held_def split: option.splits sum.splits if_splits
        dest!: resolveLoop_balance)
  then show ?thesis
    by (simp add: r held_def)
qed

text \<open>
  C25: a resolved chain is confined.  On success the components satisfy the grammar, the root is a
  directory on the conferred volume, and the calls made are exactly these: each component was
  opened relative to the descriptor before it, starting at the root, and the new descriptor was
  observed twice in a row, with the same type, object, volume and link count both times; it is a
  directory, or a singly linked regular file in last position where the options permit one, on an
  allowed volume, and of the expected type: never a symbolic link.  None of them is closed.
\<close>

theorem resolve_confined:
  assumes "Resolve t env (Some root) components opts profile = (log, Inr fds)"
  shows "ValidateComponents t components profile = None \<and>
    (\<exists>rootInfo es. log = EvInfo root (Inr rootInfo) # es \<and> fi_Type rootInfo = TypeDir \<and>
       (ri_Volume (ro_Root opts) \<noteq> 0 \<longrightarrow> fi_Volume rootInfo = ri_Volume (ro_Root opts)) \<and>
       chain_safe opts root components fds es)"
  using assms
  by (auto simp: Resolve_def Let_def split: option.splits sum.splits if_splits dest!: resolveLoop_safe)

definition sample_tables :: nfc_tables where
  "sample_tables = \<lparr>nfcCCC = (\<lambda>_. 0), nfcQCNo = [], nfcCompose = (\<lambda>_. None)\<rparr>"

definition sample_dir :: file_info where
  "sample_dir = \<lparr>fi_Type = TypeDir, fi_ID = 7, fi_Volume = 3, fi_LinkCount = 2, fi_Mode = 0\<rparr>"

definition sample_env :: fs_env where
  "sample_env = \<lparr>env_ctxErr = (\<lambda>_. None), env_open = (\<lambda>_ d name. Inr (d + 1)), env_info = (\<lambda>_ _. Inr sample_dir),
     env_isDir = (\<lambda>_. True)\<rparr>"

definition sample_opts :: resolve_opts where
  "sample_opts = \<lparr>ro_Root = \<lparr>ri_Volume = 3, ri_AllowedVolumes = []\<rparr>, ro_AllowHardLinks = False,
     ro_RequireDir = True, ro_ExpectFinal = TypeDir\<rparr>"

lemma sample_component_ok: "ValidateComponents sample_tables [[0x61], [0x62]] DefaultProfile = None"
proof -
  have "component_ok sample_tables DefaultProfile [b]" if "b = 0x61 \<or> b = 0x62" for b
    using that
    by (auto simp: component_ok_def path_limit_defs path_byte_defs isAbsoluteComponent_def utf8_Valid.simps [of "[_]"]
        utf8_Valid.simps [of "[]"] isNFC_def nfcLoop.simps [of _ _ _ _ "[_]"] nfcLoop.simps [of _ _ _ _ "[]"]
        DefaultProfile_def sample_tables_def RuneError_def runeInSorted_def)
  then show ?thesis
    by (simp add: ValidateComponents_None path_limit_defs)
qed

theorem resolve_confined_witness:
  "\<exists>log es. Resolve sample_tables sample_env (Some 5) [[0x61], [0x62]] sample_opts DefaultProfile = (log, Inr [6, 7]) \<and>
     log = EvInfo 5 (Inr sample_dir) # es \<and> chain_safe sample_opts 5 [[0x61], [0x62]] [6, 7] es"
proof -
  obtain log where r: "Resolve sample_tables sample_env (Some 5) [[0x61], [0x62]] sample_opts DefaultProfile = (log, Inr [6, 7])"
      and h: "hd log = EvInfo 5 (Inr sample_dir)"
    by (simp add: Resolve_def sample_component_ok sample_env_def sample_dir_def sample_opts_def checkOpened_def
        lastComponent_def volumeAllowed_def sameIdentity_def Let_def)
  from resolve_confined [OF r] h have "\<exists>es. log = EvInfo 5 (Inr sample_dir) # es \<and> chain_safe sample_opts 5 [[0x61], [0x62]] [6, 7] es"
    by auto
  with r show ?thesis
    by blast
qed

end
