(* ===== verification/Compare.thy ===== *)
theory Compare
  imports Prelude "HOL-Library.Multiset"
begin

text \<open>
  Three-way comparison functions in the style of Go's \<open>bytes.Compare\<close>, their lexicographic lift,
  and the insertion sort that the planner runs with three of them.  The contract of a comparison
  is a locale; the sort is proved correct once, for every comparison that meets it.
\<close>

subsection \<open>Insertion sort on an array\<close>

text \<open>The inner loop: the element at position \<open>j\<close> is swapped down while its neighbour is greater.\<close>

fun sinkLoop :: "('a \<Rightarrow> 'a \<Rightarrow> int) \<Rightarrow> 'a list \<Rightarrow> nat \<Rightarrow> 'a list" where
  "sinkLoop cmp out 0 = out"
| "sinkLoop cmp out (Suc j) =
     (if cmp (out ! j) (out ! Suc j) > 0 then sinkLoop cmp (out[j := out ! Suc j, Suc j := out ! j]) j
      else out)"

definition insertionSort :: "('a \<Rightarrow> 'a \<Rightarrow> int) \<Rightarrow> 'a list \<Rightarrow> 'a list" where
  "insertionSort cmp xs = fold (\<lambda>i out. sinkLoop cmp out i) [1..<length xs] xs"

lemma length_sinkLoop [simp]: "length (sinkLoop cmp out j) = length out"
  by (induction cmp out j rule: sinkLoop.induct) auto

lemma mset_sinkLoop: "j < length out \<Longrightarrow> mset (sinkLoop cmp out j) = mset out"
proof (induction cmp out j rule: sinkLoop.induct)
  case (2 cmp out j)
  then have "mset (out[j := out ! Suc j, Suc j := out ! j]) = mset out"
    using mset_swap [of "Suc j" out j] by (simp add: list_update_swap)
  with 2 show ?case
    by simp
qed simp

lemma nth_sinkLoop_above: "j < k \<Longrightarrow> sinkLoop cmp out j ! k = out ! k"
  by (induction cmp out j rule: sinkLoop.induct) auto

subsection \<open>The contract of a comparison\<close>

locale comparison =
  fixes cmp :: "'a \<Rightarrow> 'a \<Rightarrow> int"
  assumes flip: "cmp b a = - cmp a b"
    and trans: "cmp a b \<le> 0 \<Longrightarrow> cmp b c \<le> 0 \<Longrightarrow> cmp a c \<le> 0"
begin

lemma refl [simp]: "cmp a a = 0"
  using flip [of a a] by simp

lemma gt_iff: "cmp a b > 0 \<longleftrightarrow> cmp b a < 0"
  using flip [of a b] by simp

lemma strict_trans: "cmp a b < 0 \<Longrightarrow> cmp b c \<le> 0 \<Longrightarrow> cmp a c < 0"
  using trans [of a b c] trans [of b c a] flip [of a c] flip [of a b] flip [of b c] by fastforce

lemma strict_trans2: "cmp a b \<le> 0 \<Longrightarrow> cmp b c < 0 \<Longrightarrow> cmp a c < 0"
  using trans [of a b c] trans [of c a b] flip [of a c] flip [of a b] flip [of b c] by fastforce

lemma eq_cong: "cmp a b = 0 \<Longrightarrow> (cmp a c \<le> 0 \<longleftrightarrow> cmp b c \<le> 0)"
  using trans [of a b c] trans [of b a c] flip [of a b] by fastforce

abbreviation ascending :: "'a list \<Rightarrow> bool" where
  "ascending \<equiv> sorted_wrt (\<lambda>a b. cmp a b \<le> 0)"

text \<open>
  During the inner loop everything up to the start index except position \<open>j\<close> is in order, and
  what lies above \<open>j\<close> is not smaller than the sinking element.
\<close>

definition sunk :: "'a list \<Rightarrow> nat \<Rightarrow> nat \<Rightarrow> bool" where
  "sunk out j i \<longleftrightarrow> (\<forall>a b. a < b \<longrightarrow> b \<le> i \<longrightarrow> b \<noteq> j \<longrightarrow> cmp (out ! a) (out ! b) \<le> 0)"

lemma sunk_swap:
  assumes "sunk out (Suc j) i" and "Suc j \<le> i" and "i < length out" and "cmp (out ! j) (out ! Suc j) > 0"
  shows "sunk (out[j := out ! Suc j, Suc j := out ! j]) j i"
proof -
  have s: "cmp (out ! a) (out ! b) \<le> 0" if "a < b" "b \<le> i" "b \<noteq> Suc j" for a b
    using assms(1) that by (simp add: sunk_def)
  have lt: "cmp (out ! Suc j) (out ! j) \<le> 0"
    using assms(4) gt_iff by fastforce
  have "cmp (out[j := out ! Suc j, Suc j := out ! j] ! a) (out[j := out ! Suc j, Suc j := out ! j] ! b) \<le> 0"
    if ab: "a < b" "b \<le> i" "b \<noteq> j" for a b
  proof -
    consider "b = Suc j" "a = j" | "b = Suc j" "a < j" | "b \<noteq> Suc j" "a = j" "Suc j < b" | "b \<noteq> Suc j" "a = Suc j"
      | "b \<noteq> Suc j" "a \<noteq> j" "a \<noteq> Suc j"
      using ab by linarith
    then show ?thesis
      using assms(2,3) ab s [of a b] s [of a j] s [of j b] s [of "Suc j" b] lt by cases auto
  qed
  then show ?thesis
    by (simp add: sunk_def)
qed

lemma sinkLoop_sorts:
  "sunk out j i \<Longrightarrow> j \<le> i \<Longrightarrow> i < length out \<Longrightarrow> a < b \<Longrightarrow> b \<le> i \<Longrightarrow>
   cmp (sinkLoop cmp out j ! a) (sinkLoop cmp out j ! b) \<le> 0"
proof (induction j arbitrary: out)
  case 0
  then show ?case
    by (simp add: sunk_def)
next
  case (Suc j)
  show ?case
  proof (cases "cmp (out ! j) (out ! Suc j) > 0")
    case True
    with Suc.prems sunk_swap [OF Suc.prems(1,2,3) True] Suc.IH [of "out[j := out ! Suc j, Suc j := out ! j]"]
    show ?thesis
      by simp
  next
    case False
    have "cmp (out ! a) (out ! b) \<le> 0"
    proof (cases "b = Suc j")
      case True
      have "a = j \<or> cmp (out ! a) (out ! j) \<le> 0"
        using Suc.prems(1,2,4) True by (auto simp: sunk_def less_Suc_eq)
      with False True show ?thesis
        using trans [of "out ! a" "out ! j" "out ! Suc j"] by auto
    next
      case b: False
      with Suc.prems show ?thesis
        by (simp add: sunk_def)
    qed
    with False show ?thesis
      by simp
  qed
qed

lemma insertionSort_prefix:
  "n \<le> length xs \<Longrightarrow> n \<ge> 1 \<Longrightarrow>
   let out = fold (\<lambda>i out. sinkLoop cmp out i) [1..<n] xs
   in length out = length xs \<and> mset out = mset xs \<and> (\<forall>a b. a < b \<longrightarrow> b < n \<longrightarrow> cmp (out ! a) (out ! b) \<le> 0)"
proof (induction n)
  case (Suc n)
  show ?case
  proof (cases "n = 0")
    case False
    define out where "out = fold (\<lambda>i out. sinkLoop cmp out i) [Suc 0..<n] xs"
    have IH: "length out = length xs" "mset out = mset xs" "\<forall>a b. a < b \<longrightarrow> b < n \<longrightarrow> cmp (out ! a) (out ! b) \<le> 0"
      using Suc.IH Suc.prems False by (simp_all add: Let_def out_def)
    then have "sunk out n n"
      by (simp add: sunk_def)
    with sinkLoop_sorts [of out n n] IH Suc.prems mset_sinkLoop [of n out cmp] False show ?thesis
      by (simp add: out_def [symmetric] less_Suc_eq_le Let_def)
  qed simp
qed simp

lemma insertionSort_mset: "mset (insertionSort cmp xs) = mset xs"
  using insertionSort_prefix [of "length xs" xs] by (cases xs) (auto simp: insertionSort_def Let_def)

lemma insertionSort_ascending: "ascending (insertionSort cmp xs)"
  using insertionSort_prefix [of "length xs" xs]
  by (cases "xs = []") (auto simp: insertionSort_def Let_def sorted_wrt_iff_nth_less Suc_le_eq)

text \<open>A strictly ascending list is the only ascending arrangement of its elements.\<close>

lemma strict_unique:
  "sorted_wrt (\<lambda>a b. cmp a b < 0) xs \<Longrightarrow> ascending ys \<Longrightarrow> mset xs = mset ys \<Longrightarrow> xs = ys"
proof (induction xs arbitrary: ys)
  case (Cons x xs)
  then obtain y ys' where ys: "ys = y # ys'"
    by (cases ys) auto
  have sets: "set (x # xs) = set ys"
    using Cons.prems(3) by (metis set_mset_mset)
  have "x = y"
  proof (rule ccontr)
    assume "x \<noteq> y"
    then have "y \<in> set xs" "x \<in> set ys'"
      using sets by (auto simp: ys)
    with Cons.prems(1,2) have "cmp x y < 0" "cmp y x \<le> 0"
      by (auto simp: ys)
    with flip [of x y] show False
      by simp
  qed
  with Cons show ?case
    by (simp add: ys)
qed simp

end

subsection \<open>Comparisons that decide equality\<close>

locale total_comparison = comparison +
  assumes zero: "cmp a b = 0 \<Longrightarrow> a = b"
begin

lemma zero_iff [simp]: "cmp a b = 0 \<longleftrightarrow> a = b"
  using zero by auto

lemma neg_trans: "cmp a b < 0 \<Longrightarrow> cmp b c < 0 \<Longrightarrow> cmp a c < 0"
  using strict_trans [of a b c] by simp

end

text \<open>Go's comparison of integers, and the lexicographic comparison of slices.\<close>

definition wordCompare :: "('w::len) word \<Rightarrow> 'w word \<Rightarrow> int" where
  "wordCompare a b = (if a < b then - 1 else if a > b then 1 else 0)"

fun lexCompare :: "('a \<Rightarrow> 'a \<Rightarrow> int) \<Rightarrow> 'a list \<Rightarrow> 'a list \<Rightarrow> int" where
  "lexCompare cmp (a # as) (b # bs) = (let c = cmp a b in if c \<noteq> 0 then c else lexCompare cmp as bs)"
| "lexCompare cmp [] [] = 0"
| "lexCompare cmp [] (b # bs) = - 1"
| "lexCompare cmp (a # as) [] = 1"

interpretation word_cmp: total_comparison wordCompare
  by unfold_locales (auto simp: wordCompare_def split: if_splits)

lemma lexCompare_total:
  assumes "total_comparison cmp"
  shows "total_comparison (lexCompare cmp)"
proof -
  note law = total_comparison.zero_iff [OF assms] total_comparison.axioms(1) [OF assms]
  note fl = comparison.flip [OF law(2)]
  have flip: "lexCompare cmp ys xs = - lexCompare cmp xs ys" for xs ys
  proof (induction xs ys rule: list_induct2')
    case (4 x xs y ys)
    then show ?case
      using fl [of x y] by (simp add: Let_def)
  qed simp_all
  have zero: "lexCompare cmp xs ys = 0 \<Longrightarrow> xs = ys" for xs ys
    by (induction xs ys rule: list_induct2') (use law(1) in \<open>auto simp: Let_def split: if_splits\<close>)
  have trans: "lexCompare cmp xs ys \<le> 0 \<Longrightarrow> lexCompare cmp ys zs \<le> 0 \<Longrightarrow> lexCompare cmp xs zs \<le> 0" for xs ys zs
  proof (induction xs arbitrary: ys zs)
    case Nil
    then show ?case
      by (cases zs) auto
  next
    case (Cons x xs)
    then obtain y ys' where ys: "ys = y # ys'"
      by (cases ys) auto
    with Cons obtain z zs' where zs: "zs = z # zs'"
      by (cases zs) auto
    have le: "cmp x y \<le> 0" "cmp y z \<le> 0"
      using Cons.prems by (auto simp: ys zs Let_def split: if_splits)
    then consider "cmp x y < 0" | "cmp y z < 0" | "x = y" "y = z"
      using law(1) by (metis order_le_less)
    then show ?case
    proof cases
      case 1
      then show ?thesis
        using comparison.strict_trans [OF law(2) 1 le(2)] by (simp add: zs)
    next
      case 2
      then show ?thesis
        using comparison.strict_trans2 [OF law(2) le(1) 2] by (simp add: zs)
    next
      case 3
      then show ?thesis
        using Cons.prems Cons.IH [of ys' zs'] law(1) by (simp add: ys zs)
    qed
  qed
  show ?thesis
    by (intro total_comparison.intro comparison.intro total_comparison_axioms.intro) (fact flip, fact trans, fact zero)
qed

definition bytesCompare :: "bytes \<Rightarrow> bytes \<Rightarrow> int" where
  "bytesCompare = lexCompare wordCompare"

interpretation bytes_cmp: total_comparison bytesCompare
  unfolding bytesCompare_def by (rule lexCompare_total) (rule word_cmp.total_comparison_axioms)

text \<open>A comparison of keys is a comparison; a tie can be broken by another comparison.\<close>

definition thenCompare :: "int \<Rightarrow> int \<Rightarrow> int" where
  "thenCompare c d = (if c \<noteq> 0 then c else d)"

lemma comparison_then:
  assumes "comparison f" and "comparison g"
  shows "comparison (\<lambda>a b. thenCompare (f a b) (g a b))"
proof (rule comparison.intro)
  show "thenCompare (f b a) (g b a) = - thenCompare (f a b) (g a b)" for a b
    using comparison.flip [OF assms(1), of a b] comparison.flip [OF assms(2), of a b] by (simp add: thenCompare_def)
  show "thenCompare (f a c) (g a c) \<le> 0"
    if "thenCompare (f a b) (g a b) \<le> 0" "thenCompare (f b c) (g b c) \<le> 0" for a b c
  proof -
    have "f a b \<le> 0" "f b c \<le> 0"
      using that by (auto simp: thenCompare_def split: if_splits)
    then consider "f a b < 0" | "f b c < 0" | "f a b = 0" "f b c = 0"
      by linarith
    then show ?thesis
    proof cases
      case 3
      then have "g a b \<le> 0" "g b c \<le> 0"
        using that by (simp_all add: thenCompare_def)
      moreover have "f a c \<le> 0"
        using 3 comparison.trans [OF assms(1), of a b c] by simp
      ultimately show ?thesis
        using comparison.trans [OF assms(2), of a b c] by (simp add: thenCompare_def)
    qed (use \<open>f a b \<le> 0\<close> \<open>f b c \<le> 0\<close> comparison.strict_trans [OF assms(1), of a b c]
        comparison.strict_trans2 [OF assms(1), of a b c] in \<open>auto simp: thenCompare_def\<close>)
  qed
qed

lemma comparison_key:
  assumes "comparison cmp"
  shows "comparison (\<lambda>a b. cmp (key a) (key b))"
  by (rule comparison.intro) (rule comparison.flip [OF assms], rule comparison.trans [OF assms])

end
