(* ===== verification/Encoding.thy ===== *)
theory Encoding
  imports Codec
begin

text \<open>
  Unambiguous concatenation.  Several components write their values one after the other with
  nothing but length prefixes between them: plan entries, transcript entries, record payloads.
  A prefix code is an encoding after which the rest of the input is determined; sequences of
  code words are then injective.
\<close>

locale prefix_code =
  fixes enc :: "'a \<Rightarrow> bytes"
    and ok :: "'a \<Rightarrow> bool"
  assumes split: "ok a \<Longrightarrow> ok b \<Longrightarrow> enc a @ x = enc b @ y \<Longrightarrow> a = b \<and> x = y"
begin

lemma inject: "ok a \<Longrightarrow> ok b \<Longrightarrow> enc a = enc b \<Longrightarrow> a = b"
  using split [of a b "[]" "[]"] by simp

lemma concat_split:
  "list_all ok as \<Longrightarrow> list_all ok bs \<Longrightarrow> length as = length bs \<Longrightarrow>
   concat (map enc as) @ x = concat (map enc bs) @ y \<Longrightarrow> as = bs \<and> x = y"
proof (induction as arbitrary: bs)
  case (Cons a as)
  then obtain b bs' where bs: "bs = b # bs'"
    by (cases bs) auto
  have "enc a @ concat (map enc as) @ x = enc b @ concat (map enc bs') @ y"
    using Cons.prems(4) by (simp add: bs)
  then have ab: "a = b" "concat (map enc as) @ x = concat (map enc bs') @ y"
    using split [of a b] Cons.prems(1,2) by (auto simp: bs)
  have "as = bs' \<and> x = y"
    by (rule Cons.IH [OF _ _ _ ab(2)]) (use Cons.prems(1-3) bs in auto)
  with ab show ?case
    by (simp add: bs)
qed simp

lemma concat_inject:
  assumes "\<And>a. ok a \<Longrightarrow> enc a \<noteq> []"
  shows "list_all ok as \<Longrightarrow> list_all ok bs \<Longrightarrow> concat (map enc as) = concat (map enc bs) \<Longrightarrow> as = bs"
proof (induction as arbitrary: bs)
  case Nil
  then show ?case
    using assms by (cases bs) auto
next
  case (Cons a as)
  then obtain b bs' where bs: "bs = b # bs'"
    using assms by (cases bs) auto
  have "enc a @ concat (map enc as) = enc b @ concat (map enc bs')"
    using Cons.prems(3) by (simp add: bs)
  then have "a = b" "concat (map enc as) = concat (map enc bs')"
    using split [of a b] Cons.prems(1,2) by (auto simp: bs)
  with Cons.IH [of bs'] Cons.prems(1,2) show ?case
    by (simp add: bs)
qed

end

text \<open>A byte string after its length as a 16-bit or 32-bit integer.\<close>

definition field16 :: "bytes \<Rightarrow> bytes" where
  "field16 b = PutU16LE (of_nat (length b)) @ b"

definition field32 :: "bytes \<Rightarrow> bytes" where
  "field32 b = PutU32LE (of_nat (length b)) @ b"

lemma of_nat_eq_small:
  assumes "m < 2 ^ LENGTH('w::len)" and "n < 2 ^ LENGTH('w)" and "(of_nat m :: 'w word) = of_nat n"
  shows "m = n"
proof -
  have "m = unat (of_nat m :: 'w word)"
    by (rule unat_of_nat_small [OF assms(1), symmetric])
  also have "\<dots> = n"
    unfolding assms(3) by (rule unat_of_nat_small [OF assms(2)])
  finally show ?thesis .
qed

lemma Put_append:
  "PutU16LE v @ x = PutU16LE w @ y \<longleftrightarrow> v = w \<and> x = y"
  "PutU32LE v' @ x = PutU32LE w' @ y \<longleftrightarrow> v' = w' \<and> x = y"
  "PutU64LE v'' @ x = PutU64LE w'' @ y \<longleftrightarrow> v'' = w'' \<and> x = y"
  by simp_all

interpretation field16_code: prefix_code field16 "\<lambda>b. length b < 2 ^ 16"
proof
  fix a b x y :: bytes
  assume len: "length a < 2 ^ 16" "length b < 2 ^ 16" and eq: "field16 a @ x = field16 b @ y"
  have l: "(of_nat (length a) :: u16) = of_nat (length b)" and ax: "a @ x = b @ y"
    using eq unfolding field16_def append_assoc Put_append by blast+
  have "length a = length b"
    using of_nat_eq_small [OF _ _ l] len by simp
  with ax show "a = b \<and> x = y"
    by simp
qed

interpretation field32_code: prefix_code field32 "\<lambda>b. length b < 2 ^ 32"
proof
  fix a b x y :: bytes
  assume len: "length a < 2 ^ 32" "length b < 2 ^ 32" and eq: "field32 a @ x = field32 b @ y"
  have l: "(of_nat (length a) :: u32) = of_nat (length b)" and ax: "a @ x = b @ y"
    using eq unfolding field32_def append_assoc Put_append by blast+
  have "length a = length b"
    using of_nat_eq_small [OF _ _ l] len by simp
  with ax show "a = b \<and> x = y"
    by simp
qed

text \<open>A sequence of 16-bit fields after their number.\<close>

definition fields16 :: "bytes list \<Rightarrow> bytes" where
  "fields16 bs = PutU16LE (of_nat (length bs)) @ concat (map field16 bs)"

interpretation fields16_code: prefix_code fields16 "\<lambda>bs. length bs < 2 ^ 16 \<and> list_all (\<lambda>b. length b < 2 ^ 16) bs"
proof
  fix as bs :: "bytes list" and x y :: bytes
  assume ok: "length as < 2 ^ 16 \<and> list_all (\<lambda>b. length b < 2 ^ 16) as"
    "length bs < 2 ^ 16 \<and> list_all (\<lambda>b. length b < 2 ^ 16) bs" and eq: "fields16 as @ x = fields16 bs @ y"
  have l: "(of_nat (length as) :: u16) = of_nat (length bs)"
    and rest: "concat (map field16 as) @ x = concat (map field16 bs) @ y"
    using eq unfolding fields16_def append_assoc Put_append by blast+
  have "length as = length bs"
    using of_nat_eq_small [OF _ _ l] ok by simp
  with rest ok show "as = bs \<and> x = y"
    by (intro field16_code.concat_split) blast+
qed

end
