(* ===== verification/Planner.thy ===== *)
theory Planner
  imports Path Compare Encoding
begin

text \<open>
  The planner (\<open>src/internal/plan\<close>): classifications are ordered, validated and resolved under a
  policy, and an authorisable plan is encoded canonically.
\<close>

subsection \<open>Codes, inputs and errors\<close>

definition PlanVersion :: u16 where "PlanVersion = 1"
definition MaxDefaultEntries :: u32 where "MaxDefaultEntries = 2 ^ 20"
definition MaxDefaultPlanBytes :: u32 where "MaxDefaultPlanBytes = 16 * 2 ^ 20"
definition MaxDefaultCapabilityComparisons :: u32 where "MaxDefaultCapabilityComparisons = 2 ^ 24"
definition PlanMagic :: bytes where "PlanMagic = bytes_of ''INTPLAN1''"

type_synonym action_code = u16
type_synonym result_code = u16
type_synonym capability_id = u16

definition ActionCreate :: action_code where "ActionCreate = 1"
definition ActionReplace :: action_code where "ActionReplace = 2"
definition ActionMetadataUpdate :: action_code where "ActionMetadataUpdate = 3"
definition ActionQuarantineDelete :: action_code where "ActionQuarantineDelete = 4"
definition ActionSkipIdentical :: action_code where "ActionSkipIdentical = 5"

definition ValidAction :: "action_code \<Rightarrow> bool" where
  "ValidAction a \<longleftrightarrow> a \<ge> ActionCreate \<and> a \<le> ActionSkipIdentical"

definition IsDestructive :: "action_code \<Rightarrow> bool" where
  "IsDestructive a \<longleftrightarrow> a = ActionQuarantineDelete"

definition ResultLossless :: result_code where "ResultLossless = 1"
definition ResultWrapped :: result_code where "ResultWrapped = 2"
definition ResultUnrepresentable :: result_code where "ResultUnrepresentable = 3"
definition ResultPolicyForbidden :: result_code where "ResultPolicyForbidden = 4"
definition ResultUnknown :: result_code where "ResultUnknown = 5"

lemmas action_defs = ActionCreate_def ActionReplace_def ActionMetadataUpdate_def ActionQuarantineDelete_def
  ActionSkipIdentical_def

lemmas result_defs = ResultLossless_def ResultWrapped_def ResultUnrepresentable_def ResultPolicyForbidden_def
  ResultUnknown_def

definition ValidResult :: "result_code \<Rightarrow> bool" where
  "ValidResult r \<longleftrightarrow> r \<ge> ResultLossless \<and> r \<le> ResultUnknown"

definition BlocksAuthorization :: "result_code \<Rightarrow> bool" where
  "BlocksAuthorization r \<longleftrightarrow> r = ResultUnrepresentable \<or> r = ResultPolicyForbidden \<or> r = ResultUnknown"

definition CapIdentity :: capability_id where "CapIdentity = 1"
definition CapDurability :: capability_id where "CapDurability = 20"

definition KnownCapability :: "capability_id \<Rightarrow> bool" where
  "KnownCapability ident \<longleftrightarrow> ident \<ge> CapIdentity \<and> ident \<le> CapDurability"

record classification =
  c_Path :: "bytes list"
  c_CapabilityID :: capability_id
  c_Action :: action_code
  c_Result :: result_code
  c_RepresentationIDs :: "u16 list"
  c_AuxDigest :: digest

record plan_policy =
  WrapAllowList :: "u16 list"
  RepresentationAllowList :: "u16 list"

record plan_limits =
  MaxEntries :: u32
  MaxPlanBytes :: u32
  MaxCapabilityComparisons :: u32

definition ResolveLimits :: "plan_limits \<Rightarrow> plan_limits" where
  "ResolveLimits l =
     \<lparr>MaxEntries = (if MaxEntries l = 0 then MaxDefaultEntries else MaxEntries l),
      MaxPlanBytes = (if MaxPlanBytes l = 0 then MaxDefaultPlanBytes else MaxPlanBytes l),
      MaxCapabilityComparisons =
        (if MaxCapabilityComparisons l = 0 then MaxDefaultCapabilityComparisons else MaxCapabilityComparisons l)\<rparr>"

record canonical_input =
  ManifestDigest :: digest
  CapabilityVectorDigest :: digest
  ConfigurationDigest :: digest
  Classifications :: "classification list"
  input_Policy :: plan_policy
  input_Limits :: plan_limits

record blocking_item =
  b_Path :: "bytes list"
  b_CapabilityID :: capability_id
  b_Result :: result_code

record preflight =
  Blocking :: "blocking_item list"

definition Authorized :: "preflight \<Rightarrow> bool" where
  "Authorized p \<longleftrightarrow> length (Blocking p) = 0"

record plan =
  plan_Bytes :: bytes
  plan_Digest :: digest

record plan_entry =
  e_Path :: "bytes list"
  e_CapabilityID :: capability_id
  e_Action :: action_code
  e_Result :: result_code
  e_RepresentationID :: u16
  e_AuxDigest :: digest

datatype plan_kind = KindRefuse | PlanLimit | PlanNonCanonical | PlanUnsupported

record plan_error =
  ple_Kind :: plan_kind
  ple_Field :: string
  ple_Message :: string

definition plan_refuse :: "string \<Rightarrow> string \<Rightarrow> plan_error" where
  "plan_refuse field msg = \<lparr>ple_Kind = KindRefuse, ple_Field = field, ple_Message = msg\<rparr>"

definition plan_limit :: "string \<Rightarrow> string \<Rightarrow> plan_error" where
  "plan_limit field msg = \<lparr>ple_Kind = PlanLimit, ple_Field = field, ple_Message = msg\<rparr>"

definition plan_nonCanonical :: "string \<Rightarrow> string \<Rightarrow> plan_error" where
  "plan_nonCanonical field msg = \<lparr>ple_Kind = PlanNonCanonical, ple_Field = field, ple_Message = msg\<rparr>"

definition plan_unsupported :: "string \<Rightarrow> string \<Rightarrow> plan_error" where
  "plan_unsupported field msg = \<lparr>ple_Kind = PlanUnsupported, ple_Field = field, ple_Message = msg\<rparr>"

subsection \<open>Order\<close>

definition comparePathComponents :: "bytes list \<Rightarrow> bytes list \<Rightarrow> int" where
  "comparePathComponents = lexCompare bytesCompare"

definition compareEntries :: "plan_entry \<Rightarrow> plan_entry \<Rightarrow> int" where
  "compareEntries a b =
     thenCompare (comparePathComponents (e_Path a) (e_Path b))
       (thenCompare (wordCompare (e_CapabilityID a) (e_CapabilityID b)) (wordCompare (e_Action a) (e_Action b)))"

definition compareClassifications :: "classification \<Rightarrow> classification \<Rightarrow> int" where
  "compareClassifications a b =
     thenCompare (comparePathComponents (c_Path a) (c_Path b))
       (thenCompare (wordCompare (c_CapabilityID a) (c_CapabilityID b)) (wordCompare (c_Action a) (c_Action b)))"

definition sortClassifications :: "classification list \<Rightarrow> classification list" where
  "sortClassifications = insertionSort compareClassifications"

definition sortEntries :: "plan_entry list \<Rightarrow> plan_entry list" where
  "sortEntries = insertionSort compareEntries"

definition sortUint16 :: "u16 list \<Rightarrow> u16 list" where
  "sortUint16 = insertionSort wordCompare"

definition allowContains :: "u16 list \<Rightarrow> u16 \<Rightarrow> bool" where
  "allowContains xs ident = list_ex (\<lambda>v. v = ident) xs"

subsection \<open>Encoding\<close>

fun encodeComponents :: "bytes list \<Rightarrow> plan_error + bytes" where
  "encodeComponents [] = Inr []"
| "encodeComponents (c # cs) =
     (if length c > 65535 then Inl (plan_limit ''component'' ''exceeds u16 length'')
      else case encodeComponents cs of
             Inl e \<Rightarrow> Inl e
           | Inr rest \<Rightarrow> Inr (PutU16LE (of_nat (length c)) @ c @ rest))"

definition encodeEntry :: "plan_entry \<Rightarrow> plan_error + bytes" where
  "encodeEntry e =
     (if length (e_Path e) > 65535 then Inl (plan_limit ''path_component_count'' ''exceeds u16'')
      else case encodeComponents (e_Path e) of
             Inl err \<Rightarrow> Inl err
           | Inr comps \<Rightarrow>
               Inr (PutU16LE (of_nat (length (e_Path e))) @ comps @ PutU16LE (e_CapabilityID e) @
                    PutU16LE (e_Action e) @ PutU16LE (e_Result e) @ PutU16LE (e_RepresentationID e) @
                    e_AuxDigest e))"

fun encodeEntries :: "plan_entry list \<Rightarrow> plan_error + bytes" where
  "encodeEntries [] = Inr []"
| "encodeEntries (e # es) =
     (case encodeEntry e of
        Inl err \<Rightarrow> Inl err
      | Inr enc \<Rightarrow> (case encodeEntries es of Inl err \<Rightarrow> Inl err | Inr rest \<Rightarrow> Inr (enc @ rest)))"

fun measurePlanBody :: "plan_entry list \<Rightarrow> plan_error + nat" where
  "measurePlanBody [] = Inr 0"
| "measurePlanBody (e # es) =
     (case encodeEntry e of
        Inl err \<Rightarrow> Inl err
      | Inr enc \<Rightarrow> (case measurePlanBody es of Inl err \<Rightarrow> Inl err | Inr n \<Rightarrow> Inr (length enc + n)))"

definition encodePlan :: "digest \<Rightarrow> digest \<Rightarrow> digest \<Rightarrow> plan_entry list \<Rightarrow> digest \<Rightarrow> plan_error + (bytes \<times> digest)" where
  "encodePlan manifestDigest capDigest cfgDigest entries destructiveDigest =
     (if length entries > 4294967295 then Inl (plan_limit ''entry_count'' ''exceeds u32'')
      else
        case measurePlanBody entries of
          Inl err \<Rightarrow> Inl err
        | Inr bodyLen \<Rightarrow>
            case encodeEntries entries of
              Inl err \<Rightarrow> Inl err
            | Inr body \<Rightarrow>
                let buf = PlanMagic @ PutU16LE PlanVersion @ manifestDigest @ capDigest @ cfgDigest @
                          PutU32LE (of_nat (length entries)) @ body @ destructiveDigest;
                    digest = SHA256 buf
                in Inr (buf @ digest, digest))"

fun encodeDestructiveSubset :: "plan_entry list \<Rightarrow> bytes" where
  "encodeDestructiveSubset [] = []"
| "encodeDestructiveSubset (e # es) =
     (if \<not> IsDestructive (e_Action e) then encodeDestructiveSubset es
      else case encodeEntry e of
             Inl err \<Rightarrow> encodeDestructiveSubset es
           | Inr enc \<Rightarrow> enc @ encodeDestructiveSubset es)"

definition PlanDigest :: "plan \<Rightarrow> digest" where
  "PlanDigest p =
     (if length (plan_Bytes p) < DigestSize then SHA256 (plan_Bytes p)
      else SHA256 (take (length (plan_Bytes p) - DigestSize) (plan_Bytes p)))"

subsection \<open>Planning\<close>

definition validateClassification :: "nfc_tables \<Rightarrow> classification \<Rightarrow> plan_error option" where
  "validateClassification t c =
     (case ValidateComponentsDefault t (c_Path c) of
        Some err \<Rightarrow> Some (plan_nonCanonical ''path'' (path_error_text err))
      | None \<Rightarrow>
          if \<not> ValidAction (c_Action c) then Some (plan_unsupported ''action_code'' ''unknown or zero action'')
          else if \<not> ValidResult (c_Result c) then Some (plan_unsupported ''result_code'' ''unknown or zero result'')
          else if c_CapabilityID c = 0 then Some (plan_unsupported ''capability_id'' ''zero capability id'')
          else if \<not> KnownCapability (c_CapabilityID c) then None
          else if length (c_RepresentationIDs c) > unat MaxDefaultCapabilityComparisons
            then Some (plan_limit ''representation_ids'' ''exceeds MaxCapabilityComparisons'')
          else None)"

text \<open>The loop of \<open>pickRepresentation\<close> carries the best candidate so far.\<close>

fun pickLoop :: "u16 list \<Rightarrow> bool \<Rightarrow> u16 \<times> bool \<Rightarrow> u16 list \<Rightarrow> u16 \<times> bool" where
  "pickLoop allow emptyAllowAll (best, found) [] = (best, found)"
| "pickLoop allow emptyAllowAll (best, found) (ident # ids) =
     (let eligible = (if length allow > 0 then allowContains allow ident else emptyAllowAll \<and> length allow = 0) in
      if ident = 0 then pickLoop allow emptyAllowAll (best, found) ids
      else if \<not> eligible then pickLoop allow emptyAllowAll (best, found) ids
      else if \<not> found \<or> ident < best then pickLoop allow emptyAllowAll (ident, True) ids
      else pickLoop allow emptyAllowAll (best, found) ids)"

definition pickRepresentation :: "u16 list \<Rightarrow> u16 list \<Rightarrow> bool \<Rightarrow> u16 \<times> bool" where
  "pickRepresentation candidates allow emptyAllowAll =
     (let sorted_ids = sortUint16 candidates;
          (best, found) = pickLoop allow emptyAllowAll (0, False) sorted_ids in
      if \<not> found \<and> length sorted_ids = 0 \<and> emptyAllowAll then (0, True) else (best, found))"

definition resolveClassification ::
  "classification \<Rightarrow> u16 list \<Rightarrow> u16 list \<Rightarrow> plan_error + (plan_entry \<times> bool)" where
  "resolveClassification c wrapAllow repAllow =
     (let e = \<lparr>e_Path = c_Path c, e_CapabilityID = c_CapabilityID c, e_Action = c_Action c, e_Result = c_Result c,
               e_RepresentationID = 0, e_AuxDigest = c_AuxDigest c\<rparr> in
      if \<not> KnownCapability (c_CapabilityID c) then Inr (e\<lparr>e_Result := ResultUnknown\<rparr>, True)
      else if BlocksAuthorization (c_Result c) then Inr (e, True)
      else if c_Result c = ResultLossless then
        (let (ident, ok) = pickRepresentation (c_RepresentationIDs c) repAllow True in
         if \<not> ok \<and> length (c_RepresentationIDs c) > 0 then Inr (e\<lparr>e_Result := ResultPolicyForbidden\<rparr>, True)
         else Inr (e\<lparr>e_RepresentationID := ident\<rparr>, False))
      else if c_Result c = ResultWrapped then
        (let (ident, ok) = pickRepresentation (c_RepresentationIDs c) wrapAllow False in
         if \<not> ok then Inr (e\<lparr>e_Result := ResultPolicyForbidden\<rparr>, True)
         else Inr (e\<lparr>e_RepresentationID := ident\<rparr>, False))
      else Inl (plan_unsupported ''result_code'' ''unhandled result''))"

fun buildLoop :: "nfc_tables \<Rightarrow> u16 list \<Rightarrow> u16 list \<Rightarrow> classification option \<Rightarrow> plan_entry list \<Rightarrow> blocking_item list \<Rightarrow>
    classification list \<Rightarrow> plan_error + (plan_entry list \<times> blocking_item list)" where
  "buildLoop t wrapAllow repAllow prev entries blocking [] = Inr (entries, blocking)"
| "buildLoop t wrapAllow repAllow prev entries blocking (c # cs) =
     (case validateClassification t c of
        Some err \<Rightarrow> Inl err
      | None \<Rightarrow>
          if prev \<noteq> None \<and> compareClassifications (the prev) c = 0
            then Inl (plan_nonCanonical ''classifications'' ''duplicate path/capability/action'')
          else
            case resolveClassification c wrapAllow repAllow of
              Inl err \<Rightarrow> Inl err
            | Inr (resolved, block) \<Rightarrow>
                if block then
                  buildLoop t wrapAllow repAllow (Some c) entries
                    (blocking @ [\<lparr>b_Path = c_Path c, b_CapabilityID = c_CapabilityID c, b_Result = e_Result resolved\<rparr>]) cs
                else buildLoop t wrapAllow repAllow (Some c) (entries @ [resolved]) blocking cs)"

definition zero_plan :: plan where
  "zero_plan = \<lparr>plan_Bytes = [], plan_Digest = zero_digest\<rparr>"

definition Build :: "nfc_tables \<Rightarrow> canonical_input \<Rightarrow> plan \<times> preflight \<times> plan_error option" where
  "Build t inp =
     (let limits = ResolveLimits (input_Limits inp); none = \<lparr>Blocking = []\<rparr> in
      if length (Classifications inp) > unat (MaxCapabilityComparisons limits)
        then (zero_plan, none, Some (plan_limit ''classifications'' ''exceeds MaxCapabilityComparisons''))
      else if length (Classifications inp) > unat (MaxEntries limits)
        then (zero_plan, none, Some (plan_limit ''entries'' ''exceeds MaxEntries''))
      else
        let sorted_cs = sortClassifications (Classifications inp);
            wrapAllow = sortUint16 (WrapAllowList (input_Policy inp));
            repAllow = sortUint16 (RepresentationAllowList (input_Policy inp)) in
        case buildLoop t wrapAllow repAllow None [] [] sorted_cs of
          Inl err \<Rightarrow> (zero_plan, none, Some err)
        | Inr (entries, blocking) \<Rightarrow>
            let pf = \<lparr>Blocking = blocking\<rparr> in
            if length blocking > 0
              then (zero_plan, pf, Some (plan_refuse ''preflight'' ''blocking classifications refuse authorization''))
            else
              let entries = sortEntries entries;
                  destrDigest = SHA256 (encodeDestructiveSubset entries) in
              case encodePlan (ManifestDigest inp) (CapabilityVectorDigest inp) (ConfigurationDigest inp) entries destrDigest of
                Inl err \<Rightarrow> (zero_plan, pf, Some err)
              | Inr (bytes, digest) \<Rightarrow>
                  if length bytes > unat (MaxPlanBytes limits)
                    then (zero_plan, pf, Some (plan_limit ''plan_bytes'' ''exceeds MaxPlanBytes''))
                  else (\<lparr>plan_Bytes = bytes, plan_Digest = digest\<rparr>, pf, None))"

subsection \<open>The comparisons meet their contract\<close>

interpretation path_cmp: total_comparison comparePathComponents
  unfolding comparePathComponents_def by (rule lexCompare_total) (rule bytes_cmp.total_comparison_axioms)

interpretation entry_cmp: comparison compareEntries
  unfolding compareEntries_def
  by (rule comparison_then [OF comparison_key [where key = e_Path, OF path_cmp.comparison_axioms]
      comparison_then [OF comparison_key [where key = e_CapabilityID, OF word_cmp.comparison_axioms]
        comparison_key [where key = e_Action, OF word_cmp.comparison_axioms]]])

interpretation class_cmp: comparison compareClassifications
  unfolding compareClassifications_def
  by (rule comparison_then [OF comparison_key [where key = c_Path, OF path_cmp.comparison_axioms]
      comparison_then [OF comparison_key [where key = c_CapabilityID, OF word_cmp.comparison_axioms]
        comparison_key [where key = c_Action, OF word_cmp.comparison_axioms]]])

text \<open>The sort key, on which both orders agree.\<close>

definition class_key :: "classification \<Rightarrow> bytes list \<times> capability_id \<times> action_code" where
  "class_key c = (c_Path c, c_CapabilityID c, c_Action c)"

definition entry_key :: "plan_entry \<Rightarrow> bytes list \<times> capability_id \<times> action_code" where
  "entry_key e = (e_Path e, e_CapabilityID e, e_Action e)"

lemma compare_keys:
  "entry_key a = class_key c \<Longrightarrow> entry_key b = class_key d \<Longrightarrow> compareEntries a b = compareClassifications c d"
  by (simp add: entry_key_def class_key_def compareEntries_def compareClassifications_def)

context comparison
begin

lemma strict_of_successive:
  "ascending xs \<Longrightarrow> successively (\<lambda>a b. cmp a b \<noteq> 0) xs \<Longrightarrow> sorted_wrt (\<lambda>a b. cmp a b < 0) xs"
proof (induction xs)
  case (Cons x xs)
  show ?case
  proof (cases xs)
    case xs: (Cons y ys)
    have "cmp x y < 0" "ascending (y # ys)" "successively (\<lambda>a b. cmp a b \<noteq> 0) (y # ys)"
      using Cons.prems by (auto simp: xs)
    moreover from this have "cmp x z < 0" if "z \<in> set ys" for z
      using strict_trans [of x y z] that by simp
    ultimately show ?thesis
      using Cons.IH by (simp add: xs)
  qed simp
qed simp

end

subsection \<open>Choosing a representation\<close>

definition eligible_ids :: "u16 list \<Rightarrow> u16 list \<Rightarrow> bool \<Rightarrow> u16 set" where
  "eligible_ids candidates allow emptyAllowAll =
     {ident \<in> set candidates. ident \<noteq> 0 \<and> (if allow = [] then emptyAllowAll else ident \<in> set allow)}"

lemma allowContains_iff: "allowContains xs ident \<longleftrightarrow> ident \<in> set xs"
  by (auto simp: allowContains_def list_ex_iff)

lemma Min_insert_larger:
  assumes "finite S" and "y \<in> S" and "y \<le> x"
  shows "Min (insert x S) = Min S"
proof -
  have "Min S \<le> x"
    using Min_le [OF assms(1,2)] assms(3) by (rule order_trans)
  then show ?thesis
    using assms by (subst Min_insert) (auto simp: min_def)
qed

lemma pickLoop_exact:
  "pickLoop allow ea (best, found) ids =
     (let E = eligible_ids ids allow ea \<union> (if found then {best} else {}) in
      if E = {} then (best, found) else (Min E, True))"
proof (induction ids arbitrary: best found)
  case Nil
  then show ?case
    by (simp add: eligible_ids_def)
next
  case (Cons ident ids)
  let ?E = "eligible_ids ids allow ea"
  have fin: "finite ?E"
    by (simp add: eligible_ids_def)
  define good where "good \<longleftrightarrow> ident \<noteq> 0 \<and> (if allow = [] then ea else ident \<in> set allow)"
  have step: "eligible_ids (ident # ids) allow ea = (if good then insert ident ?E else ?E)"
    by (auto simp: eligible_ids_def good_def)
  have one: "pickLoop allow ea (best, found) (ident # ids) =
      pickLoop allow ea (if good \<and> (\<not> found \<or> ident < best) then (ident, True) else (best, found)) ids"
    by (simp add: allowContains_iff good_def)
  consider "\<not> good" | "good" "\<not> found" | "good" "found" "ident < best" | "good" "found" "\<not> ident < best"
    by blast
  then show ?case
  proof cases
    case 1
    then show ?thesis
      unfolding one step using Cons.IH [of best found] by simp
  next
    case 2
    then show ?thesis
      unfolding one step using Cons.IH [of ident True] by simp
  next
    case 3
    have "Min (insert best (insert ident ?E)) = Min (insert ident ?E)"
      by (rule Min_insert_larger [of _ ident]) (use 3 fin in auto)
    with 3 show ?thesis
      unfolding one step using Cons.IH [of ident True] by simp
  next
    case 4
    have "Min (insert ident (insert best ?E)) = Min (insert best ?E)"
      by (rule Min_insert_larger [of _ best]) (use 4 fin in auto)
    with 4 show ?thesis
      unfolding one step using Cons.IH [of best True] by (simp add: insert_commute)
  qed
qed

lemma sortUint16_mset: "mset (sortUint16 xs) = mset xs"
  unfolding sortUint16_def by (rule word_cmp.insertionSort_mset)

lemma sortUint16_set [simp]: "set (sortUint16 xs) = set xs"
  using sortUint16_mset by (metis set_mset_mset)

lemma sortUint16_length [simp]: "length (sortUint16 xs) = length xs"
  using sortUint16_mset by (metis size_mset)

lemma sortUint16_Nil [simp]: "sortUint16 xs = [] \<longleftrightarrow> xs = []"
  by (metis length_0_conv sortUint16_length)

lemma eligible_sort [simp]: "eligible_ids (sortUint16 cs) allow ea = eligible_ids cs allow ea"
  "eligible_ids cs (sortUint16 allow) ea = eligible_ids cs allow ea"
  by (simp_all add: eligible_ids_def)

lemma pickRepresentation_exact:
  "pickRepresentation candidates allow ea =
     (if eligible_ids candidates allow ea \<noteq> {} then (Min (eligible_ids candidates allow ea), True)
      else (0, candidates = [] \<and> ea))"
  by (auto simp: pickRepresentation_def pickLoop_exact Let_def)

lemma Min_eligible: "eligible_ids cs allow ea \<noteq> {} \<Longrightarrow> Min (eligible_ids cs allow ea) \<in> eligible_ids cs allow ea"
  by (rule Min_in) (simp_all add: eligible_ids_def)

subsection \<open>The planning loop\<close>

definition resolved :: "u16 list \<Rightarrow> u16 list \<Rightarrow> classification \<Rightarrow> plan_entry" where
  "resolved wrapAllow repAllow c = fst (projr (resolveClassification c wrapAllow repAllow))"

definition blocks :: "u16 list \<Rightarrow> u16 list \<Rightarrow> classification \<Rightarrow> bool" where
  "blocks wrapAllow repAllow c \<longleftrightarrow> snd (projr (resolveClassification c wrapAllow repAllow))"

definition blocking_of :: "u16 list \<Rightarrow> u16 list \<Rightarrow> classification \<Rightarrow> blocking_item" where
  "blocking_of wrapAllow repAllow c = \<lparr>b_Path = c_Path c, b_CapabilityID = c_CapabilityID c,
     b_Result = e_Result (resolved wrapAllow repAllow c)\<rparr>"

definition with_prev :: "classification option \<Rightarrow> classification list \<Rightarrow> classification list" where
  "with_prev prev cs = (case prev of None \<Rightarrow> cs | Some p \<Rightarrow> p # cs)"

lemma buildLoop_Inr:
  "buildLoop t w r prev es bs cs = Inr (es', bs') \<Longrightarrow>
   list_all (\<lambda>c. validateClassification t c = None) cs \<and>
   successively (\<lambda>a b. compareClassifications a b \<noteq> 0) (with_prev prev cs) \<and>
   es' = es @ map (resolved w r) (filter (\<lambda>c. \<not> blocks w r c) cs) \<and>
   bs' = bs @ map (blocking_of w r) (filter (blocks w r) cs)"
proof (induction cs arbitrary: prev es bs)
  case Nil
  then show ?case
    by (simp add: with_prev_def split: option.split)
next
  case (Cons c cs)
  from Cons.prems obtain e block where v: "validateClassification t c = None"
    and d: "\<not> (prev \<noteq> None \<and> compareClassifications (the prev) c = 0)"
    and res: "resolveClassification c w r = Inr (e, block)"
    by (auto split: option.splits if_splits sum.splits)
  have e: "resolved w r c = e" "blocks w r c = block"
    by (simp_all add: resolved_def blocks_def res)
  have "buildLoop t w r (Some c) (if block then es else es @ [e]) (if block then bs @ [blocking_of w r c] else bs) cs = Inr (es', bs')"
    using Cons.prems v d res by (auto simp: blocking_of_def e split: if_splits)
  from Cons.IH [OF this] v d e show ?case
    by (auto simp: with_prev_def split: option.split)
qed

lemma sortClassifications_laws:
  "mset (sortClassifications cs) = mset cs" "class_cmp.ascending (sortClassifications cs)"
  unfolding sortClassifications_def by (rule class_cmp.insertionSort_mset class_cmp.insertionSort_ascending)+

lemma buildLoop_strict:
  assumes "buildLoop t w r None [] [] (sortClassifications cs) = Inr x"
  shows "sorted_wrt (\<lambda>a b. compareClassifications a b < 0) (sortClassifications cs)"
proof -
  obtain es bs where "x = (es, bs)"
    by fastforce
  with buildLoop_Inr [of t w r None "[]" "[]"] assms show ?thesis
    by (intro class_cmp.strict_of_successive sortClassifications_laws) (auto simp: with_prev_def)
qed

lemma sortClassifications_unique:
  assumes "buildLoop t w r None [] [] (sortClassifications cs) = Inr x" and "mset cs = mset ds"
  shows "sortClassifications ds = sortClassifications cs"
  using class_cmp.strict_unique [OF buildLoop_strict [OF assms(1)], of "sortClassifications ds"] assms(2)
  by (simp add: sortClassifications_laws)

lemma ValidResult_cases:
  "ValidResult r \<Longrightarrow> r = ResultLossless \<or> r = ResultWrapped \<or> BlocksAuthorization r"
  unfolding ValidResult_def BlocksAuthorization_def result_defs
  by (simp add: word_le_nat_alt word_unat_eq_iff) linarith

lemma validateClassification_None:
  "validateClassification t c = None \<Longrightarrow>
   ValidateComponentsDefault t (c_Path c) = None \<and> ValidAction (c_Action c) \<and> ValidResult (c_Result c)"
  by (auto simp: validateClassification_def split: option.splits if_splits)

lemma resolved_key:
  assumes "validateClassification t c = None"
  shows "entry_key (resolved w r c) = class_key c"
proof -
  have "c_Result c = ResultLossless \<or> c_Result c = ResultWrapped \<or> BlocksAuthorization (c_Result c)"
    using validateClassification_None [OF assms] by (intro ValidResult_cases) simp
  then have "\<exists>x. resolveClassification c w r = Inr x"
    by (auto simp: resolveClassification_def Let_def split: prod.split)
  then show ?thesis
    by (auto simp: resolved_def resolveClassification_def Let_def entry_key_def class_key_def split: if_splits prod.splits)
qed

text \<open>What is authorised: a known capability with a permitted result and representation.\<close>

definition entry_allowed :: "u16 list \<Rightarrow> u16 list \<Rightarrow> plan_entry \<Rightarrow> bool" where
  "entry_allowed wrapAllow repAllow e \<longleftrightarrow>
     KnownCapability (e_CapabilityID e) \<and> ValidAction (e_Action e) \<and>
     (e_Result e = ResultLossless \<and> (e_RepresentationID e = 0 \<or> repAllow = [] \<or> e_RepresentationID e \<in> set repAllow) \<or>
      e_Result e = ResultWrapped \<and> e_RepresentationID e \<in> set wrapAllow)"

lemma blocks_if:
  "\<not> KnownCapability (c_CapabilityID c) \<Longrightarrow> blocks w r c" "BlocksAuthorization (c_Result c) \<Longrightarrow> blocks w r c"
  by (simp_all add: blocks_def resolveClassification_def Let_def)

lemma resolved_allowed:
  assumes "validateClassification t c = None" and "\<not> blocks w r c"
  shows "entry_allowed w r (resolved w r c)"
proof -
  have v: "ValidAction (c_Action c)" "c_Result c = ResultLossless \<or> c_Result c = ResultWrapped \<or> BlocksAuthorization (c_Result c)"
    using validateClassification_None [OF assms(1)] ValidResult_cases by auto
  have kn: "KnownCapability (c_CapabilityID c)" "\<not> BlocksAuthorization (c_Result c)"
    using assms(2) blocks_if by blast+
  have ne: "ResultLossless \<noteq> ResultWrapped"
    by (simp add: result_defs)
  from v(2) kn(2) consider "c_Result c = ResultLossless" | "c_Result c = ResultWrapped"
    by blast
  then show ?thesis
  proof cases
    case 1
    let ?E = "eligible_ids (c_RepresentationIDs c) r True"
    show ?thesis
      using 1 kn v(1) assms(2) Min_eligible [of "c_RepresentationIDs c" r True]
      by (cases "?E = {}")
        (auto simp: blocks_def resolved_def resolveClassification_def Let_def pickRepresentation_exact entry_allowed_def
          eligible_ids_def split: if_splits)
  next
    case 2
    let ?E = "eligible_ids (c_RepresentationIDs c) w False"
    show ?thesis
      using 2 ne kn v(1) assms(2) Min_eligible [of "c_RepresentationIDs c" w False]
      by (cases "?E = {}")
        (auto simp: blocks_def resolved_def resolveClassification_def Let_def pickRepresentation_exact entry_allowed_def
          eligible_ids_def split: if_splits)
  qed
qed

subsection \<open>The encoding is unambiguous\<close>

definition entry_bytes :: "plan_entry \<Rightarrow> bytes" where
  "entry_bytes e = fields16 (e_Path e) @ PutU16LE (e_CapabilityID e) @ PutU16LE (e_Action e) @ PutU16LE (e_Result e) @
     PutU16LE (e_RepresentationID e) @ e_AuxDigest e"

definition entry_small :: "plan_entry \<Rightarrow> bool" where
  "entry_small e \<longleftrightarrow> length (e_Path e) < 2 ^ 16 \<and> list_all (\<lambda>c. length c < 2 ^ 16) (e_Path e)"

lemma encodeComponents_eq:
  "encodeComponents cs =
     (if list_all (\<lambda>c. length c < 2 ^ 16) cs then Inr (concat (map field16 cs))
      else Inl (plan_limit ''component'' ''exceeds u16 length''))"
proof (induction cs)
  case (Cons c cs)
  then show ?case
    by (cases "length c < 2 ^ 16") (simp_all add: field16_def [of c])
qed simp

lemma encodeEntry_small: "entry_small e \<Longrightarrow> encodeEntry e = Inr (entry_bytes e)"
  by (simp add: encodeEntry_def encodeComponents_eq entry_small_def entry_bytes_def fields16_def)

lemma encodeEntry_large: "\<not> entry_small e \<Longrightarrow> \<exists>err. encodeEntry e = Inl err"
  by (cases "length (e_Path e) < 2 ^ 16") (simp_all add: encodeEntry_def encodeComponents_eq entry_small_def)

lemma encodeEntries_small: "list_all entry_small es \<Longrightarrow> encodeEntries es = Inr (concat (map entry_bytes es))"
  by (induction es) (simp_all add: encodeEntry_small)

lemma encodeEntries_large: "\<not> list_all entry_small es \<Longrightarrow> \<exists>err. encodeEntries es = Inl err"
proof (induction es)
  case (Cons e es)
  show ?case
  proof (cases "entry_small e")
    case True
    with Cons obtain err where "encodeEntries es = Inl err"
      by auto
    with True show ?thesis
      by (simp add: encodeEntry_small)
  next
    case False
    from encodeEntry_large [OF this] show ?thesis
      by auto
  qed
qed simp

lemma measurePlanBody_ok: "list_all entry_small es \<Longrightarrow> measurePlanBody es = Inr (length (concat (map entry_bytes es)))"
proof (induction es)
  case (Cons e es)
  then show ?case
    by (simp add: encodeEntry_small)
qed simp

definition plan_body :: "digest \<Rightarrow> digest \<Rightarrow> digest \<Rightarrow> plan_entry list \<Rightarrow> digest \<Rightarrow> bytes" where
  "plan_body m c g es d = PlanMagic @ PutU16LE PlanVersion @ m @ c @ g @ PutU32LE (of_nat (length es)) @
     concat (map entry_bytes es) @ d"

lemma encodePlan_Inr:
  "encodePlan m c g es d = Inr (b, x) \<longleftrightarrow>
   length es < 2 ^ 32 \<and> list_all entry_small es \<and> x = SHA256 (plan_body m c g es d) \<and> b = plan_body m c g es d @ x"
proof (cases "list_all entry_small es")
  case True
  then show ?thesis
    using measurePlanBody_ok [OF True] encodeEntries_small [OF True] by (auto simp: encodePlan_def plan_body_def Let_def)
next
  case False
  then show ?thesis
    using encodeEntries_large [OF False] by (auto simp: encodePlan_def split: sum.splits if_splits)
qed

interpretation entry_code: prefix_code entry_bytes "\<lambda>e. entry_small e \<and> length (e_AuxDigest e) = 32"
proof
  fix a b x y
  assume ok: "entry_small a \<and> length (e_AuxDigest a) = 32" "entry_small b \<and> length (e_AuxDigest b) = 32"
    and eq: "entry_bytes a @ x = entry_bytes b @ y"
  have "fields16 (e_Path a) @ PutU16LE (e_CapabilityID a) @ PutU16LE (e_Action a) @ PutU16LE (e_Result a) @
      PutU16LE (e_RepresentationID a) @ e_AuxDigest a @ x =
    fields16 (e_Path b) @ PutU16LE (e_CapabilityID b) @ PutU16LE (e_Action b) @ PutU16LE (e_Result b) @
      PutU16LE (e_RepresentationID b) @ e_AuxDigest b @ y"
    using eq by (simp add: entry_bytes_def)
  from fields16_code.split [OF _ _ this] ok have p: "e_Path a = e_Path b"
    and r: "PutU16LE (e_CapabilityID a) @ PutU16LE (e_Action a) @ PutU16LE (e_Result a) @
      PutU16LE (e_RepresentationID a) @ e_AuxDigest a @ x =
      PutU16LE (e_CapabilityID b) @ PutU16LE (e_Action b) @ PutU16LE (e_Result b) @
      PutU16LE (e_RepresentationID b) @ e_AuxDigest b @ y"
    unfolding entry_small_def by blast+
  from r have "e_CapabilityID a = e_CapabilityID b" "e_Action a = e_Action b" "e_Result a = e_Result b"
    "e_RepresentationID a = e_RepresentationID b" "e_AuxDigest a @ x = e_AuxDigest b @ y"
    unfolding Put_append by blast+
  with p ok show "a = b \<and> x = y"
    by (simp add: append_eq_append_conv)
qed

subsection \<open>What is proved of the planner\<close>

lemma Build_sort_cong:
  "sortClassifications cs = sortClassifications (Classifications inp) \<Longrightarrow> length cs = length (Classifications inp) \<Longrightarrow>
   Build t (inp\<lparr>Classifications := cs\<rparr>) = Build t inp"
  by (cases inp) (simp only: Build_def canonical_input.simps)

text \<open>
  C19: planning does not depend on the order in which classifications were acquired.  For any
  reordering of the input, \<open>Build\<close> returns the same plan bytes, the same digest and the same
  preflight report, and fails on one exactly if it fails on the other.
\<close>

theorem build_order_independent:
  assumes "mset cs = mset (Classifications inp)"
  shows "case (Build t inp, Build t (inp\<lparr>Classifications := cs\<rparr>)) of
    ((p, pf, e), (p', pf', e')) \<Rightarrow> p' = p \<and> pf' = pf \<and> (e' = None \<longleftrightarrow> e = None)"
proof -
  let ?w = "sortUint16 (WrapAllowList (input_Policy inp))" and ?r = "sortUint16 (RepresentationAllowList (input_Policy inp))"
  let ?L = "\<lambda>cs. buildLoop t ?w ?r None [] [] (sortClassifications cs)"
  have len: "length cs = length (Classifications inp)"
    using assms by (metis size_mset)
  consider x where "?L (Classifications inp) = Inr x" | x where "?L cs = Inr x"
    | a b where "?L (Classifications inp) = Inl a" "?L cs = Inl b"
    by (metis sum.exhaust)
  then show ?thesis
  proof cases
    case 1
    have "sortClassifications cs = sortClassifications (Classifications inp)"
      by (rule sortClassifications_unique [OF 1]) (simp add: assms)
    then have "Build t (inp\<lparr>Classifications := cs\<rparr>) = Build t inp"
      by (simp add: Build_sort_cong len)
    then show ?thesis
      by (simp split: prod.split)
  next
    case 2
    have "sortClassifications (Classifications inp) = sortClassifications cs"
      by (rule sortClassifications_unique [OF 2]) (simp add: assms)
    then have "Build t (inp\<lparr>Classifications := cs\<rparr>) = Build t inp"
      by (simp add: Build_sort_cong len)
    then show ?thesis
      by (simp split: prod.split)
  next
    case 3
    then show ?thesis
      by (auto simp: Build_def len Let_def split: prod.split)
  qed
qed

definition sample_class :: "byte \<Rightarrow> classification" where
  "sample_class b = \<lparr>c_Path = [[b]], c_CapabilityID = 1, c_Action = ActionCreate, c_Result = ResultLossless,
     c_RepresentationIDs = [], c_AuxDigest = replicate 32 0\<rparr>"

definition sample_input :: canonical_input where
  "sample_input = \<lparr>ManifestDigest = zero_digest, CapabilityVectorDigest = zero_digest, ConfigurationDigest = zero_digest,
     Classifications = [sample_class 0x61, sample_class 0x62], input_Policy = \<lparr>WrapAllowList = [], RepresentationAllowList = []\<rparr>,
     input_Limits = \<lparr>MaxEntries = 0, MaxPlanBytes = 0, MaxCapabilityComparisons = 0\<rparr>\<rparr>"

theorem build_order_independent_witness:
  "fst (Build sample_tables (sample_input\<lparr>Classifications := [sample_class 0x62, sample_class 0x61]\<rparr>)) =
   fst (Build sample_tables sample_input)"
proof -
  have "mset [sample_class 0x62, sample_class 0x61] = mset (Classifications sample_input)"
    by (simp add: sample_input_def)
  from build_order_independent [OF this, of sample_tables] show ?thesis
    by (simp split: prod.splits)
qed

text \<open>A successful build, taken apart.\<close>

lemma entries_strict:
  assumes "list_all (\<lambda>c. validateClassification t c = None) cs"
    and "sorted_wrt (\<lambda>a b. compareClassifications a b < 0) cs"
  shows "sorted_wrt (\<lambda>a b. compareEntries a b < 0) (map (resolved w r) cs)"
proof -
  have key: "entry_key (resolved w r c) = class_key c" if "c \<in> set cs" for c
    using assms(1) that by (auto simp: list_all_iff intro: resolved_key)
  have "compareEntries (resolved w r a) (resolved w r b) = compareClassifications a b" if "a \<in> set cs" "b \<in> set cs" for a b
    using that by (intro compare_keys key)
  with assms(2) show ?thesis
    by (simp add: sorted_wrt_map) (rule sorted_wrt_mono_rel, auto)
qed

lemma Build_success:
  assumes "Build t inp = (p, pf, None)"
  defines "w \<equiv> sortUint16 (WrapAllowList (input_Policy inp))"
    and "r \<equiv> sortUint16 (RepresentationAllowList (input_Policy inp))"
    and "cs \<equiv> sortClassifications (Classifications inp)"
  shows "Blocking pf = []" and "list_all (\<lambda>c. validateClassification t c = None \<and> \<not> blocks w r c) cs"
    and "sorted_wrt (\<lambda>a b. compareEntries a b < 0) (map (resolved w r) cs)"
    and "encodePlan (ManifestDigest inp) (CapabilityVectorDigest inp) (ConfigurationDigest inp) (map (resolved w r) cs)
      (SHA256 (encodeDestructiveSubset (map (resolved w r) cs))) = Inr (plan_Bytes p, plan_Digest p)"
proof -
  obtain es bs where loop: "buildLoop t w r None [] [] cs = Inr (es, bs)"
    using assms(1) by (auto simp: Build_def Let_def w_def r_def cs_def split: if_splits sum.splits)
  note l = buildLoop_Inr [OF loop]
  have bs: "bs = []" and pf: "Blocking pf = []" and enc: "encodePlan (ManifestDigest inp) (CapabilityVectorDigest inp)
      (ConfigurationDigest inp) (sortEntries es) (SHA256 (encodeDestructiveSubset (sortEntries es))) =
      Inr (plan_Bytes p, plan_Digest p)"
    using assms(1) loop by (auto simp: Build_def Let_def w_def r_def cs_def split: if_splits sum.splits)
  have nb: "list_all (\<lambda>c. \<not> blocks w r c) cs"
    using l bs by (auto simp: list_all_iff filter_empty_conv)
  then have es: "es = map (resolved w r) cs"
    using l by (simp add: list_all_iff)
  have strict: "sorted_wrt (\<lambda>a b. compareEntries a b < 0) es"
    unfolding es using l buildLoop_strict [OF loop [unfolded cs_def]] by (intro entries_strict [of t]) (simp_all add: cs_def)
  have "es = sortEntries es"
    unfolding sortEntries_def
    by (rule entry_cmp.strict_unique [OF strict entry_cmp.insertionSort_ascending]) (simp add: entry_cmp.insertionSort_mset)
  with es enc strict show "sorted_wrt (\<lambda>a b. compareEntries a b < 0) (map (resolved w r) cs)"
    "encodePlan (ManifestDigest inp) (CapabilityVectorDigest inp) (ConfigurationDigest inp) (map (resolved w r) cs)
      (SHA256 (encodeDestructiveSubset (map (resolved w r) cs))) = Inr (plan_Bytes p, plan_Digest p)"
    by metis+
  show "Blocking pf = []" "list_all (\<lambda>c. validateClassification t c = None \<and> \<not> blocks w r c) cs"
    using pf l nb by (auto simp: list_all_iff)
qed

lemma entry_allowed_sort: "entry_allowed (sortUint16 w) (sortUint16 r) e = entry_allowed w r e"
  by (simp add: entry_allowed_def)

text \<open>
  C20: what is authorised is complete and permitted.  A build that succeeds reports no blocking
  item; the plan encodes one entry for every classification, in strictly ascending order; every
  entry has a known capability, a valid action and a result that is lossless, with a
  representation the policy allows, or wrapped in a format on the policy's list; and the plan's
  digest is the digest recomputed from its bytes.
\<close>

theorem build_authorises_only_permitted:
  assumes "Build t inp = (p, pf, None)"
  shows "Authorized pf \<and> PlanDigest p = plan_Digest p \<and>
    (\<exists>entries. encodePlan (ManifestDigest inp) (CapabilityVectorDigest inp) (ConfigurationDigest inp) entries
        (SHA256 (encodeDestructiveSubset entries)) = Inr (plan_Bytes p, plan_Digest p) \<and>
      mset (map entry_key entries) = mset (map class_key (Classifications inp)) \<and>
      sorted_wrt (\<lambda>a b. compareEntries a b < 0) entries \<and>
      list_all (entry_allowed (WrapAllowList (input_Policy inp)) (RepresentationAllowList (input_Policy inp))) entries)"
proof -
  let ?w = "sortUint16 (WrapAllowList (input_Policy inp))" and ?r = "sortUint16 (RepresentationAllowList (input_Policy inp))"
  let ?cs = "sortClassifications (Classifications inp)"
  note b = Build_success [OF assms]
  have "map entry_key (map (resolved ?w ?r) ?cs) = map class_key ?cs"
    using b(2) by (auto simp: list_all_iff intro: resolved_key)
  then have "mset (map entry_key (map (resolved ?w ?r) ?cs)) = mset (map class_key (Classifications inp))"
    by (simp only: mset_map sortClassifications_laws)
  moreover have "list_all (entry_allowed (WrapAllowList (input_Policy inp)) (RepresentationAllowList (input_Policy inp)))
      (map (resolved ?w ?r) ?cs)"
    using b(2) resolved_allowed [of t _ ?w ?r] by (auto simp: list_all_iff entry_allowed_sort)
  moreover have "PlanDigest p = plan_Digest p"
    using b(4) by (auto simp: encodePlan_Inr PlanDigest_def DigestSize_def)
  moreover have "Authorized pf"
    using b(1) by (simp add: Authorized_def)
  ultimately show ?thesis
    using b(3,4) by blast
qed

definition single_input :: canonical_input where
  "single_input = sample_input\<lparr>Classifications := [(sample_class 0)\<lparr>c_Path := [[0x61], [0x62]]\<rparr>]\<rparr>"

lemma sort_single [simp]: "sortClassifications [c] = [c]" "sortEntries [e] = [e]"
  by (simp_all add: sortClassifications_def sortEntries_def insertionSort_def)

lemma single_input_builds: "\<exists>p pf. Build sample_tables single_input = (p, pf, None)"
proof -
  let ?c = "(sample_class 0)\<lparr>c_Path := [[0x61], [0x62]]\<rparr>"
  let ?e = "\<lparr>e_Path = [[0x61], [0x62]], e_CapabilityID = 1, e_Action = ActionCreate, e_Result = ResultLossless,
     e_RepresentationID = 0, e_AuxDigest = replicate 32 0\<rparr>"
  have v: "validateClassification sample_tables ?c = None"
    by (simp add: validateClassification_def ValidateComponentsDefault_def sample_class_def sample_component_ok
        ValidAction_def ValidResult_def KnownCapability_def CapIdentity_def CapDurability_def action_defs result_defs)
  have r: "resolveClassification ?c w [] = Inr (?e, False)" for w
    by (simp add: resolveClassification_def sample_class_def KnownCapability_def CapIdentity_def CapDurability_def
        BlocksAuthorization_def result_defs pickRepresentation_exact eligible_ids_def)
  have nil: "sortUint16 [] = []"
    by simp
  have enc: "encodePlan zero_digest zero_digest zero_digest [?e] d =
      Inr (plan_body zero_digest zero_digest zero_digest [?e] d @ SHA256 (plan_body zero_digest zero_digest zero_digest [?e] d),
        SHA256 (plan_body zero_digest zero_digest zero_digest [?e] d))" for d
    by (simp add: encodePlan_Inr entry_small_def)
  have len: "length (plan_body zero_digest zero_digest zero_digest [?e] (SHA256 d)) = 8 + 2 + 96 + 4 + 48 + 32" for d
    by (simp add: plan_body_def entry_bytes_def fields16_def field16_def zero_digest_def DigestSize_def PlanMagic_def bytes_of_def)
  show ?thesis
    by (simp add: Build_def single_input_def sample_input_def ResolveLimits_def nil v r enc len Let_def
        MaxDefaultEntries_def MaxDefaultPlanBytes_def MaxDefaultCapabilityComparisons_def DigestSize_def)
qed

theorem build_authorises_only_permitted_witness:
  "\<exists>p pf. Build sample_tables single_input = (p, pf, None) \<and> Authorized pf \<and> PlanDigest p = plan_Digest p"
proof -
  obtain p pf where b: "Build sample_tables single_input = (p, pf, None)"
    using single_input_builds by blast
  from build_authorises_only_permitted [OF b] b show ?thesis
    by blast
qed

text \<open>When a classification must block, in terms of the policy.\<close>

definition must_block :: "plan_policy \<Rightarrow> classification \<Rightarrow> bool" where
  "must_block pol c \<longleftrightarrow>
     \<not> KnownCapability (c_CapabilityID c) \<or> BlocksAuthorization (c_Result c) \<or>
     (c_Result c = ResultLossless \<and> c_RepresentationIDs c \<noteq> [] \<and>
        eligible_ids (c_RepresentationIDs c) (RepresentationAllowList pol) True = {}) \<or>
     (c_Result c = ResultWrapped \<and> eligible_ids (c_RepresentationIDs c) (WrapAllowList pol) False = {})"

definition reported_result :: "classification \<Rightarrow> result_code" where
  "reported_result c =
     (if \<not> KnownCapability (c_CapabilityID c) then ResultUnknown
      else if BlocksAuthorization (c_Result c) then c_Result c else ResultPolicyForbidden)"

lemma result_distinct:
  "ResultLossless \<noteq> ResultWrapped" "\<not> BlocksAuthorization ResultLossless" "\<not> BlocksAuthorization ResultWrapped"
  by (simp_all add: BlocksAuthorization_def result_defs)

lemma blocks_must:
  assumes "validateClassification t c = None"
  shows "blocks (sortUint16 (WrapAllowList pol)) (sortUint16 (RepresentationAllowList pol)) c \<longleftrightarrow> must_block pol c"
    and "must_block pol c \<Longrightarrow>
      e_Result (resolved (sortUint16 (WrapAllowList pol)) (sortUint16 (RepresentationAllowList pol)) c) = reported_result c"
proof -
  have r: "c_Result c = ResultLossless \<or> c_Result c = ResultWrapped \<or> BlocksAuthorization (c_Result c)"
    using validateClassification_None [OF assms] by (intro ValidResult_cases) simp
  let ?w = "sortUint16 (WrapAllowList pol)" and ?r = "sortUint16 (RepresentationAllowList pol)"
  have "(blocks ?w ?r c \<longleftrightarrow> must_block pol c) \<and> (must_block pol c \<longrightarrow> e_Result (resolved ?w ?r c) = reported_result c)"
  proof (cases "KnownCapability (c_CapabilityID c) \<and> \<not> BlocksAuthorization (c_Result c)")
    case False
    then show ?thesis
      by (auto simp: blocks_def resolved_def resolveClassification_def Let_def must_block_def reported_result_def)
  next
    case True
    with r consider "c_Result c = ResultLossless" | "c_Result c = ResultWrapped"
      by blast
    then show ?thesis
      by cases (use True result_distinct in \<open>auto simp: blocks_def resolved_def resolveClassification_def Let_def must_block_def
          reported_result_def pickRepresentation_exact\<close>)
  qed
  then show "blocks ?w ?r c \<longleftrightarrow> must_block pol c"
    "must_block pol c \<Longrightarrow> e_Result (resolved ?w ?r c) = reported_result c"
    by blast+
qed

lemma validateClassification_kind: "validateClassification t c = Some e \<Longrightarrow> ple_Kind e \<noteq> KindRefuse"
  by (auto simp: validateClassification_def plan_nonCanonical_def plan_unsupported_def plan_limit_def
      split: option.splits if_splits)

lemma resolveClassification_kind: "resolveClassification c w r = Inl e \<Longrightarrow> ple_Kind e \<noteq> KindRefuse"
  by (auto simp: resolveClassification_def Let_def plan_unsupported_def split: if_splits prod.splits)

lemma buildLoop_kind: "buildLoop t w r prev es bs cs = Inl e \<Longrightarrow> ple_Kind e \<noteq> KindRefuse"
proof (induction cs arbitrary: prev es bs)
  case (Cons c cs)
  then show ?case
    by (auto simp: plan_nonCanonical_def dest: validateClassification_kind resolveClassification_kind
        split: option.splits if_splits sum.splits)
qed simp

lemma encodeEntry_kind: "encodeEntry e = Inl x \<Longrightarrow> ple_Kind x \<noteq> KindRefuse"
  by (auto simp: encodeEntry_def encodeComponents_eq plan_limit_def split: if_splits)

lemma encodePlan_kind:
  assumes "encodePlan m c g es d = Inl x"
  shows "ple_Kind x \<noteq> KindRefuse"
proof -
  have "measurePlanBody es = Inl y \<Longrightarrow> ple_Kind y \<noteq> KindRefuse" "encodeEntries es = Inl y \<Longrightarrow> ple_Kind y \<noteq> KindRefuse" for y
    by (induction es arbitrary: y) (auto dest: encodeEntry_kind split: sum.splits)
  with assms show ?thesis
    by (auto simp: encodePlan_def plan_limit_def Let_def split: if_splits sum.splits)
qed

text \<open>
  C21: a refusal reports every blocker.  When \<open>Build\<close> refuses, it returns no plan, and the
  preflight lists exactly the classifications the policy obliges it to block, each once, in
  canonical order, with the result that blocks them.
\<close>

theorem preflight_complete:
  assumes "Build t inp = (p, pf, Some e)" and "ple_Kind e = KindRefuse"
  shows "p = zero_plan \<and> \<not> Authorized pf \<and>
    Blocking pf = map (\<lambda>c. \<lparr>b_Path = c_Path c, b_CapabilityID = c_CapabilityID c, b_Result = reported_result c\<rparr>)
      (filter (must_block (input_Policy inp)) (sortClassifications (Classifications inp)))"
proof -
  let ?w = "sortUint16 (WrapAllowList (input_Policy inp))" and ?r = "sortUint16 (RepresentationAllowList (input_Policy inp))"
  let ?cs = "sortClassifications (Classifications inp)"
  obtain es bs where loop: "buildLoop t ?w ?r None [] [] ?cs = Inr (es, bs)"
    and pf: "Blocking pf = bs" and zero: "p = zero_plan" and ne: "bs \<noteq> []"
    using assms
    by (auto simp: Build_def Let_def plan_limit_def dest!: buildLoop_kind encodePlan_kind split: if_splits sum.splits)
  note l = buildLoop_Inr [OF loop]
  have v: "validateClassification t c = None" if "c \<in> set ?cs" for c
    using l that by (auto simp: list_all_iff)
  have "bs = map (blocking_of ?w ?r) (filter (blocks ?w ?r) ?cs)"
    using l by simp
  also have "filter (blocks ?w ?r) ?cs = filter (must_block (input_Policy inp)) ?cs"
    by (rule filter_cong) (simp_all add: blocks_must(1) [OF v])
  also have "map (blocking_of ?w ?r) \<dots> = map (\<lambda>c. \<lparr>b_Path = c_Path c, b_CapabilityID = c_CapabilityID c,
      b_Result = reported_result c\<rparr>) (filter (must_block (input_Policy inp)) ?cs)"
    by (rule map_cong) (auto simp: blocking_of_def blocks_must(2) [OF v])
  finally show ?thesis
    using pf zero ne by (simp add: Authorized_def)
qed

definition unknown_input :: canonical_input where
  "unknown_input = sample_input\<lparr>Classifications := [(sample_class 0)\<lparr>c_Path := [[0x61], [0x62]], c_CapabilityID := 99\<rparr>]\<rparr>"

lemma unknown_input_refused:
  "\<exists>p pf e. Build sample_tables unknown_input = (p, pf, Some e) \<and> ple_Kind e = KindRefuse"
proof -
  let ?c = "(sample_class 0)\<lparr>c_Path := [[0x61], [0x62]], c_CapabilityID := 99\<rparr>"
  have un: "\<not> KnownCapability 99"
    by (simp add: KnownCapability_def CapIdentity_def CapDurability_def)
  have v: "validateClassification sample_tables ?c = None"
    by (simp add: validateClassification_def ValidateComponentsDefault_def sample_class_def sample_component_ok
        ValidAction_def ValidResult_def un action_defs result_defs)
  have r: "\<exists>e. resolveClassification ?c [] [] = Inr (e, True)"
    by (simp add: resolveClassification_def un)
  have nil: "sortUint16 [] = []"
    by simp
  from r show ?thesis
    by (auto simp: Build_def unknown_input_def sample_input_def ResolveLimits_def nil v Let_def plan_refuse_def
        MaxDefaultEntries_def MaxDefaultPlanBytes_def MaxDefaultCapabilityComparisons_def)
qed

theorem preflight_complete_witness:
  "\<exists>p pf e. Build sample_tables unknown_input = (p, pf, Some e) \<and> ple_Kind e = KindRefuse \<and> p = zero_plan \<and> \<not> Authorized pf"
proof -
  obtain p pf e where b: "Build sample_tables unknown_input = (p, pf, Some e)" "ple_Kind e = KindRefuse"
    using unknown_input_refused by blast
  from preflight_complete [OF b] b show ?thesis
    by blast
qed

lemma three_digests:
  assumes "m @ c @ g @ r = m' @ c' @ g' @ r'" and "length m = length m'" and "length c = length c'" and "length g = length g'"
  shows "m = m' \<and> c = c' \<and> g = g' \<and> r = r'"
  using assms by simp

text \<open>
  C22: the plan encoding is injective.  Two plans with the same bytes were built from the same
  three digests, the same entries and the same destructive summary; the digest fields are 32
  bytes long, as the Go type has them.
\<close>

theorem plan_encoding_injective:
  assumes "encodePlan m c g es d = Inr (b, x)" and "encodePlan m' c' g' es' d' = Inr (b, x')"
    and "length m = 32" "length c = 32" "length g = 32" "length m' = 32" "length c' = 32" "length g' = 32"
    and "length d = 32" "length d' = 32"
    and "list_all (\<lambda>e. length (e_AuxDigest e) = 32) es" and "list_all (\<lambda>e. length (e_AuxDigest e) = 32) es'"
  shows "m = m' \<and> c = c' \<and> g = g' \<and> es = es' \<and> d = d' \<and> x = x'"
proof -
  note enc = assms(1,2) [unfolded encodePlan_Inr]
  have lx: "length x = 32" "length x' = 32"
    using enc by (simp_all add: DigestSize_def)
  have "plan_body m c g es d @ x = plan_body m' c' g' es' d' @ x'"
    using enc by metis
  then have "m @ c @ g @ PutU32LE (of_nat (length es)) @ concat (map entry_bytes es) @ d @ x =
      m' @ c' @ g' @ PutU32LE (of_nat (length es')) @ concat (map entry_bytes es') @ d' @ x'"
    by (simp add: plan_body_def)
  then have h: "m = m'" "c = c'" "g = g'"
    and rest: "PutU32LE (of_nat (length es)) @ concat (map entry_bytes es) @ d @ x =
      PutU32LE (of_nat (length es')) @ concat (map entry_bytes es') @ d' @ x'"
    using three_digests assms(3-8) by metis+
  have l: "(of_nat (length es) :: u32) = of_nat (length es')"
    and body: "concat (map entry_bytes es) @ d @ x = concat (map entry_bytes es') @ d' @ x'"
    using rest unfolding Put_append by blast+
  have "length es = length es'"
    using of_nat_eq_small [OF _ _ l] enc by simp
  moreover have "list_all (\<lambda>e. entry_small e \<and> length (e_AuxDigest e) = 32) es"
    "list_all (\<lambda>e. entry_small e \<and> length (e_AuxDigest e) = 32) es'"
    using enc assms(11,12) by (simp_all add: list_all_iff)
  ultimately have "es = es' \<and> d @ x = d' @ x'"
    using body by (intro entry_code.concat_split)
  with h assms(9,10) lx show ?thesis
    by simp
qed

theorem plan_encoding_injective_witness:
  "\<exists>b x. encodePlan zero_digest zero_digest zero_digest [] zero_digest = Inr (b, x) \<and>
     (\<forall>m c g d. (encodePlan m c g [] d = Inr (b, x) \<and> length m = 32 \<and> length c = 32 \<and> length g = 32 \<and> length d = 32)
        = (m = zero_digest \<and> c = zero_digest \<and> g = zero_digest \<and> d = zero_digest))"
proof -
  have z: "length zero_digest = 32"
    by (simp add: zero_digest_def DigestSize_def)
  obtain b x where e: "encodePlan zero_digest zero_digest zero_digest [] zero_digest = Inr (b, x)"
    by (simp add: encodePlan_def Let_def)
  have "m = zero_digest \<and> c = zero_digest \<and> g = zero_digest \<and> d = zero_digest"
    if "encodePlan m c g [] d = Inr (b, x)" "length m = 32" "length c = 32" "length g = 32" "length d = 32" for m c g d
    using plan_encoding_injective [OF that(1) e that(2-4) z z z that(5) z] by simp
  with e z show ?thesis
    by blast
qed

end
