(* ===== verification/Observability.thy ===== *)
theory Observability
  imports Path Encoding
begin

text \<open>
  Redacted operational and security events: \<open>internal/observability/observability.go\<close>.  The
  checks before emission, the bounded in-memory sink with its sequence and drop counters, and
  the canonical byte layout of an event.  \<open>MemSink.Emit\<close> takes its sequence number from an
  atomic counter before it locks the mutex around the queue, so it is two atomic steps, and
  emissions of several goroutines interleave between them.
\<close>

subsection \<open>Events and their validation\<close>

type_synonym obs_channel = byte
type_synonym obs_severity = byte
type_synonym redaction_class = byte
type_synonym event_id = string

definition ChannelOperational :: obs_channel where "ChannelOperational = 1"
definition ChannelSecurity :: obs_channel where "ChannelSecurity = 2"
definition ChannelAudit :: obs_channel where "ChannelAudit = 3"
definition ChannelDiagnostic :: obs_channel where "ChannelDiagnostic = 4"
definition ChannelMetrics :: obs_channel where "ChannelMetrics = 5"

definition SeverityDebug :: obs_severity where "SeverityDebug = 1"
definition SeverityInfo :: obs_severity where "SeverityInfo = 2"
definition SeverityWarning :: obs_severity where "SeverityWarning = 3"
definition SeverityError :: obs_severity where "SeverityError = 4"
definition SeverityCritical :: obs_severity where "SeverityCritical = 5"

definition RedactionPublic :: redaction_class where "RedactionPublic = 1"
definition RedactionInternal :: redaction_class where "RedactionInternal = 2"
definition RedactionSensitive :: redaction_class where "RedactionSensitive = 3"
definition RedactionForbidden :: redaction_class where "RedactionForbidden = 4"

lemmas obs_code_defs =
  ChannelOperational_def ChannelSecurity_def ChannelAudit_def ChannelDiagnostic_def
  ChannelMetrics_def SeverityDebug_def SeverityInfo_def SeverityWarning_def SeverityError_def
  SeverityCritical_def RedactionPublic_def RedactionInternal_def RedactionSensitive_def
  RedactionForbidden_def

record obs_event =
  ev_ID :: event_id
  ev_Channel :: obs_channel
  ev_Severity :: obs_severity
  ev_Component :: string
  ev_ArchivePseudonym :: digest
  ev_TransactionID :: bytes
  ev_Sequence :: u64
  ev_CauseCategory :: string
  ev_Redaction :: redaction_class
  ev_Message :: string

record obs_error =
  oe_Code :: string
  oe_Message :: string

definition obs_error_text :: "obs_error \<Rightarrow> string" where
  "obs_error_text e = oe_Code e @ '': '' @ oe_Message e"

definition obs_reject :: "string \<Rightarrow> string \<Rightarrow> obs_error" where
  "obs_reject code msg = \<lparr>oe_Code = code, oe_Message = msg\<rparr>"

definition maxEventIDLen :: nat where "maxEventIDLen = 64"
definition maxComponentLen :: nat where "maxComponentLen = 64"
definition maxCauseLen :: nat where "maxCauseLen = 64"
definition maxMessageLen :: nat where "maxMessageLen = 256"

lemmas obs_bound_defs = maxEventIDLen_def maxComponentLen_def maxCauseLen_def maxMessageLen_def

text \<open>
  \<open>for _, c := range e.ID\<close> visits the code points of the string, with \<open>RuneError\<close> for bytes
  that are not UTF-8.
\<close>

function printableLoop :: "bytes \<Rightarrow> bool" where
  "printableLoop b =
     (if b = [] then True
      else
        let (c, n) = DecodeRune b in
        if c < 0x20 \<or> c > 0x7e then False else printableLoop (drop n b))"
  by pat_completeness auto
termination
proof (relation "measure length")
  fix b :: bytes and x c n
  assume b: "b \<noteq> []" and dec: "x = DecodeRune b" "(c, n) = x"
  have "0 < n \<and> n \<le> length b"
    by (rule DecodeRune_size [OF b, of c n]) (use dec in simp)
  with b show "(drop n b, b) \<in> measure length"
    by (cases b) auto
qed simp

text \<open>The inner loop compares the window at every position; the outer one tries every marker.\<close>

fun windowLoop :: "string \<Rightarrow> string \<Rightarrow> bool" where
  "windowLoop f s =
     (if length f \<le> length s then
        if take (length f) s = f then True
        else (case s of [] \<Rightarrow> False | _ # s' \<Rightarrow> windowLoop f s')
      else False)"

declare windowLoop.simps [simp del]

definition forbidden_markers :: "string list" where
  "forbidden_markers = [''-----BEGIN'', ''PRIVATE KEY'', ''password='', ''Authorization:'']"

definition containsForbidden :: "string \<Rightarrow> bool" where
  "containsForbidden s = list_ex (\<lambda>f. windowLoop f s) forbidden_markers"

definition Validate :: "obs_event \<Rightarrow> obs_error option" where
  "Validate e =
     (if ev_ID e = [] \<or> length (ev_ID e) > maxEventIDLen
        then Some (obs_reject ''id'' ''event id missing or too long'')
      else if \<not> printableLoop (bytes_of (ev_ID e))
        then Some (obs_reject ''id'' ''event id must be printable ASCII'')
      else if ev_Channel e < ChannelOperational \<or> ev_Channel e > ChannelMetrics
        then Some (obs_reject ''channel'' ''invalid channel'')
      else if ev_Severity e < SeverityDebug \<or> ev_Severity e > SeverityCritical
        then Some (obs_reject ''severity'' ''invalid severity'')
      else if ev_Component e = [] \<or> length (ev_Component e) > maxComponentLen
        then Some (obs_reject ''component'' ''component missing or too long'')
      else if length (ev_CauseCategory e) > maxCauseLen
        then Some (obs_reject ''cause'' ''cause category too long'')
      else if ev_Redaction e < RedactionPublic \<or> ev_Redaction e > RedactionForbidden
        then Some (obs_reject ''redaction'' ''invalid redaction class'')
      else if ev_Redaction e = RedactionForbidden \<and> ev_Message e \<noteq> []
        then Some (obs_reject ''redaction'' ''forbidden class cannot carry message'')
      else if ev_Redaction e = RedactionSensitive \<and> length (ev_Message e) > 64
        then Some (obs_reject ''redaction'' ''sensitive message must be opaque and short'')
      else if ev_Redaction e \<noteq> RedactionForbidden \<and> ev_Redaction e \<noteq> RedactionSensitive
          \<and> length (ev_Message e) > maxMessageLen
        then Some (obs_reject ''message'' ''message exceeds bound'')
      else if containsForbidden (ev_Message e)
        then Some (obs_reject ''sanitize'' ''message contains forbidden material markers'')
      else None)"

subsection \<open>The in-memory sink\<close>

record mem_sink =
  ms_limits :: limits
  ms_events :: "obs_event list"
  ms_seq :: u64
  ms_dropped :: u64

definition NewMemSink :: "u64 \<Rightarrow> mem_sink" where
  "NewMemSink maxQueue =
     \<lparr>ms_limits = \<lparr>MaxBytes = 1048576, MaxCount = maxQueue, MaxNesting = 1,
        MaxQueueDepth = maxQueue, MaxConcurrent = 1, MaxRetries = 1\<rparr>,
      ms_events = [], ms_seq = 0, ms_dropped = 0\<rparr>"

text \<open>\<open>e.Sequence = s.seq.Add(1)\<close>, then the critical section.\<close>

definition emitBegin :: "mem_sink \<Rightarrow> obs_event \<Rightarrow> mem_sink \<times> (obs_error + obs_event)" where
  "emitBegin s e =
     (case Validate e of
        Some err \<Rightarrow> (s, Inl err)
      | None \<Rightarrow>
          (let s = s\<lparr>ms_seq := ms_seq s + 1\<rparr> in (s, Inr (e\<lparr>ev_Sequence := ms_seq s\<rparr>))))"

definition emitEnqueue :: "mem_sink \<Rightarrow> obs_event \<Rightarrow> mem_sink \<times> obs_error option" where
  "emitEnqueue s e =
     (case AdmitQueue (ms_limits s) (word_of_nat (length (ms_events s) + 1)) of
        Some _ \<Rightarrow>
          (s\<lparr>ms_dropped := ms_dropped s + 1\<rparr>,
           Some (obs_reject ''backpressure'' ''operational queue full; event dropped''))
      | None \<Rightarrow> (s\<lparr>ms_events := ms_events s @ [e]\<rparr>, None))"

definition Emit :: "mem_sink \<Rightarrow> obs_event \<Rightarrow> mem_sink \<times> obs_error option" where
  "Emit s e =
     (case emitBegin s e of
        (s, Inl err) \<Rightarrow> (s, Some err)
      | (s, Inr e) \<Rightarrow> emitEnqueue s e)"

definition Dropped :: "mem_sink \<Rightarrow> u64" where
  "Dropped s = ms_dropped s"

definition Snapshot :: "mem_sink \<Rightarrow> obs_event list" where
  "Snapshot s = ms_events s"

subsection \<open>Canonical bytes\<close>

definition appendU16String :: "bytes \<Rightarrow> string \<Rightarrow> bytes" where
  "appendU16String buf s =
     (let s = (if length s > 65535 then take 65535 s else s)
      in (buf @ PutU16LE (len16 s)) @ bytes_of s)"

definition EncodeCanonical :: "obs_event \<Rightarrow> obs_error + bytes" where
  "EncodeCanonical e =
     (case Validate e of
        Some err \<Rightarrow> Inl err
      | None \<Rightarrow>
          let buf = [ev_Channel e, ev_Severity e, ev_Redaction e];
              buf = buf @ PutU64LE (ev_Sequence e);
              buf = buf @ ev_ArchivePseudonym e;
              buf = buf @ ev_TransactionID e;
              buf = appendU16String buf (ev_ID e);
              buf = appendU16String buf (ev_Component e);
              buf = appendU16String buf (ev_CauseCategory e);
              buf = appendU16String buf (ev_Message e)
          in Inr buf)"

definition PathPseudonym :: "bytes \<Rightarrow> bytes \<Rightarrow> digest" where
  "PathPseudonym key pathHint = SHA256 (key @ pathHint)"

definition FormatDropMetric :: "u64 \<Rightarrow> string" where
  "FormatDropMetric n = ''observability.dropped_events='' @ itoa (unat n)"

subsection \<open>What validation guarantees\<close>

lemma windowLoop_iff: "windowLoop f s \<longleftrightarrow> (\<exists>a b. s = a @ f @ b)"
proof (induction s)
  case Nil
  show ?case
    by (subst windowLoop.simps) auto
next
  case (Cons c s)
  have "windowLoop f (c # s) \<longleftrightarrow> take (length f) (c # s) = f \<or> windowLoop f s"
  proof (cases "length f \<le> length (c # s)")
    case False
    then have "take (length f) (c # s) \<noteq> f" and "\<not> windowLoop f s"
      by (force, subst windowLoop.simps, force)
    with False show ?thesis
      by (subst windowLoop.simps) simp
  qed (subst windowLoop.simps, simp)
  also have "\<dots> \<longleftrightarrow> (\<exists>a b. c # s = a @ f @ b)"
  proof
    assume "take (length f) (c # s) = f \<or> windowLoop f s"
    then show "\<exists>a b. c # s = a @ f @ b"
    proof
      assume "take (length f) (c # s) = f"
      then have "c # s = [] @ f @ drop (length f) (c # s)"
        by (metis append_Nil append_take_drop_id)
      then show ?thesis by blast
    next
      assume "windowLoop f s"
      then obtain a b where "s = a @ f @ b"
        using Cons.IH by blast
      then have "c # s = (c # a) @ f @ b" by simp
      then show ?thesis by blast
    qed
  next
    assume "\<exists>a b. c # s = a @ f @ b"
    then obtain a b where ab: "c # s = a @ f @ b" by blast
    show "take (length f) (c # s) = f \<or> windowLoop f s"
      using ab Cons.IH by (cases a) auto
  qed
  finally show ?case .
qed

lemma DecodeRune_ascii: "x < 0x80 \<Longrightarrow> DecodeRune (x # b) = (uint x, 1)"
  by (subst DecodeRune.simps) simp

lemma int_AND_mask: "(x :: int) AND 63 = x mod 64" "x AND 31 = x mod 32" "x AND 15 = x mod 16" "x AND 7 = x mod 8"
  using take_bit_eq_mask [of 6 x] take_bit_eq_mask [of 5 x] take_bit_eq_mask [of 4 x] take_bit_eq_mask [of 3 x]
  by (simp_all add: mask_eq_exp_minus_1 take_bit_eq_mod)

lemma uint_AND_mask: "uint (b AND 0x3F :: byte) = uint b mod 64" "uint (b AND 0x1F :: byte) = uint b mod 32"
  "uint (b AND 0x0F :: byte) = uint b mod 16" "uint (b AND 0x07 :: byte) = uint b mod 8"
  by (simp_all add: unsigned_and_eq int_AND_mask)

lemma DecodeRune_nonascii:
  assumes "\<not> x < 0x80" and "DecodeRune (x # b) = (r, n)"
  shows "0x7e < r"
proof -
  have cont: "0 \<le> uint y mod 64" for y :: byte
    by simp
  have neq: "y = v \<or> uint y \<noteq> uint v" for y v :: byte
    by (metis unsigned_word_eqI)
  have i16: "1 \<le> i mod 16" if "224 \<le> i" "i \<le> 239" "i \<noteq> 224" for i :: int
    using that by presburger
  have i8: "1 \<le> i mod 8" if "240 \<le> i" "i \<le> 244" "i \<noteq> 240" for i :: int
    using that by presburger
  have two: "2 \<le> uint x mod 32" if "0xC2 \<le> x" "x \<le> 0xDF"
    using that by (simp add: word_le_def) presburger
  have three: "1 \<le> uint x mod 16 \<or> x = 0xE0" if "0xE0 \<le> x" "x \<le> 0xEF"
    using that neq [where v = "0xE0" and y = x] i16 [of "uint x"] by (auto simp: word_le_def)
  have four: "1 \<le> uint x mod 8 \<or> x = 0xF0" if "0xF0 \<le> x" "x \<le> 0xF4"
    using that neq [where v = "0xF0" and y = x] i8 [of "uint x"] by (auto simp: word_le_def)
  have tail: "16 \<le> uint y mod 64" if "0x90 \<le> y" "y \<le> 0xBF" for y :: byte
    using that by (simp add: word_le_def) presburger
  have tail': "0x90 \<le> y" if "0xA0 \<le> y" for y :: byte
    using that by (simp add: word_le_def)
  have sum2: "0x7e < p * 64 + uint y mod 64" if "2 \<le> p" for p and y :: byte
    using that cont [of y] by linarith
  have sum3: "0x7e < uint x mod 16 * 4096 + uint y mod 64 * 64 + uint z mod 64"
    if "0xE0 \<le> x" "x \<le> 0xEF" "x = 0xE0 \<longrightarrow> 0xA0 \<le> y" "y \<le> 0xBF" for y z :: byte
  proof -
    have "1 \<le> uint x mod 16 \<or> 16 \<le> uint y mod 64"
      using three that tail [OF tail', of y] by blast
    moreover have "0 \<le> uint x mod 16" by simp
    ultimately show ?thesis
      using cont [of y] cont [of z] by linarith
  qed
  have sum4: "0x7e < uint x mod 8 * 262144 + uint y mod 64 * 4096 + uint z mod 64 * 64 + uint w mod 64"
    if "0xF0 \<le> x" "x \<le> 0xF4" "x = 0xF0 \<longrightarrow> 0x90 \<le> y" "y \<le> 0xBF" for y z w :: byte
  proof -
    have "1 \<le> uint x mod 8 \<or> 16 \<le> uint y mod 64"
      using four that tail [of y] by blast
    moreover have "0 \<le> uint x mod 8" by simp
    ultimately show ?thesis
      using cont [of y] cont [of z] cont [of w] by linarith
  qed
  show ?thesis
    using assms
    by (auto simp: RuneError_def cont_bits_def is_cont_def uint_AND_mask split: if_splits list.splits
        intro: sum2 sum3 sum4 two)
qed

definition printable :: "byte \<Rightarrow> bool" where
  "printable b \<longleftrightarrow> 0x20 \<le> b \<and> b \<le> 0x7e"

lemma printableLoop_iff: "printableLoop b \<longleftrightarrow> list_all printable b"
proof (induction b)
  case (Cons x b)
  obtain r n where dec: "DecodeRune (x # b) = (r, n)"
    by fastforce
  show ?case
  proof (cases "x < 0x80")
    case True
    then have rn: "r = uint x" "n = 1"
      using dec DecodeRune_ascii by auto
    have "printable x \<longleftrightarrow> \<not> (r < 0x20 \<or> r > 0x7e)"
      by (auto simp: rn printable_def word_le_def)
    then show ?thesis
      using dec rn Cons.IH by (subst printableLoop.simps) (simp del: printableLoop.simps)
  next
    case False
    then have "0x7e < r" and "\<not> printable x"
      using DecodeRune_nonascii [OF False dec] by (auto simp: printable_def word_le_def word_less_def)
    then show ?thesis
      using dec by (subst printableLoop.simps) simp
  qed
qed simp

text \<open>A marker occurs in a text; what every accepted event satisfies.\<close>

definition occurs :: "string \<Rightarrow> string \<Rightarrow> bool" where
  "occurs f s \<longleftrightarrow> (\<exists>a b. s = a @ f @ b)"

definition redaction_safe :: "obs_event \<Rightarrow> bool" where
  "redaction_safe e \<longleftrightarrow>
     ev_ID e \<noteq> [] \<and> length (ev_ID e) \<le> 64 \<and> list_all printable (bytes_of (ev_ID e)) \<and>
     ev_Component e \<noteq> [] \<and> length (ev_Component e) \<le> 64 \<and> length (ev_CauseCategory e) \<le> 64 \<and>
     ev_Channel e \<in> {1..5} \<and> ev_Severity e \<in> {1..5} \<and> ev_Redaction e \<in> {1..4} \<and>
     length (ev_Message e) \<le>
       (if ev_Redaction e = RedactionForbidden then 0 else if ev_Redaction e = RedactionSensitive then 64 else 256) \<and>
     (\<forall>m \<in> set forbidden_markers. \<not> occurs m (ev_Message e))"

lemma containsForbidden_iff: "containsForbidden s \<longleftrightarrow> (\<exists>m \<in> set forbidden_markers. occurs m s)"
  by (simp add: containsForbidden_def list_ex_iff windowLoop_iff occurs_def)

lemma Validate_None: "Validate e = None \<longleftrightarrow> redaction_safe e"
proof -
  have ge1: "1 \<le> w \<longleftrightarrow> w \<noteq> 0" for w :: byte
    by (metis linorder_not_less word_less_1)
  have occ: "\<not> (\<exists>m \<in> set forbidden_markers. occurs m s) \<longleftrightarrow> (\<forall>m \<in> set forbidden_markers. \<not> occurs m s)" for s
    by blast
  show ?thesis
    unfolding Validate_def redaction_safe_def containsForbidden_iff printableLoop_iff obs_code_defs obs_bound_defs
    using occ [of "ev_Message e"] by (auto simp: ge1 not_less simp del: bex_simps ball_simps)
qed

lemma Validate_sequence [simp]: "Validate (e\<lparr>ev_Sequence := n\<rparr>) = Validate e"
  by (simp add: Validate_def)

subsection \<open>Concurrent emissions\<close>

text \<open>
  The state of a sink with the emissions that have their sequence number and have not entered
  the critical section yet.  A step runs one of the two halves of some call of \<open>Emit\<close>: the
  validation with the atomic counter, or the section under the mutex; \<open>Emit\<close> alone is its
  first half followed, when the event is valid, by its second.
\<close>

inductive emit_step :: "mem_sink \<times> obs_event list \<Rightarrow> mem_sink \<times> obs_event list \<Rightarrow> bool" where
  step_begin: "emitBegin s e = (s', Inr e') \<Longrightarrow> emit_step (s, fl) (s', e' # fl)"
| step_refused: "emitBegin s e = (s', Inl err) \<Longrightarrow> emit_step (s, fl) (s', fl)"
| step_enqueue: "emitEnqueue s e = (s', r) \<Longrightarrow> emit_step (s, a @ e # b) (s', a @ b)"

definition sink_inv :: "u64 \<Rightarrow> nat \<Rightarrow> mem_sink \<times> obs_event list \<Rightarrow> bool" where
  "sink_inv q n st \<longleftrightarrow>
     (let (s, fl) = st; all = ms_events s @ fl in
      ms_limits s = ms_limits (NewMemSink q) \<and>
      unat (ms_seq s) \<le> n \<and>
      unat (ms_seq s) = length all + unat (ms_dropped s) \<and>
      length (ms_events s) \<le> unat q \<and>
      distinct (map ev_Sequence all) \<and>
      list_all (\<lambda>e. redaction_safe e \<and> ev_Sequence e \<le> ms_seq s) all)"

lemma sink_inv_init: "sink_inv q 0 (NewMemSink q, [])"
  by (simp add: sink_inv_def NewMemSink_def)

lemma unat_Suc_small: "unat (w :: u64) < 2 ^ 64 - 1 \<Longrightarrow> unat (w + 1) = Suc (unat w)"
  by (simp add: unat_word_ariths)

lemma emitBegin_Inr:
  "emitBegin s e = (s', Inr e') \<longleftrightarrow>
     Validate e = None \<and> s' = s\<lparr>ms_seq := ms_seq s + 1\<rparr> \<and> e' = e\<lparr>ev_Sequence := ms_seq s + 1\<rparr>"
  by (auto simp: emitBegin_def Let_def split: option.splits)

lemma emitBegin_Inl: "emitBegin s e = (s', Inl err) \<longleftrightarrow> Validate e = Some err \<and> s' = s"
  by (auto simp: emitBegin_def Let_def split: option.splits)

lemma Emit_steps: "emit_step\<^sup>*\<^sup>* (s, fl) (fst (Emit s e), fl)"
proof (cases "emitBegin s e")
  case (Pair s' r)
  show ?thesis
  proof (cases r)
    case (Inl err)
    then show ?thesis
      using Pair step_refused [of s e s' err fl] by (auto simp: Emit_def)
  next
    case (Inr e')
    obtain s'' r' where enq: "emitEnqueue s' e' = (s'', r')"
      by fastforce
    have "emit_step (s, fl) (s', e' # fl)" and "emit_step (s', e' # fl) (s'', fl)"
      using step_begin [of s e s' e' fl] step_enqueue [OF enq, of "[]" fl] Pair Inr by simp_all
    then show ?thesis
      using Pair Inr enq by (auto simp: Emit_def)
  qed
qed

lemma Emit_appends:
  "Snapshot (fst (Emit s e)) =
     Snapshot s @ (if snd (Emit s e) = None then [e\<lparr>ev_Sequence := ms_seq s + 1\<rparr>] else [])"
  by (simp add: Emit_def emitBegin_def emitEnqueue_def Snapshot_def Let_def split: option.splits)

lemma Emit_refused: "Validate e \<noteq> None \<Longrightarrow> Emit s e = (s, Validate e)"
  by (auto simp: Emit_def emitBegin_def)

lemma sink_inv_step:
  assumes inv: "sink_inv q n st" and step: "emit_step st st'" and n: "Suc n < 2 ^ 64"
  shows "sink_inv q (Suc n) st'"
  using step
proof cases
  case (step_begin s e s' e' fl)
  let ?all = "ms_events s @ fl"
  have sm: "unat (ms_seq s) \<le> n" and acc: "unat (ms_seq s) = length ?all + unat (ms_dropped s)"
    and d: "distinct (map ev_Sequence ?all)" and q: "length (ms_events s) \<le> unat q"
    and lim: "ms_limits s = ms_limits (NewMemSink q)"
    and ok: "list_all (\<lambda>e. redaction_safe e \<and> ev_Sequence e \<le> ms_seq s) ?all"
    using inv unfolding step_begin(1) sink_inv_def Let_def prod.case by blast+
  have s': "s' = s\<lparr>ms_seq := ms_seq s + 1\<rparr>" and e': "e' = e\<lparr>ev_Sequence := ms_seq s + 1\<rparr>"
    using step_begin(3) by (simp_all add: emitBegin_Inr)
  have suc: "unat (ms_seq s + 1) = Suc (unat (ms_seq s))"
    using sm n by (intro unat_Suc_small) simp
  have lt: "ms_seq s < ms_seq s + 1"
    using suc by (simp add: word_less_nat_alt)
  have fresh: "ms_seq s + 1 \<notin> ev_Sequence ` set ?all"
  proof
    assume "ms_seq s + 1 \<in> ev_Sequence ` set ?all"
    then obtain x where x: "x \<in> set ?all" "ms_seq s + 1 = ev_Sequence x"
      by blast
    then have "ev_Sequence x \<le> ms_seq s"
      using ok by (simp only: list_all_iff)
    with x(2) lt show False
      by simp
  qed
  have ok': "list_all (\<lambda>e. redaction_safe e \<and> ev_Sequence e \<le> ms_seq s + 1) ?all"
    using ok by (rule list.pred_mono_strong) (use lt in \<open>auto intro: order.trans [OF _ less_imp_le]\<close>)
  have "redaction_safe e'"
    using step_begin(3) unfolding e' Validate_None [symmetric] by (simp add: emitBegin_Inr)
  then show ?thesis
    using sm acc d q lim fresh ok' suc unfolding step_begin(2) sink_inv_def s'
    by (auto simp: e')
next
  case (step_refused s e s' err fl)
  then have "s' = s"
    by (simp add: emitBegin_Inl)
  then show ?thesis
    using inv unfolding step_refused(1,2) sink_inv_def by auto
next
  case (step_enqueue s e s' r a b)
  let ?all = "ms_events s @ a @ e # b"
  have sm: "unat (ms_seq s) \<le> n" and acc: "unat (ms_seq s) = length ?all + unat (ms_dropped s)"
    and d: "distinct (map ev_Sequence ?all)" and q: "length (ms_events s) \<le> unat q"
    and lim: "ms_limits s = ms_limits (NewMemSink q)"
    and ok: "list_all (\<lambda>e. redaction_safe e \<and> ev_Sequence e \<le> ms_seq s) ?all"
    using inv unfolding step_enqueue(1) sink_inv_def Let_def prod.case by blast+
  show ?thesis
  proof (cases "AdmitQueue (ms_limits s) (word_of_nat (length (ms_events s) + 1))")
    case None
    then have s': "s' = s\<lparr>ms_events := ms_events s @ [e]\<rparr>"
      using step_enqueue(3) by (simp add: emitEnqueue_def)
    have "unat (word_of_nat (length (ms_events s) + 1) :: u64) = length (ms_events s) + 1"
      using acc sm n by (intro unat_of_nat_small) simp
    moreover have "(word_of_nat (length (ms_events s) + 1) :: u64) \<le> q"
      using None lim by (simp add: AdmitQueue_None_iff NewMemSink_def)
    ultimately have "length (ms_events s) + 1 \<le> unat q"
      by (simp add: word_le_nat_alt)
    then show ?thesis
      using sm acc d lim ok unfolding step_enqueue(2) sink_inv_def s' by auto
  next
    case (Some err)
    then have s': "s' = s\<lparr>ms_dropped := ms_dropped s + 1\<rparr>"
      using step_enqueue(3) by (simp add: emitEnqueue_def)
    have "unat (ms_dropped s + 1) = Suc (unat (ms_dropped s))"
      using acc sm n by (intro unat_Suc_small) simp
    then show ?thesis
      using sm acc d lim q ok unfolding step_enqueue(2) sink_inv_def s' by auto
  qed
qed

lemma sink_inv_run: "(emit_step ^^ n) (NewMemSink q, []) st \<Longrightarrow> n < 2 ^ 64 \<Longrightarrow> sink_inv q n st"
proof (induction n arbitrary: st)
  case 0
  then show ?case
    using sink_inv_init [of q] by simp
next
  case (Suc n)
  then obtain mid where "(emit_step ^^ n) (NewMemSink q, []) mid" "emit_step mid st"
    by auto
  with Suc show ?case
    by (auto intro!: sink_inv_step)
qed

subsection \<open>Properties\<close>

text \<open>
  C28: Over any interleaving of concurrent calls of \<open>Emit\<close> (fewer than \<open>2^64\<close> steps), every event
  the sink holds passed the redaction rules: no forbidden marker occurs in its message, sensitive
  messages have at most 64 bytes and forbidden ones none.  The queue stays within its bound,
  no sequence number is given twice, and every number given is accounted for as a buffered, a
  dropped or a still running emission.  A whole call of \<open>Emit\<close> is such a sequence of steps from
  any of these states; it appends its event with the next number exactly when it reports success,
  and a call refused by \<open>Validate\<close> leaves the sink as it was.
\<close>

theorem emissions_redacted_and_accounted:
  assumes "(emit_step ^^ n) (NewMemSink q, []) (s, fl)" and "n < 2 ^ 64"
  shows "(\<forall>e \<in> set (Snapshot s). Validate e = None \<and> (\<forall>m \<in> set forbidden_markers. \<not> occurs m (ev_Message e)) \<and>
             (ev_Redaction e = RedactionForbidden \<longrightarrow> ev_Message e = []) \<and>
             (ev_Redaction e = RedactionSensitive \<longrightarrow> length (ev_Message e) \<le> 64)) \<and>
         length (Snapshot s) \<le> unat q \<and>
         distinct (map ev_Sequence (Snapshot s @ fl)) \<and>
         unat (ms_seq s) = length (Snapshot s) + length fl + unat (Dropped s) \<and>
         emit_step\<^sup>*\<^sup>* (s, fl) (fst (Emit s e), fl) \<and>
         Snapshot (fst (Emit s e)) =
           Snapshot s @ (if snd (Emit s e) = None then [e\<lparr>ev_Sequence := ms_seq s + 1\<rparr>] else []) \<and>
         (Validate e \<noteq> None \<longrightarrow> Emit s e = (s, Validate e))"
proof -
  have inv: "sink_inv q n (s, fl)"
    by (rule sink_inv_run [OF assms])
  then have "\<forall>e \<in> set (ms_events s). redaction_safe e"
    by (auto simp: sink_inv_def list_all_iff)
  moreover have "Validate e = None \<and> (\<forall>m \<in> set forbidden_markers. \<not> occurs m (ev_Message e)) \<and>
      (ev_Redaction e = RedactionForbidden \<longrightarrow> ev_Message e = []) \<and>
      (ev_Redaction e = RedactionSensitive \<longrightarrow> length (ev_Message e) \<le> 64)" if "redaction_safe e" for e
    using that by (simp add: Validate_None) (auto simp: redaction_safe_def obs_code_defs)
  ultimately show ?thesis
    using inv Emit_steps [of s fl e] Emit_appends [of s e] Emit_refused [of e s]
    by (simp add: sink_inv_def Snapshot_def Dropped_def)
qed

definition sample_event :: obs_event where
  "sample_event = \<lparr>ev_ID = ''a.b'', ev_Channel = 2, ev_Severity = 3, ev_Component = ''c'',
     ev_ArchivePseudonym = zero_digest, ev_TransactionID = replicate 16 0, ev_Sequence = 0,
     ev_CauseCategory = ''x'', ev_Redaction = 2, ev_Message = ''m''\<rparr>"

lemma sample_event_valid: "Validate sample_event = None"
  by code_simp

theorem emissions_redacted_and_accounted_witness:
  "\<exists>s. (emit_step ^^ 2) (NewMemSink 1, []) (s, []) \<and> length (Snapshot s) = 1 \<and>
       distinct (map ev_Sequence (Snapshot s)) \<and> unat (ms_seq s) = 1 + unat (Dropped s)"
proof -
  obtain s1 e1 where a: "emitBegin (NewMemSink 1) sample_event = (s1, Inr e1)"
    using sample_event_valid by (simp add: emitBegin_def Let_def)
  obtain s2 r where b: "emitEnqueue s1 e1 = (s2, r)"
    by fastforce
  have len: "length (Snapshot s2) = 1"
    using a b by (auto simp: emitBegin_Inr emitEnqueue_def NewMemSink_def Snapshot_def AdmitQueue_def)
  have "emit_step (NewMemSink 1, []) (s1, [e1])"
    by (rule step_begin [OF a])
  moreover have "emit_step (s1, [e1]) (s2, [])"
    using step_enqueue [OF b, of "[]" "[]"] by simp
  ultimately have run: "(emit_step ^^ 2) (NewMemSink 1, []) (s2, [])"
    by (auto simp: numeral_2_eq_2)
  with emissions_redacted_and_accounted [OF run, of sample_event] run len show ?thesis
    by (intro exI [of _ s2]) simp
qed

text \<open>The canonical bytes of a valid event are fixed-width fields and length-prefixed strings.\<close>

definition wf_event :: "obs_event \<Rightarrow> bool" where
  "wf_event e \<longleftrightarrow> length (ev_ArchivePseudonym e) = 32 \<and> length (ev_TransactionID e) = 16"

definition event_bytes :: "obs_event \<Rightarrow> bytes" where
  "event_bytes e = [ev_Channel e, ev_Severity e, ev_Redaction e] @ PutU64LE (ev_Sequence e) @
     ev_ArchivePseudonym e @ ev_TransactionID e @ field16 (bytes_of (ev_ID e)) @
     field16 (bytes_of (ev_Component e)) @ field16 (bytes_of (ev_CauseCategory e)) @
     field16 (bytes_of (ev_Message e))"

lemma appendU16String_short: "length s < 65536 \<Longrightarrow> appendU16String buf s = buf @ field16 (bytes_of s)"
  by (simp add: appendU16String_def field16_def Let_def)

lemma EncodeCanonical_Inr_iff: "EncodeCanonical e = Inr b \<longleftrightarrow> Validate e = None \<and> b = event_bytes e"
proof (cases "Validate e")
  case None
  then have "redaction_safe e"
    by (simp add: Validate_None)
  then have "length (ev_ID e) < 65536" "length (ev_Component e) < 65536"
    "length (ev_CauseCategory e) < 65536" "length (ev_Message e) < 65536"
    by (auto simp: redaction_safe_def split: if_splits)
  with None show ?thesis
    by (auto simp: EncodeCanonical_def event_bytes_def appendU16String_short Let_def)
qed (simp add: EncodeCanonical_def)

lemma field16_str_split:
  "length s < 2 ^ 16 \<Longrightarrow> length t < 2 ^ 16 \<Longrightarrow>
   field16 (bytes_of s) @ x = field16 (bytes_of t) @ y \<Longrightarrow> s = t \<and> x = y"
  using field16_code.split [of "bytes_of s" "bytes_of t" x y] by simp

text \<open>
  C29: Two well-formed events with the same canonical bytes are equal in every field: the length
  prefixes keep identifier, component, cause and message apart.
\<close>

theorem event_encoding_injective:
  assumes e: "EncodeCanonical e = Inr b" "wf_event e" and f: "EncodeCanonical f = Inr b" "wf_event f"
  shows "e = f"
proof -
  have safe: "redaction_safe e" "redaction_safe f" and eq: "event_bytes e = event_bytes f"
    using e f by (simp_all add: EncodeCanonical_Inr_iff Validate_None)
  have len: "length (ev_ID x) < 2 ^ 16" "length (ev_Component x) < 2 ^ 16"
    "length (ev_CauseCategory x) < 2 ^ 16" "length (ev_Message x) < 2 ^ 16" if "redaction_safe x" for x
    using that by (auto simp: redaction_safe_def split: if_splits)
  have head: "ev_Channel e = ev_Channel f" "ev_Severity e = ev_Severity f" "ev_Redaction e = ev_Redaction f"
    and r1: "PutU64LE (ev_Sequence e) @ ev_ArchivePseudonym e @ ev_TransactionID e @ field16 (bytes_of (ev_ID e)) @
     field16 (bytes_of (ev_Component e)) @ field16 (bytes_of (ev_CauseCategory e)) @ field16 (bytes_of (ev_Message e)) @ [] =
     PutU64LE (ev_Sequence f) @ ev_ArchivePseudonym f @ ev_TransactionID f @ field16 (bytes_of (ev_ID f)) @
     field16 (bytes_of (ev_Component f)) @ field16 (bytes_of (ev_CauseCategory f)) @ field16 (bytes_of (ev_Message f)) @ []"
    using eq unfolding event_bytes_def by simp_all
  note r2 = r1 [unfolded Put_append, THEN conjunct2]
  have fixed: "ev_ArchivePseudonym e = ev_ArchivePseudonym f" "ev_TransactionID e = ev_TransactionID f"
    and r3: "field16 (bytes_of (ev_ID e)) @ field16 (bytes_of (ev_Component e)) @ field16 (bytes_of (ev_CauseCategory e)) @
      field16 (bytes_of (ev_Message e)) @ [] = field16 (bytes_of (ev_ID f)) @ field16 (bytes_of (ev_Component f)) @
      field16 (bytes_of (ev_CauseCategory f)) @ field16 (bytes_of (ev_Message f)) @ []"
    using r2 e(2) f(2) by (simp_all add: wf_event_def)
  note s1 = field16_str_split [OF len(1) [OF safe(1)] len(1) [OF safe(2)] r3]
  note s2 = field16_str_split [OF len(2) [OF safe(1)] len(2) [OF safe(2)] s1 [THEN conjunct2]]
  note s3 = field16_str_split [OF len(3) [OF safe(1)] len(3) [OF safe(2)] s2 [THEN conjunct2]]
  note s4 = field16_str_split [OF len(4) [OF safe(1)] len(4) [OF safe(2)] s3 [THEN conjunct2]]
  show ?thesis
    using head r1 [unfolded Put_append, THEN conjunct1] fixed s1 s2 s3 s4 by (intro obs_event.equality) simp_all
qed

theorem event_encoding_injective_witness:
  "\<exists>b. EncodeCanonical sample_event = Inr b \<and> wf_event sample_event \<and>
       (\<forall>f. EncodeCanonical f = Inr b \<and> wf_event f \<longrightarrow> f = sample_event)"
proof -
  have enc: "EncodeCanonical sample_event = Inr (event_bytes sample_event)"
    by (simp add: EncodeCanonical_Inr_iff sample_event_valid)
  moreover have wf: "wf_event sample_event"
    by (simp add: wf_event_def sample_event_def)
  ultimately show ?thesis
    using event_encoding_injective [OF _ _ enc wf] by blast
qed

end
