(* ===== verification/Recovery.thy ===== *)
theory Recovery
  imports Journal Observability
begin

text \<open>
  Crash recovery from a journal prefix and a filesystem observation: \<open>internal/recovery\<close>
  (\<open>types.go\<close>, \<open>errors.go\<close>, \<open>recover.go\<close>, \<open>persist.go\<close>) and the abstract transaction
  model \<open>formal/transaction/Transaction.tla\<close> it refines.  A value of interface type
  \<open>PersistIO\<close> is a state with its methods; a nil interface is \<open>None\<close>.  The events handed to the
  policy's sink are returned as the list of \<open>Emit\<close> calls; their results are discarded by the
  source.
\<close>

subsection \<open>States, labels, payloads\<close>

text \<open>\<open>StateZero\<close> is the empty string, the value of the field in a zero \<open>Outcome\<close>.\<close>

datatype txn_state =
  StateZero | StateCreated | StateAuthenticated | StateManifestVerified | StatePlanned | StateAuthorized
| StateContentReceived | StatePrepared | StateVerified | StatePublishing | StatePublished | StateConfirmed
| StateSuspended | StateCancelled | StateQuarantined | StateRecovering | StateIrrecoverable

type_synonym crash_label = string

definition LabelJAppendPre :: crash_label where "LabelJAppendPre = ''J-APPEND-PRE''"
definition LabelJAppendMid :: crash_label where "LabelJAppendMid = ''J-APPEND-MID''"
definition LabelJAppendPost :: crash_label where "LabelJAppendPost = ''J-APPEND-POST''"
definition LabelJMetaPost :: crash_label where "LabelJMetaPost = ''J-META-POST''"
definition LabelPStageCreate :: crash_label where "LabelPStageCreate = ''P-STAGE-CREATE''"
definition LabelPStageSync :: crash_label where "LabelPStageSync = ''P-STAGE-SYNC''"
definition LabelPPublishRename :: crash_label where "LabelPPublishRename = ''P-PUBLISH-RENAME''"
definition LabelPPublishDirSync :: crash_label where "LabelPPublishDirSync = ''P-PUBLISH-DIRSYNC''"
definition LabelPConfirmPre :: crash_label where "LabelPConfirmPre = ''P-CONFIRM-PRE''"
definition LabelPConfirmPost :: crash_label where "LabelPConfirmPost = ''P-CONFIRM-POST''"

lemmas crash_label_defs =
  LabelJAppendPre_def LabelJAppendMid_def LabelJAppendPost_def LabelJMetaPost_def
  LabelPStageCreate_def LabelPStageSync_def LabelPPublishRename_def LabelPPublishDirSync_def
  LabelPConfirmPre_def LabelPConfirmPost_def

definition AllCrashLabels :: "crash_label list" where
  "AllCrashLabels = [LabelJAppendPre, LabelJAppendMid, LabelJAppendPost, LabelJMetaPost,
     LabelPStageCreate, LabelPStageSync, LabelPPublishRename, LabelPPublishDirSync,
     LabelPConfirmPre, LabelPConfirmPost]"

type_synonym progress_code = u16

definition ProgressContentReceived :: progress_code where "ProgressContentReceived = 1"
definition ProgressPrepared :: progress_code where "ProgressPrepared = 2"
definition ProgressVerified :: progress_code where "ProgressVerified = 3"
definition ProgressPublishing :: progress_code where "ProgressPublishing = 4"

lemmas progress_defs =
  ProgressContentReceived_def ProgressPrepared_def ProgressVerified_def ProgressPublishing_def

datatype rec_kind = RecKindFatal | RecKindQuarantine | RecKindIdentity | RecKindState | RecKindIO

text \<open>Error values: the package's own errors with their cause, the injected fault, errors of the system, errors wrapped by \<open>fmt.Errorf\<close>, and the end of a process that killed itself.\<close>

datatype rec_error =
  RecError (rv_Kind: rec_kind) (rv_Field: string) (rv_Message: string) (rv_Cause: "rec_error option")
| errInjectedFault
| OSError string
| WrapError string rec_error
| KilledAt crash_label

definition rec_fatal :: "string \<Rightarrow> string \<Rightarrow> rec_error option \<Rightarrow> rec_error" where
  "rec_fatal field msg cause = RecError RecKindFatal field msg cause"

definition identityErr :: "string \<Rightarrow> rec_error" where
  "identityErr msg = RecError RecKindIdentity ''identity'' msg None"

definition stateErr :: "string \<Rightarrow> rec_error" where
  "stateErr msg = RecError RecKindState ''state'' msg None"

definition ioErr :: "crash_label \<Rightarrow> rec_error \<Rightarrow> rec_error" where
  "ioErr label cause = RecError RecKindIO label ''persistence boundary failed'' (Some cause)"

fun rec_AsKind :: "rec_error \<Rightarrow> rec_kind \<Rightarrow> bool" where
  "rec_AsKind (RecError k _ _ _) kind \<longleftrightarrow> k = kind"
| "rec_AsKind _ kind \<longleftrightarrow> False"

lemmas rec_error_defs = rec_fatal_def identityErr_def stateErr_def ioErr_def

definition AuthorizationPayloadSize :: nat where
  "AuthorizationPayloadSize = 192"

record authorization_binding =
  ab_PlanDigest :: digest
  ab_ConfigurationDigest :: digest
  ab_CapabilityVectorDigest :: digest
  ab_RootIdentity :: digest
  ab_VolumeIdentity :: digest
  ab_AuthDigest :: digest

definition DecodeAuthorizationPayload :: "bytes \<Rightarrow> rec_error + authorization_binding" where
  "DecodeAuthorizationPayload p =
     (if length p \<noteq> AuthorizationPayloadSize
        then Inl (stateErr ''authorization payload must be 192 bytes'')
      else Inr \<lparr>ab_PlanDigest = slice 0 32 p, ab_ConfigurationDigest = slice 32 64 p,
        ab_CapabilityVectorDigest = slice 64 96 p, ab_RootIdentity = slice 96 128 p,
        ab_VolumeIdentity = slice 128 160 p, ab_AuthDigest = slice 160 192 p\<rparr>)"

definition EncodeAuthorizationPayload :: "authorization_binding \<Rightarrow> bytes" where
  "EncodeAuthorizationPayload b =
     (let out = make_bytes AuthorizationPayloadSize;
          out = copy_at 0 (ab_PlanDigest b) out;
          out = copy_at 32 (ab_ConfigurationDigest b) out;
          out = copy_at 64 (ab_CapabilityVectorDigest b) out;
          out = copy_at 96 (ab_RootIdentity b) out;
          out = copy_at 128 (ab_VolumeIdentity b) out;
          out = copy_at 160 (ab_AuthDigest b) out
      in out)"

definition EncodeProgressPayload :: "progress_code \<Rightarrow> bytes" where
  "EncodeProgressPayload code = copy_at 0 (PutU16LE code) (make_bytes 2)"

record fs_observation =
  ob_RootIdentity :: digest
  ob_VolumeIdentity :: digest
  ob_StagingPresent :: bool
  ob_PublicationStarted :: bool
  ob_PublicationLinearized :: bool
  ob_PublishedContentMatches :: bool

text \<open>Whether \<open>Policy.Events\<close> is non-nil is all that the source reads of the sink.\<close>

record rec_policy =
  pol_AllowStagingCleanup :: bool
  pol_AllowConfirm :: bool
  pol_Events :: bool

datatype action_kind =
  ActionEnterRecovering | ActionCleanupStaging | ActionQuarantineStaging | ActionConfirm | ActionNoop

record rec_action =
  ac_Kind :: action_kind
  ac_Label :: crash_label

definition action_of :: "action_kind \<Rightarrow> rec_action" where
  "action_of k = \<lparr>ac_Kind = k, ac_Label = []\<rparr>"

record rec_outcome =
  out_State :: txn_state
  out_Actions :: "rec_action list"
  out_IdempotentNoop :: bool
  out_TornTail :: bool
  out_TransactionID :: transaction_id
  out_Authorized :: bool
  out_Published :: bool
  out_Confirmations :: nat
  out_RecoveryCount :: nat
  out_Binding :: "authorization_binding option"

definition zero_txid :: transaction_id where
  "zero_txid = replicate 16 0"

definition zero_outcome :: rec_outcome where
  "zero_outcome = \<lparr>out_State = StateZero, out_Actions = [], out_IdempotentNoop = False,
     out_TornTail = False, out_TransactionID = zero_txid, out_Authorized = False,
     out_Published = False, out_Confirmations = 0, out_RecoveryCount = 0, out_Binding = None\<rparr>"

fun Terminal :: "txn_state \<Rightarrow> bool" where
  "Terminal StatePublished = True"
| "Terminal StateConfirmed = True"
| "Terminal StateCancelled = True"
| "Terminal StateQuarantined = True"
| "Terminal StateIrrecoverable = True"
| "Terminal _ = False"

subsection \<open>The persistence interface\<close>

record 's persist_ops =
  pio_Checkpoint :: "'s \<Rightarrow> crash_label \<Rightarrow> 's \<times> rec_error option"
  pio_CleanupStaging :: "'s \<Rightarrow> 's \<times> rec_error option"
  pio_QuarantineStaging :: "'s \<Rightarrow> 's \<times> rec_error option"
  pio_AppendConfirmation :: "'s \<Rightarrow> transaction_id \<Rightarrow> bytes \<Rightarrow> 's \<times> rec_error option"

record mem_persist =
  mp_FailAt :: crash_label
  mp_Checkpoints :: "crash_label list"
  mp_Cleanups :: nat
  mp_Quarantines :: nat
  mp_Confirms :: nat
  mp_ConfirmTX :: transaction_id
  mp_StagingGone :: bool
  mp_Quarantined :: bool

definition MemCheckpoint :: "mem_persist \<Rightarrow> crash_label \<Rightarrow> mem_persist \<times> rec_error option" where
  "MemCheckpoint m label =
     (let m = m\<lparr>mp_Checkpoints := mp_Checkpoints m @ [label]\<rparr> in
      if mp_FailAt m \<noteq> [] \<and> label = mp_FailAt m then (m, Some (ioErr label errInjectedFault))
      else (m, None))"

definition MemCleanupStaging :: "mem_persist \<Rightarrow> mem_persist \<times> rec_error option" where
  "MemCleanupStaging m = (m\<lparr>mp_Cleanups := mp_Cleanups m + 1, mp_StagingGone := True\<rparr>, None)"

definition MemQuarantineStaging :: "mem_persist \<Rightarrow> mem_persist \<times> rec_error option" where
  "MemQuarantineStaging m =
     (m\<lparr>mp_Quarantines := mp_Quarantines m + 1, mp_Quarantined := True, mp_StagingGone := True\<rparr>, None)"

definition MemAppendConfirmation ::
  "mem_persist \<Rightarrow> transaction_id \<Rightarrow> bytes \<Rightarrow> mem_persist \<times> rec_error option" where
  "MemAppendConfirmation m txid payload =
     (m\<lparr>mp_Confirms := mp_Confirms m + 1, mp_ConfirmTX := txid\<rparr>, None)"

definition mem_persist_ops :: "mem_persist persist_ops" where
  "mem_persist_ops = \<lparr>pio_Checkpoint = MemCheckpoint, pio_CleanupStaging = MemCleanupStaging,
     pio_QuarantineStaging = MemQuarantineStaging, pio_AppendConfirmation = MemAppendConfirmation\<rparr>"

subsection \<open>Scanning the prefix\<close>

record abstract_flags =
  af_txid :: transaction_id
  af_hasTx :: bool
  af_planDigestSeen :: bool
  af_authorized :: bool
  af_contentReceived :: bool
  af_prepared :: bool
  af_contentVerified :: bool
  af_publicationStarted :: bool
  af_published :: bool
  af_confirmationCount :: nat
  af_cancelled :: bool
  af_quarantined :: bool
  af_recoveryRecords :: nat
  af_binding :: "authorization_binding option"
  af_contradiction :: string

definition zero_flags :: abstract_flags where
  "zero_flags = \<lparr>af_txid = zero_txid, af_hasTx = False, af_planDigestSeen = False,
     af_authorized = False, af_contentReceived = False, af_prepared = False,
     af_contentVerified = False, af_publicationStarted = False, af_published = False,
     af_confirmationCount = 0, af_cancelled = False, af_quarantined = False,
     af_recoveryRecords = 0, af_binding = None, af_contradiction = []\<rparr>"

text \<open>
  The body of the loop: the flags after the record, or the values the function returns
  immediately.
\<close>

type_synonym scan_return = "abstract_flags \<times> rec_error option"

definition contradicts :: "abstract_flags \<Rightarrow> string \<Rightarrow> scan_return + abstract_flags" where
  "contradicts f msg = Inl (f\<lparr>af_contradiction := msg\<rparr>, None)"

definition scanRecord :: "abstract_flags \<Rightarrow> journal_record \<Rightarrow> scan_return + abstract_flags" where
  "scanRecord f rec =
     (if af_hasTx f \<and> r_TransactionID rec \<noteq> af_txid f
        then contradicts f ''multiple transaction ids in prefix''
      else
        let f = (if \<not> af_hasTx f then f\<lparr>af_txid := r_TransactionID rec, af_hasTx := True\<rparr> else f);
            t = r_Type rec in
        if t = TypePlanDigest then Inr (f\<lparr>af_planDigestSeen := True\<rparr>)
        else if t = TypeAuthorization then
          (if af_authorized f then contradicts f ''duplicate authorization''
           else
             case DecodeAuthorizationPayload (r_Payload rec) of
               Inl err \<Rightarrow> Inl (f, Some err)
             | Inr b \<Rightarrow> Inr (f\<lparr>af_binding := Some b, af_authorized := True\<rparr>))
        else if t = TypeProgress then
          (if length (r_Payload rec) < 2 then contradicts f ''progress payload too short''
           else
             let code = U16LE (slice 0 2 (r_Payload rec)) in
             if code = ProgressContentReceived then Inr (f\<lparr>af_contentReceived := True\<rparr>)
             else if code = ProgressPrepared then Inr (f\<lparr>af_prepared := True\<rparr>)
             else if code = ProgressVerified then Inr (f\<lparr>af_contentVerified := True\<rparr>)
             else if code = ProgressPublishing then Inr (f\<lparr>af_publicationStarted := True\<rparr>)
             else contradicts f ''unknown progress code'')
        else if t = TypeConfirmation then Inr (f\<lparr>af_confirmationCount := af_confirmationCount f + 1\<rparr>)
        else if t = TypeCancellation then Inr (f\<lparr>af_cancelled := True\<rparr>)
        else if t = TypeQuarantine then Inr (f\<lparr>af_quarantined := True\<rparr>)
        else if t = TypeRecovery then Inr (f\<lparr>af_recoveryRecords := af_recoveryRecords f + 1\<rparr>)
        else if t = TypeObservation \<or> t = TypeCheckpoint \<or> t = TypeEvidenceReference then Inr f
        else contradicts f ''unsupported record type in recovery scan'')"

fun scanLoop :: "abstract_flags \<Rightarrow> journal_record list \<Rightarrow> scan_return + abstract_flags" where
  "scanLoop f [] = Inr f"
| "scanLoop f (rec # recs) =
     (case scanRecord f rec of Inl r \<Rightarrow> Inl r | Inr f' \<Rightarrow> scanLoop f' recs)"

definition scanChecks :: "abstract_flags \<Rightarrow> abstract_flags" where
  "scanChecks f =
     (let f = (case af_binding f of
                 Some b \<Rightarrow>
                   if af_authorized f \<and> \<not> af_planDigestSeen f \<and> ab_PlanDigest b = zero_digest
                   then f\<lparr>af_contradiction := ''authorization missing plan digest binding''\<rparr> else f
               | None \<Rightarrow> f);
          f = (if af_prepared f \<and> \<not> af_contentReceived f
               then f\<lparr>af_contradiction := ''prepared without content received''\<rparr> else f);
          f = (if af_contentVerified f \<and> \<not> (af_prepared f \<and> af_contentReceived f)
               then f\<lparr>af_contradiction := ''verified without preparation chain''\<rparr> else f);
          f = (if af_publicationStarted f \<and> \<not> (af_authorized f \<and> af_contentVerified f)
               then f\<lparr>af_contradiction := ''publication started without authorization/verification''\<rparr> else f)
      in f)"

definition scanPrefix :: "journal_prefix \<Rightarrow> abstract_flags \<times> rec_error option" where
  "scanPrefix prefix =
     (case scanLoop zero_flags (p_Records prefix) of
        Inl r \<Rightarrow> r
      | Inr f \<Rightarrow> (scanChecks f, None))"

definition terminalFromFlags :: "abstract_flags \<Rightarrow> bool" where
  "terminalFromFlags f \<longleftrightarrow>
     (if af_confirmationCount f = 1 \<and> af_published f then True
      else if af_cancelled f \<and> \<not> af_publicationStarted f then True
      else if af_quarantined f \<and> \<not> af_published f \<and> \<not> af_publicationStarted f then True
      else False)"

definition stateFromFlags :: "abstract_flags \<Rightarrow> txn_state" where
  "stateFromFlags f =
     (if af_confirmationCount f = 1 \<and> af_published f then StateConfirmed
      else if af_cancelled f then StateCancelled
      else if af_quarantined f then StateQuarantined
      else if af_published f then StatePublished
      else StateQuarantined)"

subsection \<open>Side effects\<close>

definition add_action :: "action_kind \<Rightarrow> crash_label \<Rightarrow> rec_outcome \<Rightarrow> rec_outcome" where
  "add_action k l out = out\<lparr>out_Actions := out_Actions out @ [\<lparr>ac_Kind = k, ac_Label = l\<rparr>]\<rparr>"

text \<open>The three helpers return the new outcome (a pointer in the source), the state of the interface and the error.\<close>

type_synonym 's effect = "rec_outcome \<times> 's option \<times> rec_error option"

definition maybeCleanup ::
  "'s persist_ops \<Rightarrow> rec_policy \<Rightarrow> 's option \<Rightarrow> rec_outcome \<Rightarrow> fs_observation \<Rightarrow> 's effect" where
  "maybeCleanup ops policy io out obs =
     (case io of
        None \<Rightarrow> (out, None, None)
      | Some s \<Rightarrow>
          if \<not> pol_AllowStagingCleanup policy \<or> \<not> ob_StagingPresent obs then (out, Some s, None)
          else
            case pio_Checkpoint ops s LabelPStageCreate of
              (s, Some err) \<Rightarrow> (out, Some s, Some err)
            | (s, None) \<Rightarrow>
                (case pio_CleanupStaging ops s of
                   (s, Some err) \<Rightarrow> (out, Some s, Some (ioErr LabelPStageCreate err))
                 | (s, None) \<Rightarrow>
                     let out = add_action ActionCleanupStaging LabelPStageCreate out in
                     case pio_Checkpoint ops s LabelPStageSync of
                       (s, Some err) \<Rightarrow> (out, Some s, Some err)
                     | (s, None) \<Rightarrow>
                         (add_action ActionCleanupStaging LabelPStageSync out, Some s, None)))"

definition maybeQuarantine ::
  "'s persist_ops \<Rightarrow> rec_policy \<Rightarrow> 's option \<Rightarrow> rec_outcome \<Rightarrow> fs_observation \<Rightarrow> 's effect" where
  "maybeQuarantine ops policy io out obs =
     (case io of
        None \<Rightarrow> (out, None, None)
      | Some s \<Rightarrow>
          if \<not> pol_AllowStagingCleanup policy then (out, Some s, None)
          else if \<not> ob_StagingPresent obs \<and> \<not> ob_PublicationStarted obs then (out, Some s, None)
          else
            case pio_Checkpoint ops s LabelPPublishRename of
              (s, Some err) \<Rightarrow> (out, Some s, Some err)
            | (s, None) \<Rightarrow>
                (case pio_QuarantineStaging ops s of
                   (s, Some err) \<Rightarrow> (out, Some s, Some (ioErr LabelPPublishRename err))
                 | (s, None) \<Rightarrow>
                     let out = add_action ActionQuarantineStaging LabelPPublishRename out in
                     case pio_Checkpoint ops s LabelPPublishDirSync of
                       (s, Some err) \<Rightarrow> (out, Some s, Some err)
                     | (s, None) \<Rightarrow>
                         (add_action ActionQuarantineStaging LabelPPublishDirSync out, Some s, None)))"

definition confirmOnce :: "'s persist_ops \<Rightarrow> transaction_id \<Rightarrow> 's \<Rightarrow> rec_outcome \<Rightarrow> 's effect" where
  "confirmOnce ops txid s out =
     (case pio_Checkpoint ops s LabelPConfirmPre of
        (s, Some err) \<Rightarrow> (out, Some s, Some err)
      | (s, None) \<Rightarrow>
          (case pio_AppendConfirmation ops s txid [] of
             (s, Some err) \<Rightarrow> (out, Some s, Some (ioErr LabelPConfirmPre err))
           | (s, None) \<Rightarrow>
               (case pio_Checkpoint ops s LabelPConfirmPost of
                  (s, Some err) \<Rightarrow> (out, Some s, Some err)
                | (s, None) \<Rightarrow> (add_action ActionConfirm LabelPConfirmPost out, Some s, None))))"

subsection \<open>Recover\<close>

definition rec_emit ::
  "rec_policy \<Rightarrow> string \<Rightarrow> string \<Rightarrow> string \<Rightarrow> transaction_id \<Rightarrow> obs_event list" where
  "rec_emit policy eid cause message txid =
     (if \<not> pol_Events policy then []
      else
        let confirmed = (eid = ''recovery.confirmed'');
            sev = (if confirmed then SeverityInfo else SeverityWarning);
            ch = (if confirmed then ChannelOperational else ChannelSecurity) in
        [\<lparr>ev_ID = eid, ev_Channel = ch, ev_Severity = sev, ev_Component = ''recovery'',
          ev_ArchivePseudonym = zero_digest, ev_TransactionID = txid, ev_Sequence = 0,
          ev_CauseCategory = cause, ev_Redaction = RedactionInternal, ev_Message = message\<rparr>])"

text \<open>The three assignments that precede every decided return.\<close>

definition settle :: "txn_state \<Rightarrow> rec_outcome \<Rightarrow> rec_outcome" where
  "settle st out = out\<lparr>out_State := st, out_IdempotentNoop := True, out_RecoveryCount := 1\<rparr>"

type_synonym 's recover_result = "rec_outcome \<times> 's option \<times> rec_error option \<times> obs_event list"

definition stop_closed ::
  "rec_policy \<Rightarrow> transaction_id \<Rightarrow> 's option \<Rightarrow> rec_outcome \<Rightarrow> string \<Rightarrow> string \<Rightarrow> rec_error \<Rightarrow> 's recover_result" where
  "stop_closed policy txid io out cause message err =
     (settle StateIrrecoverable out, io, Some err,
      rec_emit policy ''recovery.irrecoverable'' cause message txid)"

text \<open>A helper failed: its error is returned with the outcome as it stands; otherwise the state is decided.\<close>

definition after_effect :: "txn_state \<Rightarrow> 's effect \<Rightarrow> 's recover_result" where
  "after_effect st eff =
     (case eff of
        (out, io, Some err) \<Rightarrow> (out, io, Some err, [])
      | (out, io, None) \<Rightarrow> (settle st out, io, None, []))"

text \<open>The part of \<open>Recover\<close> after \<open>ActionEnterRecovering\<close> has been recorded.\<close>

definition recoverDecide ::
  "'s persist_ops \<Rightarrow> fs_observation \<Rightarrow> rec_policy \<Rightarrow> 's option \<Rightarrow> abstract_flags \<Rightarrow> rec_outcome \<Rightarrow> 's recover_result" where
  "recoverDecide ops obs policy io flags out =
     (if af_confirmationCount flags = 1 then
        if \<not> af_published flags
          then stop_closed policy (af_txid flags) io out ''confirmation'' ''confirmation without publication''
                 (rec_fatal ''confirmation'' ''confirmation without publication evidence'' None)
        else (settle StateConfirmed out, io, None, [])
      else if af_cancelled flags \<and> \<not> af_publicationStarted flags \<and> \<not> af_published flags
        then after_effect StateCancelled (maybeCleanup ops policy io out obs)
      else if af_quarantined flags \<and> \<not> af_published flags
        then after_effect StateQuarantined (maybeQuarantine ops policy io out obs)
      else if af_published flags then
        let out = out\<lparr>out_State := StatePublished\<rparr> in
        (case io of
           Some s \<Rightarrow>
             if pol_AllowConfirm policy then
               (case confirmOnce ops (af_txid flags) s out of
                  (out, io, Some err) \<Rightarrow> (out, io, Some err, [])
                | (out, io, None) \<Rightarrow>
                    (settle StateConfirmed (out\<lparr>out_Confirmations := 1\<rparr>), io, None,
                     rec_emit policy ''recovery.confirmed'' ''confirm'' ''confirmation appended'' (af_txid flags)))
             else (settle StatePublished out, io, None, [])
         | None \<Rightarrow> (settle StatePublished out, io, None, []))
      else
        (case after_effect StateQuarantined (maybeQuarantine ops policy io out obs) of
           (out, io, None, evs) \<Rightarrow> (out\<lparr>out_Published := False\<rparr>, io, None, evs)
         | r \<Rightarrow> r))"

text \<open>The assignments to the publication flags.\<close>

definition observePublication :: "fs_observation \<Rightarrow> abstract_flags \<Rightarrow> abstract_flags" where
  "observePublication obs flags =
     (if ob_PublicationLinearized obs \<and> ob_PublishedContentMatches obs
        then flags\<lparr>af_published := True, af_publicationStarted := True\<rparr>
      else if ob_PublicationStarted obs \<or> af_publicationStarted flags
        then flags\<lparr>af_publicationStarted := True\<rparr>
      else flags)"

definition Recover ::
  "'s persist_ops \<Rightarrow> journal_prefix \<Rightarrow> fs_observation \<Rightarrow> rec_policy \<Rightarrow> 's option \<Rightarrow> 's recover_result" where
  "Recover ops prefix obs policy io =
     (case scanPrefix prefix of
        (_, Some err) \<Rightarrow> (zero_outcome, io, Some err, [])
      | (flags, None) \<Rightarrow>
          let out = zero_outcome\<lparr>out_TornTail := p_Torn prefix, out_TransactionID := af_txid flags,
                      out_Authorized := af_authorized flags,
                      out_Confirmations := af_confirmationCount flags, out_Binding := af_binding flags\<rparr>;
              stop = stop_closed policy (af_txid flags) io out in
          if (case af_binding flags of
                Some b \<Rightarrow> ab_RootIdentity b \<noteq> ob_RootIdentity obs \<or> ab_VolumeIdentity b \<noteq> ob_VolumeIdentity obs
              | None \<Rightarrow> False)
            then stop ''identity'' ''root/volume identity mismatch''
                   (identityErr ''root/volume identity mismatch with authorization'')
          else if af_contradiction flags \<noteq> []
            then stop ''records'' (af_contradiction flags) (rec_fatal ''records'' (af_contradiction flags) None)
          else if af_confirmationCount flags > 1
            then stop ''confirmation'' ''more than one confirmation record''
                   (rec_fatal ''confirmation'' ''more than one confirmation record'' None)
          else if ob_PublicationLinearized obs \<and> ob_PublishedContentMatches obs \<and>
              (\<not> af_authorized flags \<or> \<not> af_prepared flags \<or> \<not> af_contentVerified flags \<or> \<not> af_contentReceived flags)
            then stop ''publication'' ''publication without authorization chain''
                   (rec_fatal ''publication'' ''linearized publication without authorization/preparation chain'' None)
          else
            let flags = observePublication obs flags;
                out = out\<lparr>out_Published := af_published flags\<rparr> in
            if p_Records prefix = [] \<and> \<not> p_Torn prefix \<and> \<not> ob_StagingPresent obs
                \<and> \<not> ob_PublicationStarted obs \<and> \<not> ob_PublicationLinearized obs
              then (out\<lparr>out_State := StateCreated, out_IdempotentNoop := True,
                      out_Actions := [action_of ActionNoop]\<rparr>, io, None, [])
            else
              let needsRecovery = (\<not> terminalFromFlags flags \<or> p_Torn prefix \<or>
                    (ob_StagingPresent obs \<and> \<not> af_published flags) \<or>
                    (af_publicationStarted flags \<and> \<not> af_published flags)) in
              if \<not> needsRecovery \<and> terminalFromFlags flags
                then ((settle (stateFromFlags flags) out)\<lparr>out_Actions := [action_of ActionNoop]\<rparr>, io, None, [])
              else
                recoverDecide ops obs policy io flags
                  (out\<lparr>out_Actions := out_Actions out @ [action_of ActionEnterRecovering],
                       out_State := StateRecovering\<rparr>))"

definition RecoverAgain ::
  "'s persist_ops \<Rightarrow> journal_prefix \<Rightarrow> fs_observation \<Rightarrow> rec_policy \<Rightarrow> 's option \<Rightarrow> 's recover_result" where
  "RecoverAgain ops prefix obs policy io = Recover ops prefix obs policy io"

definition SameBinding :: "digest \<Rightarrow> digest \<Rightarrow> bool" where
  "SameBinding a b \<longleftrightarrow> a = b"

subsection \<open>The abstract transaction model\<close>

text \<open>\<open>formal/transaction/Transaction.tla\<close>: the variables, the initial predicate and the actions.\<close>

record txn_vars =
  tv_state :: txn_state
  tv_authorized :: bool
  tv_contentReceived :: bool
  tv_prepared :: bool
  tv_contentVerified :: bool
  tv_publicationStarted :: bool
  tv_published :: bool
  tv_confirmationCount :: nat
  tv_recoveryCount :: nat

definition txn_Init :: "txn_vars \<Rightarrow> bool" where
  "txn_Init v \<longleftrightarrow> v = \<lparr>tv_state = StateCreated, tv_authorized = False, tv_contentReceived = False,
     tv_prepared = False, tv_contentVerified = False, tv_publicationStarted = False,
     tv_published = False, tv_confirmationCount = 0, tv_recoveryCount = 0\<rparr>"

inductive txn_Next :: "txn_vars \<Rightarrow> txn_vars \<Rightarrow> bool" where
  txn_Step: "tv_state v = from \<Longrightarrow>
     (from, to) \<in> {(StateCreated, StateAuthenticated), (StateAuthenticated, StateManifestVerified),
                   (StateManifestVerified, StatePlanned)} \<Longrightarrow>
     txn_Next v (v\<lparr>tv_state := to\<rparr>)"
| txn_Authorize: "tv_state v = StatePlanned \<Longrightarrow>
     txn_Next v (v\<lparr>tv_state := StateAuthorized, tv_authorized := True\<rparr>)"
| txn_Receive: "tv_state v = StateAuthorized \<Longrightarrow> tv_authorized v \<Longrightarrow>
     txn_Next v (v\<lparr>tv_state := StateContentReceived, tv_contentReceived := True\<rparr>)"
| txn_Prepare: "tv_state v = StateContentReceived \<Longrightarrow> tv_authorized v \<Longrightarrow> tv_contentReceived v \<Longrightarrow>
     txn_Next v (v\<lparr>tv_state := StatePrepared, tv_prepared := True\<rparr>)"
| txn_Verify: "tv_state v = StatePrepared \<Longrightarrow> tv_authorized v \<Longrightarrow> tv_contentReceived v \<Longrightarrow> tv_prepared v \<Longrightarrow>
     txn_Next v (v\<lparr>tv_state := StateVerified, tv_contentVerified := True\<rparr>)"
| txn_BeginPublication: "tv_state v = StateVerified \<Longrightarrow> tv_authorized v \<Longrightarrow> tv_contentReceived v \<Longrightarrow>
     tv_prepared v \<Longrightarrow> tv_contentVerified v \<Longrightarrow>
     txn_Next v (v\<lparr>tv_state := StatePublishing, tv_publicationStarted := True\<rparr>)"
| txn_CompletePublication: "tv_state v = StatePublishing \<Longrightarrow> tv_publicationStarted v \<Longrightarrow> tv_authorized v \<Longrightarrow>
     tv_prepared v \<Longrightarrow> tv_contentVerified v \<Longrightarrow>
     txn_Next v (v\<lparr>tv_state := StatePublished, tv_published := True\<rparr>)"
| txn_Confirm: "tv_state v = StatePublished \<Longrightarrow> tv_published v \<Longrightarrow> tv_confirmationCount v = 0 \<Longrightarrow>
     txn_Next v (v\<lparr>tv_state := StateConfirmed, tv_confirmationCount := 1\<rparr>)"
| txn_Crash: "tv_state v \<in> {StateAuthorized, StateContentReceived, StatePrepared, StateVerified,
       StatePublishing, StatePublished} \<Longrightarrow> tv_recoveryCount v = 0 \<Longrightarrow>
     txn_Next v (v\<lparr>tv_state := StateRecovering\<rparr>)"
| txn_Recover: "tv_state v = StateRecovering \<Longrightarrow>
     txn_Next v (v\<lparr>tv_state := (if tv_published v then StatePublished else StateQuarantined), tv_recoveryCount := 1\<rparr>)"
| txn_RecoverAgain: "tv_recoveryCount v > 0 \<Longrightarrow> tv_state v \<in> {StatePublished, StateQuarantined} \<Longrightarrow> txn_Next v v"
| txn_Cancel: "tv_state v \<in> {StateCreated, StateAuthenticated, StateManifestVerified, StatePlanned,
       StateAuthorized, StateContentReceived, StatePrepared, StateVerified} \<Longrightarrow> \<not> tv_publicationStarted v \<Longrightarrow>
     txn_Next v (v\<lparr>tv_state := StateCancelled\<rparr>)"

definition PublicationAuthorized :: "txn_vars \<Rightarrow> bool" where
  "PublicationAuthorized v \<longleftrightarrow> (tv_published v \<longrightarrow> tv_authorized v)"

definition PublicationPrepared :: "txn_vars \<Rightarrow> bool" where
  "PublicationPrepared v \<longleftrightarrow>
     (tv_published v \<longrightarrow> tv_contentReceived v \<and> tv_prepared v \<and> tv_contentVerified v)"

definition ConfirmationSound :: "txn_vars \<Rightarrow> bool" where
  "ConfirmationSound v \<longleftrightarrow> (tv_confirmationCount v = 1 \<longrightarrow> tv_published v)"

definition ConfirmationUnique :: "txn_vars \<Rightarrow> bool" where
  "ConfirmationUnique v \<longleftrightarrow> tv_confirmationCount v \<le> 1"

definition NoInventedPublication :: "txn_vars \<Rightarrow> bool" where
  "NoInventedPublication v \<longleftrightarrow> (\<not> tv_publicationStarted v \<longrightarrow> \<not> tv_published v)"

lemmas txn_invariant_defs =
  PublicationAuthorized_def PublicationPrepared_def ConfirmationSound_def ConfirmationUnique_def
  NoInventedPublication_def

subsection \<open>Invariants of the transaction model\<close>

definition txn_inv :: "txn_vars \<Rightarrow> bool" where
  "txn_inv v \<longleftrightarrow> (tv_prepared v \<longrightarrow> tv_contentReceived v) \<and>
     (tv_published v \<longrightarrow> tv_publicationStarted v \<and> tv_authorized v \<and> tv_contentReceived v \<and> tv_prepared v \<and> tv_contentVerified v) \<and>
     tv_confirmationCount v \<le> 1 \<and> (tv_confirmationCount v = 1 \<longrightarrow> tv_published v) \<and>
     (tv_contentReceived v \<longrightarrow> tv_authorized v) \<and> (tv_publicationStarted v \<longrightarrow> tv_contentVerified v) \<and>
     (tv_state v \<notin> {StateCreated, StateAuthenticated, StateManifestVerified, StatePlanned, StateCancelled} \<longrightarrow>
        tv_authorized v)"

lemma txn_inv_init: "txn_Init v \<Longrightarrow> txn_inv v"
  by (simp add: txn_Init_def txn_inv_def)

lemma txn_inv_step: "txn_Next v w \<Longrightarrow> txn_inv v \<Longrightarrow> txn_inv w"
  by (induction rule: txn_Next.induct) (auto simp: txn_inv_def)

interpretation txn: inductive_invariant txn_Init txn_Next txn_inv
  using txn_inv_init txn_inv_step by unfold_locales blast+

lemma txn_invariants:
  assumes "reach txn_Init txn_Next v"
  shows "PublicationAuthorized v" "PublicationPrepared v" "ConfirmationSound v" "ConfirmationUnique v"
    "NoInventedPublication v"
  using txn.reach_inv [OF assms] by (auto simp: txn_inv_def txn_invariant_defs)

text \<open>The states on the way to publication, and what a crash and recovery makes of each.\<close>

definition chain_vars :: "txn_state \<Rightarrow> bool \<Rightarrow> bool \<Rightarrow> bool \<Rightarrow> bool \<Rightarrow> bool \<Rightarrow> bool \<Rightarrow> nat \<Rightarrow> nat \<Rightarrow> txn_vars" where
  "chain_vars st a r p vf ps pb c rc = \<lparr>tv_state = st, tv_authorized = a, tv_contentReceived = r,
     tv_prepared = p, tv_contentVerified = vf, tv_publicationStarted = ps, tv_published = pb,
     tv_confirmationCount = c, tv_recoveryCount = rc\<rparr>"

abbreviation txn_reachable :: "txn_vars \<Rightarrow> bool" where
  "txn_reachable \<equiv> reach txn_Init txn_Next"

lemma txn_reach_step: "txn_reachable v \<Longrightarrow> txn_Next v w' \<Longrightarrow> w = w' \<Longrightarrow> txn_reachable w"
  using reach_step by metis

lemma reach_authorized: "txn_reachable (chain_vars StateAuthorized True False False False False False 0 0)"
proof -
  have "txn_reachable (chain_vars StateCreated False False False False False False 0 0)"
    by (rule reach_init) (simp add: txn_Init_def chain_vars_def)
  then have "txn_reachable (chain_vars StateAuthenticated False False False False False False 0 0)"
    by (rule txn_reach_step [OF _ txn_Step [where to = StateAuthenticated]]) (simp_all add: chain_vars_def)
  then have "txn_reachable (chain_vars StateManifestVerified False False False False False False 0 0)"
    by (rule txn_reach_step [OF _ txn_Step [where to = StateManifestVerified]]) (simp_all add: chain_vars_def)
  then have "txn_reachable (chain_vars StatePlanned False False False False False False 0 0)"
    by (rule txn_reach_step [OF _ txn_Step [where to = StatePlanned]]) (simp_all add: chain_vars_def)
  then show ?thesis
    by (rule txn_reach_step [OF _ txn_Authorize]) (simp_all add: chain_vars_def)
qed

lemma reach_received: "txn_reachable (chain_vars StateContentReceived True True False False False False 0 0)"
  by (rule txn_reach_step [OF reach_authorized txn_Receive]) (simp_all add: chain_vars_def)

lemma reach_prepared: "txn_reachable (chain_vars StatePrepared True True True False False False 0 0)"
  by (rule txn_reach_step [OF reach_received txn_Prepare]) (simp_all add: chain_vars_def)

lemma reach_verified: "txn_reachable (chain_vars StateVerified True True True True False False 0 0)"
  by (rule txn_reach_step [OF reach_prepared txn_Verify]) (simp_all add: chain_vars_def)

lemma reach_publishing: "txn_reachable (chain_vars StatePublishing True True True True True False 0 0)"
  by (rule txn_reach_step [OF reach_verified txn_BeginPublication]) (simp_all add: chain_vars_def)

lemma reach_published: "txn_reachable (chain_vars StatePublished True True True True True True 0 0)"
  by (rule txn_reach_step [OF reach_publishing txn_CompletePublication]) (simp_all add: chain_vars_def)

lemma crash_recover:
  assumes "txn_reachable (chain_vars st a r p vf ps pb 0 0)"
    and "st \<in> {StateAuthorized, StateContentReceived, StatePrepared, StateVerified, StatePublishing, StatePublished}"
  shows "txn_reachable (chain_vars (if pb then StatePublished else StateQuarantined) a r p vf ps pb 0 1)"
proof -
  have "txn_reachable (chain_vars StateRecovering a r p vf ps pb 0 0)"
    by (rule txn_reach_step [OF assms(1) txn_Crash]) (use assms(2) in \<open>simp_all add: chain_vars_def\<close>)
  then show ?thesis
    by (rule txn_reach_step [OF _ txn_Recover]) (simp_all add: chain_vars_def)
qed

lemma reach_recovered_published: "txn_reachable (chain_vars StatePublished True True True True True True 0 1)"
  using crash_recover [OF reach_published] by simp

lemma reach_recovered_confirmed: "txn_reachable (chain_vars StateConfirmed True True True True True True 1 1)"
  by (rule txn_reach_step [OF reach_recovered_published txn_Confirm]) (simp_all add: chain_vars_def)

lemma reach_recovered_quarantined:
  assumes "p \<longrightarrow> r" and "vf \<longrightarrow> p" and "ps \<longrightarrow> vf"
  shows "txn_reachable (chain_vars StateQuarantined True r p vf ps False 0 1)"
  using assms crash_recover [OF reach_authorized] crash_recover [OF reach_received]
    crash_recover [OF reach_prepared] crash_recover [OF reach_verified] crash_recover [OF reach_publishing]
  by (cases r; cases p; cases vf; cases ps) simp_all

lemma reach_cancelled:
  assumes "r \<longrightarrow> a" and "p \<longrightarrow> r" and "vf \<longrightarrow> p"
  shows "txn_reachable (chain_vars StateCancelled a r p vf False False 0 0)"
proof -
  have cancel: "txn_reachable (chain_vars StateCancelled a' r' p' vf' False False 0 0)"
    if "txn_reachable (chain_vars st a' r' p' vf' False False 0 0)"
      and "st \<in> {StateCreated, StateAuthorized, StateContentReceived, StatePrepared, StateVerified}" for st a' r' p' vf'
    by (rule txn_reach_step [OF that(1) txn_Cancel]) (use that(2) in \<open>auto simp: chain_vars_def\<close>)
  have "txn_reachable (chain_vars StateCreated False False False False False False 0 0)"
    by (rule reach_init) (simp add: txn_Init_def chain_vars_def)
  then show ?thesis
    using assms cancel [OF reach_authorized] cancel [OF reach_received] cancel [OF reach_prepared]
      cancel [OF reach_verified] cancel
    by (cases a; cases r; cases p; cases vf) simp_all
qed

subsection \<open>The scan\<close>

lemma scanRecord_unpublished:
  "scanRecord f r = Inr f' \<Longrightarrow> af_published f' = af_published f"
  "scanRecord f r = Inl (f', e) \<Longrightarrow> af_published f' = af_published f"
  by (auto simp: scanRecord_def contradicts_def Let_def split: if_splits sum.splits)

lemma scanLoop_unpublished:
  "(scanLoop f rs = Inr f' \<longrightarrow> af_published f' = af_published f) \<and>
   (scanLoop f rs = Inl (f', e) \<longrightarrow> af_published f' = af_published f)"
  by (induction rs arbitrary: f) (auto split: sum.splits dest: scanRecord_unpublished)

lemma scanChecks_fields [simp]:
  "af_published (scanChecks f) = af_published f" "af_prepared (scanChecks f) = af_prepared f"
  "af_contentReceived (scanChecks f) = af_contentReceived f" "af_contentVerified (scanChecks f) = af_contentVerified f"
  "af_authorized (scanChecks f) = af_authorized f" "af_publicationStarted (scanChecks f) = af_publicationStarted f"
  "af_confirmationCount (scanChecks f) = af_confirmationCount f" "af_cancelled (scanChecks f) = af_cancelled f"
  "af_quarantined (scanChecks f) = af_quarantined f" "af_binding (scanChecks f) = af_binding f"
  "af_txid (scanChecks f) = af_txid f"
  by (simp_all add: scanChecks_def Let_def split: option.split)

lemma scan_unpublished: "scanPrefix prefix = (f, e) \<Longrightarrow> \<not> af_published f"
  using scanLoop_unpublished [of zero_flags "p_Records prefix"]
  by (auto simp: scanPrefix_def zero_flags_def split: sum.splits)

text \<open>An early return carries a contradiction or an error; without either the checks hold.\<close>

lemma scanRecord_Inl: "scanRecord f r = Inl (f', e) \<Longrightarrow> e \<noteq> None \<or> af_contradiction f' \<noteq> []"
  by (auto simp: scanRecord_def contradicts_def Let_def split: if_splits sum.splits)

lemma scanLoop_Inl: "scanLoop f rs = Inl (f', e) \<Longrightarrow> e \<noteq> None \<or> af_contradiction f' \<noteq> []"
  by (induction rs arbitrary: f) (auto split: sum.splits dest: scanRecord_Inl)

lemma scanChecks_clean:
  assumes "af_contradiction (scanChecks f) = []"
  shows "af_prepared f \<longrightarrow> af_contentReceived f" "af_contentVerified f \<longrightarrow> af_prepared f"
    "af_publicationStarted f \<longrightarrow> af_authorized f \<and> af_contentVerified f" "af_contradiction f = []"
  using assms by (auto simp: scanChecks_def Let_def split: if_splits option.splits)

lemma scanPrefix_clean:
  assumes "scanPrefix prefix = (f, None)" and "af_contradiction f = []"
  obtains g where "scanLoop zero_flags (p_Records prefix) = Inr g" "f = scanChecks g"
  using assms scanLoop_Inl [of zero_flags "p_Records prefix"]
  by (auto simp: scanPrefix_def split: sum.splits)

lemma scanPrefix_chain:
  assumes "scanPrefix prefix = (f, None)" and "af_contradiction f = []"
  shows "af_prepared f \<longrightarrow> af_contentReceived f" "af_contentVerified f \<longrightarrow> af_prepared f"
    "af_publicationStarted f \<longrightarrow> af_authorized f \<and> af_contentVerified f"
  using scanPrefix_clean [OF assms] assms(2) scanChecks_clean by (metis scanChecks_fields)+

subsection \<open>Outcomes\<close>

lemma maybeCleanup_out: "maybeCleanup ops policy io out obs = (out', io', e) \<Longrightarrow> \<exists>as. out' = out\<lparr>out_Actions := as\<rparr>"
  unfolding maybeCleanup_def add_action_def
  by (auto simp: Let_def split: option.splits if_splits prod.splits) (metis rec_outcome.surjective rec_outcome.update_convs(2))+

lemma maybeQuarantine_out: "maybeQuarantine ops policy io out obs = (out', io', e) \<Longrightarrow> \<exists>as. out' = out\<lparr>out_Actions := as\<rparr>"
  unfolding maybeQuarantine_def add_action_def
  by (auto simp: Let_def split: option.splits if_splits prod.splits) (metis rec_outcome.surjective rec_outcome.update_convs(2))+

lemma confirmOnce_out: "confirmOnce ops txid s out = (out', io', e) \<Longrightarrow> \<exists>as. out' = out\<lparr>out_Actions := as\<rparr>"
  unfolding confirmOnce_def add_action_def
  by (auto simp: Let_def split: option.splits if_splits prod.splits) (metis rec_outcome.surjective rec_outcome.update_convs(2))+

lemma effects_allowed:
  "maybeCleanup ops policy io out obs = (out', io', e) \<Longrightarrow> io' \<noteq> io \<Longrightarrow> pol_AllowStagingCleanup policy"
  "maybeQuarantine ops policy io out obs = (out', io', e) \<Longrightarrow> io' \<noteq> io \<Longrightarrow> pol_AllowStagingCleanup policy"
  by (auto simp: maybeCleanup_def maybeQuarantine_def split: option.splits if_splits)

lemma settle_fields [simp]:
  "out_State (settle st out) = st" "out_Published (settle st out) = out_Published out"
  "out_Authorized (settle st out) = out_Authorized out" "out_RecoveryCount (settle st out) = 1"
  "out_IdempotentNoop (settle st out) = True" "out_Confirmations (settle st out) = out_Confirmations out"
  by (simp_all add: settle_def)

text \<open>What a decided outcome says, relative to the flags it was decided from.\<close>

definition decided :: "abstract_flags \<Rightarrow> rec_outcome \<Rightarrow> rec_outcome \<Rightarrow> bool" where
  "decided flags out out' \<longleftrightarrow>
     out_Published out' = af_published flags \<and> out_Authorized out' = out_Authorized out \<and>
     out_RecoveryCount out' = 1 \<and> out_IdempotentNoop out' \<and>
     (if af_published flags
      then out_State out' = StateConfirmed \<and> out_Confirmations out' = 1 \<or>
           out_State out' = StatePublished \<and> out_Confirmations out' = 0
      else out_State out' \<in> {StateCancelled, StateQuarantined} \<and> out_Confirmations out' = out_Confirmations out)"

lemma after_effect_ok:
  assumes "after_effect st eff = (out', io', None, evs)"
  obtains out1 where "eff = (out1, io', None)" "out' = settle st out1" "evs = []"
  using assms by (auto simp: after_effect_def split: prod.splits option.splits)

lemma decided_unpublished:
  "\<not> af_published flags \<Longrightarrow> out_Published out = af_published flags \<Longrightarrow> st \<in> {StateCancelled, StateQuarantined} \<Longrightarrow>
   decided flags out (settle st (out\<lparr>out_Actions := as\<rparr>))"
  by (auto simp: decided_def)

lemma recoverDecide_ok:
  assumes eq: "recoverDecide ops obs policy io flags out = (out', io', None, evs)"
    and cnt: "af_confirmationCount flags \<le> 1" "out_Confirmations out = af_confirmationCount flags"
    and pub: "out_Published out = af_published flags"
  shows "decided flags out out' \<and> (af_published flags \<or> af_confirmationCount flags = 0)"
proof -
  consider (confirmed) "af_confirmationCount flags = 1"
    | (cancelled) "af_confirmationCount flags = 0" "\<not> af_published flags" "af_cancelled flags \<and> \<not> af_publicationStarted flags"
    | (quarantined) "af_confirmationCount flags = 0" "\<not> af_published flags"
        "\<not> (af_cancelled flags \<and> \<not> af_publicationStarted flags)" "af_quarantined flags"
    | (published) "af_confirmationCount flags = 0" "af_published flags"
    | (other) "af_confirmationCount flags = 0" "\<not> af_published flags"
        "\<not> (af_cancelled flags \<and> \<not> af_publicationStarted flags)" "\<not> af_quarantined flags"
    using cnt(1) by (metis less_one linorder_not_le order_antisym_conv)
  then show ?thesis
  proof cases
    case confirmed
    then show ?thesis
      using eq cnt pub by (auto simp: recoverDecide_def stop_closed_def decided_def split: if_splits)
  next
    case cancelled
    then have "after_effect StateCancelled (maybeCleanup ops policy io out obs) = (out', io', None, evs)"
      using eq by (simp add: recoverDecide_def)
    then show ?thesis
      using cancelled pub by (auto elim!: after_effect_ok dest!: maybeCleanup_out intro: decided_unpublished)
  next
    case quarantined
    then have "after_effect StateQuarantined (maybeQuarantine ops policy io out obs) = (out', io', None, evs)"
      using eq by (cases "af_cancelled flags") (simp_all add: recoverDecide_def)
    then show ?thesis
      using quarantined pub by (auto elim!: after_effect_ok dest!: maybeQuarantine_out intro: decided_unpublished)
  next
    case published
    then show ?thesis
      using eq cnt pub
      by (auto simp: recoverDecide_def decided_def Let_def split: option.splits if_splits prod.splits dest!: confirmOnce_out)
  next
    case other
    then obtain out1 where "after_effect StateQuarantined (maybeQuarantine ops policy io out obs) = (out1, io', None, evs)"
      and out': "out' = out1\<lparr>out_Published := False\<rparr>"
      using eq by (cases "af_cancelled flags") (auto simp: recoverDecide_def split: prod.splits option.splits)
    then have "decided flags out out1"
      using other pub by (auto elim!: after_effect_ok dest!: maybeQuarantine_out intro: decided_unpublished)
    then show ?thesis
      using other pub unfolding out' by (auto simp: decided_def)
  qed
qed

text \<open>The conditions under which \<open>Recover\<close> looks at the outcome at all.\<close>

definition identity_matches :: "abstract_flags \<Rightarrow> fs_observation \<Rightarrow> bool" where
  "identity_matches flags obs \<longleftrightarrow>
     (case af_binding flags of
        Some b \<Rightarrow> ab_RootIdentity b = ob_RootIdentity obs \<and> ab_VolumeIdentity b = ob_VolumeIdentity obs
      | None \<Rightarrow> True)"

definition linearized :: "fs_observation \<Rightarrow> bool" where
  "linearized obs \<longleftrightarrow> ob_PublicationLinearized obs \<and> ob_PublishedContentMatches obs"

definition full_chain :: "abstract_flags \<Rightarrow> bool" where
  "full_chain flags \<longleftrightarrow>
     af_authorized flags \<and> af_contentReceived flags \<and> af_prepared flags \<and> af_contentVerified flags"

definition admissible :: "journal_prefix \<Rightarrow> fs_observation \<Rightarrow> abstract_flags \<Rightarrow> bool" where
  "admissible prefix obs flags \<longleftrightarrow>
     scanPrefix prefix = (flags, None) \<and> af_contradiction flags = [] \<and> identity_matches flags obs \<and>
     af_confirmationCount flags \<le> 1 \<and> (linearized obs \<longrightarrow> full_chain flags)"

definition nothing_durable :: "journal_prefix \<Rightarrow> fs_observation \<Rightarrow> bool" where
  "nothing_durable prefix obs \<longleftrightarrow> p_Records prefix = [] \<and> \<not> p_Torn prefix \<and> \<not> ob_StagingPresent obs
     \<and> \<not> ob_PublicationStarted obs \<and> \<not> ob_PublicationLinearized obs"

definition settled :: "journal_prefix \<Rightarrow> fs_observation \<Rightarrow> abstract_flags \<Rightarrow> bool" where
  "settled prefix obs f \<longleftrightarrow> terminalFromFlags f \<and> \<not> p_Torn prefix \<and>
     \<not> (ob_StagingPresent obs \<and> \<not> af_published f) \<and> \<not> (af_publicationStarted f \<and> \<not> af_published f)"

definition base_outcome :: "journal_prefix \<Rightarrow> fs_observation \<Rightarrow> abstract_flags \<Rightarrow> rec_outcome" where
  "base_outcome prefix obs flags =
     zero_outcome\<lparr>out_TornTail := p_Torn prefix, out_TransactionID := af_txid flags,
       out_Authorized := af_authorized flags, out_Confirmations := af_confirmationCount flags,
       out_Binding := af_binding flags, out_Published := af_published (observePublication obs flags)\<rparr>"

lemmas recover_condition_defs = identity_matches_def linearized_def full_chain_def admissible_def

lemma Recover_admissible:
  assumes "admissible prefix obs flags"
  shows "Recover ops prefix obs policy io =
    (let f = observePublication obs flags; out = base_outcome prefix obs flags in
     if nothing_durable prefix obs
     then (out\<lparr>out_State := StateCreated, out_IdempotentNoop := True, out_Actions := [action_of ActionNoop]\<rparr>, io, None, [])
     else if settled prefix obs f
     then ((settle (stateFromFlags f) out)\<lparr>out_Actions := [action_of ActionNoop]\<rparr>, io, None, [])
     else recoverDecide ops obs policy io f
       (out\<lparr>out_Actions := [action_of ActionEnterRecovering], out_State := StateRecovering\<rparr>))"
proof -
  have id: "(case af_binding flags of
      Some b \<Rightarrow> ab_RootIdentity b \<noteq> ob_RootIdentity obs \<or> ab_VolumeIdentity b \<noteq> ob_VolumeIdentity obs
    | None \<Rightarrow> False) = False"
    using assms by (auto simp: recover_condition_defs split: option.splits)
  have ch: "(ob_PublicationLinearized obs \<and> ob_PublishedContentMatches obs \<and>
      (\<not> af_authorized flags \<or> \<not> af_prepared flags \<or> \<not> af_contentVerified flags \<or> \<not> af_contentReceived flags)) = False"
    using assms by (auto simp: recover_condition_defs)
  have rest: "scanPrefix prefix = (flags, None)" "(af_contradiction flags \<noteq> []) = False"
    "(af_confirmationCount flags > 1) = False"
    using assms by (auto simp: admissible_def)
  show ?thesis
    unfolding Recover_def rest(1) prod.case option.case Let_def id if_False ch rest(2,3)
    by (simp add: base_outcome_def nothing_durable_def settled_def zero_outcome_def)
qed

lemma Recover_inadmissible:
  assumes "\<nexists>flags. admissible prefix obs flags"
  obtains out e evs where "Recover ops prefix obs policy io = (out, io, Some e, evs)"
    "out_State out = StateIrrecoverable \<or> out = zero_outcome"
proof (cases "scanPrefix prefix")
  case (Pair flags err)
  show ?thesis
  proof (cases err)
    case None
    then have "\<not> (af_contradiction flags = [] \<and> identity_matches flags obs \<and> af_confirmationCount flags \<le> 1 \<and>
        (linearized obs \<longrightarrow> full_chain flags))"
      using assms Pair by (auto simp: admissible_def)
    then show ?thesis
      using Pair None that
      by (fastforce simp: Recover_def Let_def stop_closed_def recover_condition_defs split: option.splits if_splits)
  next
    case (Some e)
    then show ?thesis
      using Pair by (intro that) (auto simp: Recover_def)
  qed
qed

lemma Recover_success:
  assumes "Recover ops prefix obs policy io = (out, io', None, evs)"
  obtains flags where "admissible prefix obs flags"
proof (rule ccontr)
  assume "\<not> thesis"
  then have "\<nexists>flags. admissible prefix obs flags"
    using that by blast
  then obtain o1 e evs1 where "Recover ops prefix obs policy io = (o1, io, Some e, evs1)"
    by (rule Recover_inadmissible)
  with assms show False
    by simp
qed

text \<open>The state a successful recovery decides, as a function of the flags and of whether it may confirm.\<close>

definition final_state :: "abstract_flags \<Rightarrow> bool \<Rightarrow> txn_state" where
  "final_state f c =
     (if af_published f then if af_confirmationCount f = 1 \<or> c then StateConfirmed else StatePublished
      else if af_cancelled f \<and> \<not> af_publicationStarted f then StateCancelled else StateQuarantined)"

definition final_confirmations :: "abstract_flags \<Rightarrow> bool \<Rightarrow> nat" where
  "final_confirmations f c = (if af_published f \<and> c then 1 else af_confirmationCount f)"

definition may_confirm :: "rec_policy \<Rightarrow> 's option \<Rightarrow> bool" where
  "may_confirm policy io \<longleftrightarrow> pol_AllowConfirm policy \<and> io \<noteq> None"

lemma observePublication_fields [simp]:
  "af_published (observePublication obs f) \<longleftrightarrow> linearized obs \<or> af_published f"
  "af_publicationStarted (observePublication obs f) \<longleftrightarrow> linearized obs \<or> ob_PublicationStarted obs \<or> af_publicationStarted f"
  "af_authorized (observePublication obs f) = af_authorized f"
  "af_contentReceived (observePublication obs f) = af_contentReceived f"
  "af_prepared (observePublication obs f) = af_prepared f"
  "af_contentVerified (observePublication obs f) = af_contentVerified f"
  "af_confirmationCount (observePublication obs f) = af_confirmationCount f"
  "af_cancelled (observePublication obs f) = af_cancelled f"
  "af_quarantined (observePublication obs f) = af_quarantined f"
  "af_txid (observePublication obs f) = af_txid f"
  by (auto simp: observePublication_def linearized_def)

lemma base_outcome_fields [simp]:
  "out_Published (base_outcome prefix obs f) = af_published (observePublication obs f)"
  "out_Authorized (base_outcome prefix obs f) = af_authorized f"
  "out_Confirmations (base_outcome prefix obs f) = af_confirmationCount f"
  "out_TransactionID (base_outcome prefix obs f) = af_txid f"
  by (simp_all add: base_outcome_def)

lemma recoverDecide_state:
  assumes eq: "recoverDecide ops obs policy io f out = (out', io', None, evs)"
    and cnt: "af_confirmationCount f \<le> 1" "out_Confirmations out = af_confirmationCount f"
    and ps: "af_published f \<longrightarrow> af_publicationStarted f"
  shows "out_State out' = final_state f (may_confirm policy io)"
    "out_Confirmations out' = final_confirmations f (may_confirm policy io)"
    "out_TransactionID out' = out_TransactionID out"
proof -
  have *: "\<exists>out1. out' = settle st out1 \<and> (\<exists>as. out1 = out\<lparr>out_Actions := as\<rparr>)"
    if ok: "after_effect st eff = (out', io', None, evs)"
      and which: "eff = maybeCleanup ops policy io out obs \<or> eff = maybeQuarantine ops policy io out obs" for st eff out'
  proof -
    obtain out1 where out1: "eff = (out1, io', None)" "out' = settle st out1"
      using ok by (rule after_effect_ok)
    have "\<exists>as. out1 = out\<lparr>out_Actions := as\<rparr>"
      using which unfolding out1(1) using maybeCleanup_out [OF sym] maybeQuarantine_out [OF sym] by blast
    with out1(2) show ?thesis by blast
  qed
  have "out_State out' = final_state f (may_confirm policy io) \<and>
    out_Confirmations out' = final_confirmations f (may_confirm policy io) \<and>
    out_TransactionID out' = out_TransactionID out"
  proof (cases "af_confirmationCount f = 1 \<or> af_published f")
    case True
    then show ?thesis
      using eq cnt ps
      by (auto simp: recoverDecide_def stop_closed_def final_state_def final_confirmations_def may_confirm_def
          settle_def Let_def split: option.splits if_splits prod.splits dest!: confirmOnce_out)
  next
    case False
    then show ?thesis
      using eq cnt ps
      by (auto simp: recoverDecide_def final_state_def final_confirmations_def settle_def
          split: if_splits prod.splits option.splits dest!: *)
  qed
  then show "out_State out' = final_state f (may_confirm policy io)"
    "out_Confirmations out' = final_confirmations f (may_confirm policy io)"
    "out_TransactionID out' = out_TransactionID out"
    by blast+
qed

lemma Recover_final:
  assumes adm: "admissible prefix obs flags" and dur: "\<not> nothing_durable prefix obs"
    and eq: "Recover ops prefix obs policy io = (out, io', None, evs)"
  defines "f \<equiv> observePublication obs flags"
  shows "out_State out = final_state f (may_confirm policy io)"
    "out_Confirmations out = final_confirmations f (may_confirm policy io)"
    "out_Published out = af_published f" "out_Authorized out = af_authorized flags"
    "out_TransactionID out = af_txid flags" "out_RecoveryCount out = 1"
    "settled prefix obs f \<or> af_published f \<or> af_confirmationCount flags = 0"
proof -
  have cnt: "af_confirmationCount f \<le> 1" and pubf: "af_published f \<longrightarrow> af_publicationStarted f"
    using adm scan_unpublished by (auto simp: admissible_def f_def)
  have all: "out_State out = final_state f (may_confirm policy io) \<and>
    out_Confirmations out = final_confirmations f (may_confirm policy io) \<and>
    out_Published out = af_published f \<and> out_Authorized out = af_authorized flags \<and>
    out_TransactionID out = af_txid flags \<and> out_RecoveryCount out = 1 \<and>
    (settled prefix obs f \<or> af_published f \<or> af_confirmationCount flags = 0)"
  proof (cases "settled prefix obs f")
    case True
    then have out: "out = (settle (stateFromFlags f) (base_outcome prefix obs flags))\<lparr>out_Actions := [action_of ActionNoop]\<rparr>"
      using eq dur Recover_admissible [OF adm, of ops policy io] by (simp add: Let_def f_def)
    have "stateFromFlags f = final_state f (may_confirm policy io)"
      and "af_confirmationCount f = final_confirmations f (may_confirm policy io)"
      using True pubf
      by (auto simp: settled_def terminalFromFlags_def stateFromFlags_def final_state_def final_confirmations_def
          split: if_splits)
    then show ?thesis
      using True by (simp add: out) (simp add: settle_def f_def)
  next
    case False
    let ?out = "(base_outcome prefix obs flags)\<lparr>out_Actions := [action_of ActionEnterRecovering], out_State := StateRecovering\<rparr>"
    have dec: "recoverDecide ops obs policy io f ?out = (out, io', None, evs)"
      using eq dur False Recover_admissible [OF adm, of ops policy io] by (simp add: Let_def f_def)
    have "decided f ?out out \<and> (af_published f \<or> af_confirmationCount f = 0)"
      using recoverDecide_ok [OF dec cnt] by (simp add: f_def)
    moreover note recoverDecide_state [OF dec cnt _ pubf]
    ultimately show ?thesis
      using False by (simp add: decided_def f_def)
  qed
  show "out_State out = final_state f (may_confirm policy io)"
    "out_Confirmations out = final_confirmations f (may_confirm policy io)"
    "out_Published out = af_published f" "out_Authorized out = af_authorized flags"
    "out_TransactionID out = af_txid flags" "out_RecoveryCount out = 1"
    "settled prefix obs f \<or> af_published f \<or> af_confirmationCount flags = 0"
    using all by simp_all
qed

subsection \<open>Properties\<close>

text \<open>The valuation of the transaction model's variables that a recovery reports.\<close>

definition abstract_vars :: "journal_prefix \<Rightarrow> fs_observation \<Rightarrow> rec_outcome \<Rightarrow> txn_vars" where
  "abstract_vars prefix obs out =
     (let f = observePublication obs (fst (scanPrefix prefix)) in
      chain_vars (out_State out) (af_authorized f) (af_contentReceived f) (af_prepared f) (af_contentVerified f)
        (af_publicationStarted f) (af_published f) (out_Confirmations out) (out_RecoveryCount out))"

lemma recover_created:
  assumes adm: "admissible prefix obs flags" and nd: "nothing_durable prefix obs"
    and eq: "Recover ops prefix obs policy io = (out, io', None, evs)"
  shows "out_State out = StateCreated \<and> txn_reachable (abstract_vars prefix obs out)"
proof -
  have scan: "scanPrefix prefix = (flags, None)"
    using adm by (simp add: admissible_def)
  have flags: "flags = scanChecks zero_flags"
    using scan nd by (simp add: scanPrefix_def nothing_durable_def)
  have unpub: "\<not> linearized obs" "\<not> ob_PublicationStarted obs"
    using nd by (auto simp: nothing_durable_def linearized_def)
  have out: "out = (base_outcome prefix obs flags)\<lparr>out_State := StateCreated, out_IdempotentNoop := True,
      out_Actions := [action_of ActionNoop]\<rparr>"
    using eq nd Recover_admissible [OF adm, of ops policy io] by (simp add: Let_def)
  have "abstract_vars prefix obs out = chain_vars StateCreated False False False False False False 0 0"
    using unpub by (simp add: abstract_vars_def scan out base_outcome_def zero_outcome_def flags zero_flags_def)
  then show ?thesis
    by (simp add: out reach_init txn_Init_def chain_vars_def)
qed

lemma recover_published_reach:
  assumes adm: "admissible prefix obs flags" and dur: "\<not> nothing_durable prefix obs"
    and eq: "Recover ops prefix obs policy io = (out, io', None, evs)" and lin: "linearized obs"
  shows "out_State out \<in> {StatePublished, StateConfirmed} \<and> txn_reachable (abstract_vars prefix obs out)"
proof -
  note fin = Recover_final [OF adm dur eq]
  have scan: "scanPrefix prefix = (flags, None)" and full: "full_chain flags"
    using adm lin by (auto simp: admissible_def)
  have "out_State out = StateConfirmed \<and> out_Confirmations out = 1 \<or> out_State out = StatePublished \<and> out_Confirmations out = 0"
    using fin(1,2) lin adm
    by (auto simp: final_state_def final_confirmations_def admissible_def le_Suc_eq split: if_splits)
  then show ?thesis
    using lin full fin(6) reach_recovered_published reach_recovered_confirmed
    by (auto simp: abstract_vars_def scan full_chain_def)
qed

lemma recover_quarantined_reach:
  assumes adm: "admissible prefix obs flags" and dur: "\<not> nothing_durable prefix obs"
    and eq: "Recover ops prefix obs policy io = (out, io', None, evs)" and unpub: "\<not> linearized obs"
    and st: "out_State out = StateQuarantined"
  shows "txn_reachable (abstract_vars prefix obs out) \<longleftrightarrow>
    out_Authorized out \<and> out_Confirmations out = 0 \<and> (ob_PublicationStarted obs \<longrightarrow> af_contentVerified flags)"
proof -
  note fin = Recover_final [OF adm dur eq]
  have scan: "scanPrefix prefix = (flags, None)" and clean: "af_contradiction flags = []"
    and np: "\<not> af_published flags"
    using adm scan_unpublished by (auto simp: admissible_def)
  note chain = scanPrefix_chain [OF scan clean]
  have vars: "abstract_vars prefix obs out = chain_vars StateQuarantined (af_authorized flags)
      (af_contentReceived flags) (af_prepared flags) (af_contentVerified flags)
      (ob_PublicationStarted obs \<or> af_publicationStarted flags) False (out_Confirmations out) 1"
    using unpub st fin(6) np by (simp add: abstract_vars_def scan)
  show ?thesis
    unfolding vars fin(4)
  proof
    assume "txn_reachable (chain_vars StateQuarantined (af_authorized flags)
      (af_contentReceived flags) (af_prepared flags) (af_contentVerified flags)
      (ob_PublicationStarted obs \<or> af_publicationStarted flags) False (out_Confirmations out) 1)"
    from txn.reach_inv [OF this]
    show "af_authorized flags \<and> out_Confirmations out = 0 \<and> (ob_PublicationStarted obs \<longrightarrow> af_contentVerified flags)"
      by (auto simp: txn_inv_def chain_vars_def le_Suc_eq)
  next
    assume q: "af_authorized flags \<and> out_Confirmations out = 0 \<and> (ob_PublicationStarted obs \<longrightarrow> af_contentVerified flags)"
    have "txn_reachable (chain_vars StateQuarantined True (af_contentReceived flags) (af_prepared flags)
        (af_contentVerified flags) (ob_PublicationStarted obs \<or> af_publicationStarted flags) False 0 1)"
      using chain q by (intro reach_recovered_quarantined) auto
    with q show "txn_reachable (chain_vars StateQuarantined (af_authorized flags)
      (af_contentReceived flags) (af_prepared flags) (af_contentVerified flags)
      (ob_PublicationStarted obs \<or> af_publicationStarted flags) False (out_Confirmations out) 1)"
      by simp
  qed
qed

lemma recover_cancelled_reach:
  assumes adm: "admissible prefix obs flags" and dur: "\<not> nothing_durable prefix obs"
    and eq: "Recover ops prefix obs policy io = (out, io', None, evs)" and unpub: "\<not> linearized obs"
    and st: "out_State out = StateCancelled"
    and ns: "\<not> af_publicationStarted (observePublication obs flags)"
  shows "txn_reachable ((abstract_vars prefix obs out)\<lparr>tv_recoveryCount := 0\<rparr>) \<longleftrightarrow>
    out_Confirmations out = 0 \<and> (af_contentReceived flags \<longrightarrow> out_Authorized out)"
proof -
  note fin = Recover_final [OF adm dur eq]
  have scan: "scanPrefix prefix = (flags, None)" and clean: "af_contradiction flags = []"
    and np: "\<not> af_published flags"
    using adm scan_unpublished by (auto simp: admissible_def)
  note chain = scanPrefix_chain [OF scan clean]
  let ?v = "chain_vars StateCancelled (af_authorized flags) (af_contentReceived flags) (af_prepared flags)
      (af_contentVerified flags) False False (out_Confirmations out) 0"
  have vars: "(abstract_vars prefix obs out)\<lparr>tv_recoveryCount := 0\<rparr> = ?v"
    using unpub st np ns by (simp add: abstract_vars_def scan chain_vars_def)
  have "out_Confirmations out = 0 \<and> (af_contentReceived flags \<longrightarrow> af_authorized flags)" if "txn_reachable ?v"
    using txn.reach_inv [OF that] by (auto simp: txn_inv_def chain_vars_def le_Suc_eq)
  moreover have "txn_reachable ?v" if "out_Confirmations out = 0" "af_contentReceived flags \<longrightarrow> af_authorized flags"
    using chain reach_cancelled that by auto
  ultimately show ?thesis
    unfolding vars fin(4) by blast
qed

text \<open>
  C3: What a successful recovery reports, compared with the transaction model, whose variables are
  read off the journal, the observation and the outcome.  It reports one of five states.  CREATED,
  PUBLISHED and CONFIRMED are always states the model reaches, so all its invariants hold of them,
  and PUBLISHED and CONFIRMED are reported only for a publication that was observed linearised with
  matching content: never from the journal alone.  QUARANTINED is a state the model reaches
  exactly when the transaction was authorised, no confirmation was recorded and a publication
  observed as started had its content verified first.  CANCELLED, with the recovery not counted
  (the model's \<open>Recover\<close> never cancels), exactly when no confirmation was recorded and received
  content was authorised.
\<close>

theorem recover_refines_transaction:
  assumes eq: "Recover ops prefix obs policy io = (out, io', None, evs)"
  shows "out_State out \<in> {StateCreated, StatePublished, StateConfirmed, StateQuarantined, StateCancelled} \<and>
    (out_State out \<in> {StateCreated, StatePublished, StateConfirmed} \<longrightarrow>
       reach txn_Init txn_Next (abstract_vars prefix obs out)) \<and>
    (out_State out \<in> {StatePublished, StateConfirmed} \<longrightarrow>
       ob_PublicationLinearized obs \<and> ob_PublishedContentMatches obs) \<and>
    (out_State out = StateQuarantined \<longrightarrow>
       (reach txn_Init txn_Next (abstract_vars prefix obs out) \<longleftrightarrow>
        out_Authorized out \<and> out_Confirmations out = 0 \<and>
        (ob_PublicationStarted obs \<longrightarrow> af_contentVerified (fst (scanPrefix prefix))))) \<and>
    (out_State out = StateCancelled \<longrightarrow>
       (reach txn_Init txn_Next ((abstract_vars prefix obs out)\<lparr>tv_recoveryCount := 0\<rparr>) \<longleftrightarrow>
        out_Confirmations out = 0 \<and>
        (af_contentReceived (fst (scanPrefix prefix)) \<longrightarrow> out_Authorized out)))"
proof -
  obtain flags where adm: "admissible prefix obs flags"
    using Recover_success [OF eq] .
  show ?thesis
  proof (cases "nothing_durable prefix obs")
    case True
    then show ?thesis
      using recover_created [OF adm True eq] by simp
  next
    case False
    note fin = Recover_final [OF adm False eq]
    have scan: "scanPrefix prefix = (flags, None)" and np: "\<not> af_published flags"
      using adm scan_unpublished by (auto simp: admissible_def)
    show ?thesis
    proof (cases "linearized obs")
      case True
      then show ?thesis
        using recover_published_reach [OF adm False eq] by (auto simp: linearized_def)
    next
      case unpub: False
      then have st: "out_State out = StateQuarantined \<or>
          out_State out = StateCancelled \<and> \<not> af_publicationStarted (observePublication obs flags)"
        using fin(1) np by (auto simp: final_state_def split: if_splits)
      then show ?thesis
        using recover_quarantined_reach [OF adm False eq unpub] recover_cancelled_reach [OF adm False eq unpub]
        by (auto simp: scan)
    qed
  qed
qed

text \<open>
  C30: Recovery touches storage only with authority.  If the persistence interface changed state,
  the journal was free of contradictions and of confirmations, the recorded root and volume
  identities match the observed ones, and either the policy allows staging cleanup and no
  publication was observed, or the policy allows confirming and the observed publication has
  its full authorisation chain.
\<close>

theorem recover_effects_authorised:
  assumes eq: "Recover ops prefix obs policy io = (out, io', err, evs)" and touched: "io' \<noteq> io"
  shows "\<exists>flags. scanPrefix prefix = (flags, None) \<and> af_contradiction flags = [] \<and>
    af_confirmationCount flags = 0 \<and> identity_matches flags obs \<and>
    (pol_AllowStagingCleanup policy \<and> \<not> linearized obs \<or>
     pol_AllowConfirm policy \<and> linearized obs \<and> full_chain flags)"
proof -
  obtain flags where adm: "admissible prefix obs flags"
    using Recover_inadmissible [of prefix obs ops policy io] eq touched by (metis prod.inject)
  let ?f = "observePublication obs flags"
  let ?out = "(base_outcome prefix obs flags)\<lparr>out_Actions := [action_of ActionEnterRecovering], out_State := StateRecovering\<rparr>"
  have np: "\<not> af_published flags"
    using adm scan_unpublished by (auto simp: admissible_def)
  have dec: "recoverDecide ops obs policy io ?f ?out = (out, io', err, evs)"
    using eq touched Recover_admissible [OF adm, of ops policy io] by (auto simp: Let_def split: if_splits)
  have cnt: "af_confirmationCount flags = 0"
  proof (rule ccontr)
    assume "af_confirmationCount flags \<noteq> 0"
    then have "af_confirmationCount flags = 1"
      using adm by (auto simp: admissible_def)
    then show False
      using dec touched by (auto simp: recoverDecide_def stop_closed_def split: if_splits)
  qed
  have "pol_AllowStagingCleanup policy \<and> \<not> linearized obs \<or> pol_AllowConfirm policy \<and> linearized obs"
    using dec touched cnt np
    by (auto simp: recoverDecide_def after_effect_def Let_def split: if_splits option.splits prod.splits
        dest: effects_allowed)
  then show ?thesis
    using adm cnt by (auto simp: admissible_def)
qed

text \<open>A sample transaction: an authorisation and the three progress records before publication.\<close>

definition sample_rec :: "record_type \<Rightarrow> bytes \<Rightarrow> journal_record" where
  "sample_rec t payload = \<lparr>r_Sequence = 1, r_TransactionID = replicate 16 7, r_Type = t,
     r_PayloadDigest = zero_digest, r_PreviousCommitment = zero_digest, r_Payload = payload,
     r_RecordCommitment = zero_digest, r_RecordLength = 0\<rparr>"

definition sample_binding :: authorization_binding where
  "sample_binding = \<lparr>ab_PlanDigest = replicate 32 1, ab_ConfigurationDigest = zero_digest,
     ab_CapabilityVectorDigest = zero_digest, ab_RootIdentity = replicate 32 2,
     ab_VolumeIdentity = replicate 32 3, ab_AuthDigest = zero_digest\<rparr>"

definition sample_txn :: journal_prefix where
  "sample_txn = zero_prefix\<lparr>p_Records :=
     [sample_rec TypeAuthorization (EncodeAuthorizationPayload sample_binding),
      sample_rec TypeProgress (EncodeProgressPayload ProgressContentReceived),
      sample_rec TypeProgress (EncodeProgressPayload ProgressPrepared),
      sample_rec TypeProgress (EncodeProgressPayload ProgressVerified)]\<rparr>"

definition sample_obs :: "bool \<Rightarrow> bool \<Rightarrow> fs_observation" where
  "sample_obs staged published = \<lparr>ob_RootIdentity = replicate 32 2, ob_VolumeIdentity = replicate 32 3,
     ob_StagingPresent = staged, ob_PublicationStarted = published, ob_PublicationLinearized = published,
     ob_PublishedContentMatches = published\<rparr>"

definition sample_policy :: rec_policy where
  "sample_policy = \<lparr>pol_AllowStagingCleanup = True, pol_AllowConfirm = True, pol_Events = True\<rparr>"

definition fresh_persist :: mem_persist where
  "fresh_persist = \<lparr>mp_FailAt = [], mp_Checkpoints = [], mp_Cleanups = 0, mp_Quarantines = 0,
     mp_Confirms = 0, mp_ConfirmTX = zero_txid, mp_StagingGone = False, mp_Quarantined = False\<rparr>"

text \<open>The flags of the sample and what recovery makes of an observed publication of it.\<close>

lemma sample_scan:
  "case scanPrefix sample_txn of (f, e) \<Rightarrow>
     e = None \<and> af_contradiction f = [] \<and> full_chain f \<and> af_confirmationCount f = 0"
  by code_simp

lemma sample_published:
  "case Recover mem_persist_ops sample_txn (sample_obs False True) sample_policy (Some fresh_persist) of
     (out, io, e, evs) \<Rightarrow> e = None \<and> out_State out = StateConfirmed \<and> out_TransactionID out = replicate 16 7 \<and>
       map_option mp_Confirms io = Some 1"
  by code_simp

theorem recover_refines_transaction_witness:
  "\<exists>out io evs. Recover mem_persist_ops sample_txn (sample_obs False True) sample_policy (Some fresh_persist) = (out, io, None, evs) \<and>
     out_State out = StateConfirmed \<and> reach txn_Init txn_Next (abstract_vars sample_txn (sample_obs False True) out)"
proof -
  obtain out io evs where r: "Recover mem_persist_ops sample_txn (sample_obs False True) sample_policy (Some fresh_persist) = (out, io, None, evs)"
    and st: "out_State out = StateConfirmed"
    using sample_published by (auto split: prod.splits)
  with recover_refines_transaction [OF r] show ?thesis
    by auto
qed

theorem recover_effects_authorised_witness:
  "\<exists>out io evs. Recover mem_persist_ops sample_txn (sample_obs False True) sample_policy (Some fresh_persist) = (out, io, None, evs) \<and>
     io \<noteq> Some fresh_persist \<and> full_chain (fst (scanPrefix sample_txn))"
proof -
  obtain out io evs where r: "Recover mem_persist_ops sample_txn (sample_obs False True) sample_policy (Some fresh_persist) = (out, io, None, evs)"
    and c: "map_option mp_Confirms io = Some 1"
    using sample_published by (auto split: prod.splits)
  then have "io \<noteq> Some fresh_persist"
    by (auto simp: fresh_persist_def)
  with recover_effects_authorised [OF r] r show ?thesis
    by (auto simp: sample_obs_def linearized_def)
qed

subsection \<open>Recovering again\<close>

lemma scanRecord_hasTx: "scanRecord f r = Inr f' \<Longrightarrow> af_hasTx f' \<and> (af_hasTx f \<longrightarrow> af_txid f' = af_txid f)"
  by (auto simp: scanRecord_def contradicts_def Let_def split: if_splits sum.splits)

lemma scanLoop_hasTx: "scanLoop f rs = Inr g \<Longrightarrow> af_hasTx f \<or> rs \<noteq> [] \<Longrightarrow> af_hasTx g"
  by (induction rs arbitrary: f) (auto split: sum.splits dest: scanRecord_hasTx)

lemma scanLoop_append: "scanLoop f (rs @ ss) = (case scanLoop f rs of Inl r \<Rightarrow> Inl r | Inr g \<Rightarrow> scanLoop g ss)"
  by (induction rs arbitrary: f) (auto split: sum.splits)

lemma scanChecks_count:
  "scanChecks (f\<lparr>af_confirmationCount := n\<rparr>) = (scanChecks f)\<lparr>af_confirmationCount := n\<rparr>"
  by (cases "af_binding f"; cases "af_prepared f"; cases "af_contentReceived f"; cases "af_contentVerified f";
      cases "af_publicationStarted f"; cases "af_authorized f") (simp_all add: scanChecks_def)

text \<open>The journal after the confirmation a recovery appended.\<close>

lemma admissible_confirmed:
  assumes adm: "admissible prefix obs flags" and lin: "linearized obs" and cnt: "af_confirmationCount flags = 0"
    and r: "r_Type r = TypeConfirmation" "r_TransactionID r = af_txid flags"
  shows "admissible (prefix\<lparr>p_Records := p_Records prefix @ [r]\<rparr>) obs (flags\<lparr>af_confirmationCount := 1\<rparr>)"
proof -
  have scan: "scanPrefix prefix = (flags, None)" and clean: "af_contradiction flags = []"
    using adm by (auto simp: admissible_def)
  obtain g where g: "scanLoop zero_flags (p_Records prefix) = Inr g" "flags = scanChecks g"
    using scanPrefix_clean [OF scan clean] .
  have "af_authorized g"
    using adm lin g(2) by (simp add: admissible_def full_chain_def)
  then have "p_Records prefix \<noteq> []"
    using g(1) by (auto simp: zero_flags_def)
  then have "af_hasTx g"
    using scanLoop_hasTx [OF g(1)] by blast
  then have "scanRecord g r = Inr (g\<lparr>af_confirmationCount := 1\<rparr>)"
    using r g(2) cnt by (simp add: scanRecord_def Let_def record_type_defs)
  then have "scanPrefix (prefix\<lparr>p_Records := p_Records prefix @ [r]\<rparr>) = (flags\<lparr>af_confirmationCount := 1\<rparr>, None)"
    by (simp add: scanPrefix_def scanLoop_append g scanChecks_count)
  then show ?thesis
    using adm by (simp add: admissible_def identity_matches_def full_chain_def)
qed

lemma admissible_staging:
  "admissible prefix (obs\<lparr>ob_StagingPresent := sp\<rparr>) flags = admissible prefix obs flags"
  by (simp add: admissible_def identity_matches_def linearized_def split: option.split)

lemma observe_staging:
  "observePublication (obs\<lparr>ob_StagingPresent := sp\<rparr>) f = observePublication obs f"
  by (simp add: observePublication_def)

lemma observe_count:
  "observePublication obs (f\<lparr>af_confirmationCount := n\<rparr>) = (observePublication obs f)\<lparr>af_confirmationCount := n\<rparr>"
  by (simp add: observePublication_def)

text \<open>When recovery has nothing to do in storage.\<close>

lemma Recover_quiet:
  assumes adm: "admissible prefix obs flags" and dur: "\<not> nothing_durable prefix obs"
    and quiet: "settled prefix obs (observePublication obs flags) \<or>
      (if linearized obs then af_confirmationCount flags = 1 \<or> \<not> may_confirm policy io
       else af_confirmationCount flags = 0 \<and> \<not> ob_StagingPresent obs \<and> \<not> ob_PublicationStarted obs)"
  shows "\<exists>out evs. Recover ops prefix obs policy io = (out, io, None, evs)"
proof -
  have np: "\<not> af_published flags" and cnt: "af_confirmationCount flags \<le> 1"
    using adm scan_unpublished by (auto simp: admissible_def)
  show ?thesis
  proof (cases "settled prefix obs (observePublication obs flags)")
    case True
    then show ?thesis
      using dur Recover_admissible [OF adm, of ops policy io] by (simp add: Let_def)
  next
    case False
    let ?out = "(base_outcome prefix obs flags)\<lparr>out_Actions := [action_of ActionEnterRecovering], out_State := StateRecovering\<rparr>"
    have dec: "Recover ops prefix obs policy io = recoverDecide ops obs policy io (observePublication obs flags) ?out"
      using dur False Recover_admissible [OF adm, of ops policy io] by (simp add: Let_def)
    show ?thesis
      unfolding dec using quiet False np cnt
      by (auto simp: recoverDecide_def may_confirm_def after_effect_def maybeCleanup_def maybeQuarantine_def
          Let_def split: option.splits if_splits)
  qed
qed

text \<open>The journal after a recovery: a confirmation record is appended when the recovery confirmed.\<close>

definition journal_after :: "journal_prefix \<Rightarrow> rec_outcome \<Rightarrow> journal_record \<Rightarrow> journal_prefix" where
  "journal_after prefix out r =
     (if out_State out = StateConfirmed \<and> af_confirmationCount (fst (scanPrefix prefix)) = 0
      then prefix\<lparr>p_Records := p_Records prefix @ [r]\<rparr> else prefix)"

definition leaves_quiet :: "fs_observation \<Rightarrow> rec_outcome \<Rightarrow> bool" where
  "leaves_quiet obs out \<longleftrightarrow> out_State out \<in> {StatePublished, StateConfirmed} \<or>
     \<not> ob_StagingPresent obs \<and> \<not> ob_PublicationStarted obs"

lemma settled_staging:
  assumes "settled prefix obs f" and "sp \<longrightarrow> ob_StagingPresent obs" and "p_Torn prefix' = p_Torn prefix"
  shows "settled prefix' (obs\<lparr>ob_StagingPresent := sp\<rparr>) f"
  using assms by (auto simp: settled_def)

lemma nothing_durable_records: "p_Records prefix \<noteq> [] \<or> p_Torn prefix \<Longrightarrow> \<not> nothing_durable prefix obs"
  by (auto simp: nothing_durable_def)

text \<open>The flags a second scan finds: one confirmation more when the first recovery has appended it.\<close>

definition confirmed_flags :: "fs_observation \<Rightarrow> rec_policy \<Rightarrow> 's option \<Rightarrow> abstract_flags \<Rightarrow> abstract_flags" where
  "confirmed_flags obs policy io flags =
     (if linearized obs \<and> may_confirm policy io \<and> af_confirmationCount flags = 0 then flags\<lparr>af_confirmationCount := 1\<rparr> else flags)"

lemma second_scan:
  assumes first: "Recover ops prefix obs policy io = (out, io1, None, evs)"
    and dur: "p_Records prefix \<noteq> [] \<or> p_Torn prefix"
    and r: "r_Type r = TypeConfirmation" "r_TransactionID r = out_TransactionID out"
  obtains flags where "admissible prefix obs flags" "\<not> af_published flags" "af_confirmationCount flags \<le> 1"
    "admissible (journal_after prefix out r) (obs\<lparr>ob_StagingPresent := sp\<rparr>) (confirmed_flags obs policy io flags)"
    "observePublication (obs\<lparr>ob_StagingPresent := sp\<rparr>) (confirmed_flags obs policy io flags) =
       confirmed_flags obs policy io (observePublication obs flags)"
    "\<not> nothing_durable (journal_after prefix out r) (obs\<lparr>ob_StagingPresent := sp\<rparr>)"
proof -
  obtain flags where adm: "admissible prefix obs flags"
    using Recover_success [OF first] .
  then have scan: "scanPrefix prefix = (flags, None)" and np: "\<not> af_published flags" and le: "af_confirmationCount flags \<le> 1"
    using scan_unpublished by (auto simp: admissible_def)
  note fin = Recover_final [OF adm nothing_durable_records [OF dur] first]
  have now: "out_State out = StateConfirmed \<and> af_confirmationCount flags = 0 \<longleftrightarrow>
      linearized obs \<and> may_confirm policy io \<and> af_confirmationCount flags = 0"
    using fin(1) np by (auto simp: final_state_def)
  show thesis
  proof (rule that [OF adm np le])
    show "admissible (journal_after prefix out r) (obs\<lparr>ob_StagingPresent := sp\<rparr>) (confirmed_flags obs policy io flags)"
      using adm r fin(5) admissible_confirmed [OF adm] now
      by (auto simp: journal_after_def admissible_staging scan confirmed_flags_def)
    show "observePublication (obs\<lparr>ob_StagingPresent := sp\<rparr>) (confirmed_flags obs policy io flags) =
        confirmed_flags obs policy io (observePublication obs flags)"
      by (simp add: observe_staging observe_count confirmed_flags_def)
    show "\<not> nothing_durable (journal_after prefix out r) (obs\<lparr>ob_StagingPresent := sp\<rparr>)"
      using dur by (intro nothing_durable_records) (auto simp: journal_after_def)
  qed
qed

lemma recover_idempotent_durable:
  assumes first: "Recover ops prefix obs policy io = (out, io1, None, evs)"
    and dur: "p_Records prefix \<noteq> [] \<or> p_Torn prefix"
    and r: "r_Type r = TypeConfirmation" "r_TransactionID r = out_TransactionID out"
    and sp: "sp \<longrightarrow> ob_StagingPresent obs"
    and ios: "io = None \<longleftrightarrow> io2 = None"
    and again: "RecoverAgain ops (journal_after prefix out r) (obs\<lparr>ob_StagingPresent := sp\<rparr>) policy io2 = (out2, io3, err2, evs2)"
  shows "(err2 = None \<longrightarrow> out_State out2 = out_State out \<and> out_Published out2 = out_Published out \<and>
           out_Confirmations out2 = out_Confirmations out) \<and>
         (leaves_quiet (obs\<lparr>ob_StagingPresent := sp\<rparr>) out \<longrightarrow> err2 = None \<and> io3 = io2)"
proof -
  let ?obs = "obs\<lparr>ob_StagingPresent := sp\<rparr>" and ?p = "journal_after prefix out r"
  obtain flags where adm: "admissible prefix obs flags" and np: "\<not> af_published flags" and le: "af_confirmationCount flags \<le> 1"
    and adm2: "admissible ?p ?obs (confirmed_flags obs policy io flags)"
    and f2: "observePublication ?obs (confirmed_flags obs policy io flags) = confirmed_flags obs policy io (observePublication obs flags)"
    and dur2: "\<not> nothing_durable ?p ?obs"
    by (rule second_scan [OF first dur r, of sp]) (rule that)
  define f where "f = observePublication obs flags"
  have c: "may_confirm policy io2 = may_confirm policy io"
    using ios by (simp add: may_confirm_def)
  note fin = Recover_final [OF adm nothing_durable_records [OF dur] first, folded f_def]
  have pubs: "af_published f = linearized obs" "af_confirmationCount f = af_confirmationCount flags"
    using np by (simp_all add: f_def)
  have same: "out_State out2 = out_State out \<and> out_Published out2 = out_Published out \<and> out_Confirmations out2 = out_Confirmations out"
    if ok: "err2 = None"
  proof -
    have "Recover ops ?p ?obs policy io2 = (out2, io3, None, evs2)"
      using again ok by (simp add: RecoverAgain_def)
    note fin2 = Recover_final [OF adm2 dur2 this, unfolded c f2, folded f_def]
    show ?thesis
      using fin(1-3) fin2(1-3) pubs le
      by (auto simp: final_state_def final_confirmations_def le_Suc_eq confirmed_flags_def split: if_splits)
  qed
  have "err2 = None \<and> io3 = io2" if q: "leaves_quiet ?obs out"
  proof -
    have "\<not> sp \<and> \<not> ob_PublicationStarted obs" if "\<not> linearized obs"
      using that q fin(1) pubs(1) by (auto simp: leaves_quiet_def final_state_def split: if_splits)
    then have "settled ?p ?obs (observePublication ?obs (confirmed_flags obs policy io flags)) \<or>
      (if linearized ?obs then af_confirmationCount (confirmed_flags obs policy io flags) = 1 \<or> \<not> may_confirm policy io2
       else af_confirmationCount (confirmed_flags obs policy io flags) = 0 \<and> \<not> ob_StagingPresent ?obs \<and> \<not> ob_PublicationStarted ?obs)"
      using fin(7) pubs(1) le c settled_staging [OF _ sp, of prefix f ?p] unfolding f2
      by (cases "linearized obs") (auto simp: linearized_def journal_after_def confirmed_flags_def f_def)
    then show ?thesis
      using Recover_quiet [OF adm2 dur2, of policy io2 ops] again by (auto simp: RecoverAgain_def)
  qed
  with same show ?thesis
    by blast
qed

text \<open>Without any record and torn tail the outcome depends on the observation alone.\<close>

lemma Recover_empty:
  assumes eq: "Recover ops prefix obs policy io = (out, io', None, evs)"
    and emp: "p_Records prefix = []" "\<not> p_Torn prefix"
  shows "admissible prefix obs (scanChecks zero_flags)" "\<not> linearized obs"
    "out_State out = (if nothing_durable prefix obs then StateCreated else StateQuarantined)"
    "\<not> out_Published out" "out_Confirmations out = 0"
proof -
  obtain flags where adm: "admissible prefix obs flags"
    using Recover_success [OF eq] .
  have flags: "flags = scanChecks zero_flags"
    using adm emp(1) by (simp add: admissible_def scanPrefix_def)
  then show adm': "admissible prefix obs (scanChecks zero_flags)"
    using adm by simp
  then show lin: "\<not> linearized obs"
    by (auto simp: admissible_def full_chain_def zero_flags_def)
  have z: "\<not> af_published (scanChecks zero_flags)" "af_confirmationCount (scanChecks zero_flags) = 0"
    "\<not> af_cancelled (scanChecks zero_flags)"
    by (simp_all add: zero_flags_def)
  have "out_State out = (if nothing_durable prefix obs then StateCreated else StateQuarantined) \<and>
      \<not> out_Published out \<and> out_Confirmations out = 0"
  proof (cases "nothing_durable prefix obs")
    case True
    then show ?thesis
      using eq Recover_admissible [OF adm', of ops policy io] lin z by (auto simp: Let_def base_outcome_def)
  next
    case False
    then show ?thesis
      using Recover_final(1-3) [OF adm' False eq] lin z by (simp add: final_state_def final_confirmations_def)
  qed
  then show "out_State out = (if nothing_durable prefix obs then StateCreated else StateQuarantined)"
    "\<not> out_Published out" "out_Confirmations out = 0"
    by simp_all
qed

lemma recover_idempotent_empty:
  assumes first: "Recover ops prefix obs policy io = (out, io1, None, evs)"
    and emp: "p_Records prefix = []" "\<not> p_Torn prefix" and sp: "sp \<longrightarrow> ob_StagingPresent obs"
    and again: "Recover ops (journal_after prefix out r) (obs\<lparr>ob_StagingPresent := sp\<rparr>) policy io2 = (out2, io3, err2, evs2)"
  shows "(err2 = None \<longrightarrow>
           out_State out2 = (if nothing_durable prefix (obs\<lparr>ob_StagingPresent := sp\<rparr>) then StateCreated else out_State out) \<and>
           out_Published out2 = out_Published out \<and> out_Confirmations out2 = out_Confirmations out) \<and>
         (leaves_quiet (obs\<lparr>ob_StagingPresent := sp\<rparr>) out \<longrightarrow> err2 = None \<and> io3 = io2)"
proof -
  let ?obs = "obs\<lparr>ob_StagingPresent := sp\<rparr>"
  note e1 = Recover_empty [OF first emp]
  have same: "journal_after prefix out r = prefix"
    using e1(3) by (simp add: journal_after_def)
  have adm2: "admissible prefix ?obs (scanChecks zero_flags)" and lin2: "\<not> linearized ?obs"
    using e1(1,2) by (simp_all add: admissible_staging linearized_def)
  have sub: "nothing_durable prefix ?obs" if "nothing_durable prefix obs"
    using that sp by (auto simp: nothing_durable_def)
  have quiet: "err2 = None \<and> io3 = io2" if "leaves_quiet ?obs out"
  proof (cases "nothing_durable prefix ?obs")
    case True
    then show ?thesis
      using again Recover_admissible [OF adm2, of ops policy io2] by (simp add: same Let_def)
  next
    case False
    have "\<not> sp" "\<not> ob_PublicationStarted obs"
      using that e1(3) by (auto simp: leaves_quiet_def split: if_splits)
    then show ?thesis
      using again Recover_quiet [OF adm2 False, of policy io2 ops] lin2 by (auto simp: same zero_flags_def)
  qed
  have "err2 = None \<longrightarrow>
      out_State out2 = (if nothing_durable prefix ?obs then StateCreated else out_State out) \<and>
      out_Published out2 = out_Published out \<and> out_Confirmations out2 = out_Confirmations out"
    using Recover_empty(3-5) [of ops prefix ?obs policy io2 out2 io3 evs2] again emp e1(3-5) sub
    by (auto simp: same)
  with quiet show ?thesis
    by blast
qed

text \<open>
  C31: Recovery is idempotent.  Take a recovery that succeeded, the journal it leaves (with the
  confirmation record, if it confirmed) and an observation in which staging may have disappeared.
  Recovering again under the same policy, with an interface attached exactly when the first had
  one but in whatever state, never appends a second confirmation: when it succeeds it decides the same
  state, the same publication and the same number of confirmations.  The one exception is a
  journal without a record and without a torn tail for which nothing is observed any more: that is
  CREATED again, whatever the first recovery made of leftovers in staging.  If the first recovery
  reported PUBLISHED or CONFIRMED, or staging is gone and no publication was observed as started,
  the second succeeds without touching storage at all.
\<close>

theorem recover_idempotent:
  assumes first: "Recover ops prefix obs policy io = (out, io1, None, evs)"
    and r: "r_Type r = TypeConfirmation" "r_TransactionID r = out_TransactionID out"
    and sp: "sp \<longrightarrow> ob_StagingPresent obs"
    and ios: "io = None \<longleftrightarrow> io2 = None"
    and again: "RecoverAgain ops (journal_after prefix out r) (obs\<lparr>ob_StagingPresent := sp\<rparr>) policy io2 = (out2, io3, err2, evs2)"
  shows "(err2 = None \<longrightarrow>
           out_State out2 = (if nothing_durable prefix (obs\<lparr>ob_StagingPresent := sp\<rparr>) then StateCreated else out_State out) \<and>
           out_Published out2 = out_Published out \<and> out_Confirmations out2 = out_Confirmations out) \<and>
         (leaves_quiet (obs\<lparr>ob_StagingPresent := sp\<rparr>) out \<longrightarrow> err2 = None \<and> io3 = io2)"
proof (cases "p_Records prefix \<noteq> [] \<or> p_Torn prefix")
  case True
  then show ?thesis
    using recover_idempotent_durable [OF first True r sp ios again] nothing_durable_records [OF True] by simp
next
  case False
  then have emp: "p_Records prefix = []" "\<not> p_Torn prefix"
    by auto
  show ?thesis
    by (rule recover_idempotent_empty [OF first emp sp again [unfolded RecoverAgain_def]])
qed

theorem recover_idempotent_witness:
  "\<exists>out out2 io evs evs2.
     Recover mem_persist_ops sample_txn (sample_obs False True) sample_policy (Some fresh_persist) = (out, io, None, evs) \<and>
     RecoverAgain mem_persist_ops (journal_after sample_txn out (sample_rec TypeConfirmation []))
       (sample_obs False True) sample_policy (Some fresh_persist) = (out2, Some fresh_persist, None, evs2) \<and>
     out_State out = StateConfirmed \<and> out_State out2 = StateConfirmed"
proof -
  obtain out io evs where r: "Recover mem_persist_ops sample_txn (sample_obs False True) sample_policy (Some fresh_persist) = (out, io, None, evs)"
    and st: "out_State out = StateConfirmed" and tx: "out_TransactionID out = replicate 16 7"
    using sample_published by (auto split: prod.splits)
  have obs: "(sample_obs False True)\<lparr>ob_StagingPresent := False\<rparr> = sample_obs False True"
    by (simp add: sample_obs_def)
  obtain out2 io3 err2 evs2 where again: "RecoverAgain mem_persist_ops (journal_after sample_txn out (sample_rec TypeConfirmation []))
       (sample_obs False True) sample_policy (Some fresh_persist) = (out2, io3, err2, evs2)"
    by (metis prod_cases4)
  have "\<not> nothing_durable sample_txn (sample_obs False True)"
    by (intro nothing_durable_records) (simp add: sample_txn_def)
  moreover have "leaves_quiet (sample_obs False True) out"
    using st by (simp add: leaves_quiet_def)
  ultimately have "err2 = None \<and> io3 = Some fresh_persist \<and> out_State out2 = StateConfirmed"
    using recover_idempotent [OF r, of "sample_rec TypeConfirmation []" False "Some fresh_persist" out2 io3 err2 evs2]
      again st tx by (simp add: obs sample_rec_def)
  with r again st show ?thesis
    by blast
qed

text \<open>
  C32: What recovery makes of a confirmation record without publication evidence, for every journal
  with one confirmation that is free of contradictions and matches the observed identities.  It is refused
  as a contradiction, except when the journal also holds a cancellation or a quarantine record, has
  no torn tail, and neither the journal nor the observation knows of a started publication or of
  staged content: then recovery reports CANCELLED or QUARANTINED without an error, with one
  confirmation and no publication.  Storage is left alone either way.
\<close>

theorem confirmation_without_publication_accepted:
  assumes scan: "scanPrefix prefix = (flags, None)" and clean: "af_contradiction flags = []"
    and ident: "identity_matches flags obs" and one: "af_confirmationCount flags = 1"
    and unpub: "\<not> (ob_PublicationLinearized obs \<and> ob_PublishedContentMatches obs)"
  defines "accepted \<equiv> (af_cancelled flags \<or> af_quarantined flags) \<and> \<not> af_publicationStarted flags \<and>
    \<not> ob_PublicationStarted obs \<and> \<not> p_Torn prefix \<and> \<not> ob_StagingPresent obs"
  shows "\<exists>out evs. Recover ops prefix obs policy io =
      (out, io, if accepted then None else Some (rec_fatal ''confirmation'' ''confirmation without publication evidence'' None), evs) \<and>
    out_State out = (if \<not> accepted then StateIrrecoverable else if af_cancelled flags then StateCancelled else StateQuarantined) \<and>
    out_Confirmations out = 1 \<and> \<not> out_Published out"
proof -
  have adm: "admissible prefix obs flags" and np: "\<not> af_published flags" and nl: "\<not> linearized obs"
    using scan clean ident one unpub scan_unpublished by (auto simp: admissible_def linearized_def)
  have "p_Records prefix \<noteq> []"
    using scan one by (auto simp: scanPrefix_def zero_flags_def)
  then have dur: "\<not> nothing_durable prefix obs"
    by (intro nothing_durable_records) simp
  have "settled prefix obs (observePublication obs flags) \<longleftrightarrow> accepted"
    using np nl one by (auto simp: settled_def terminalFromFlags_def accepted_def)
  then show ?thesis
    using Recover_admissible [OF adm, of ops policy io] dur np nl one
    by (auto simp: Let_def settle_def base_outcome_def stateFromFlags_def recoverDecide_def stop_closed_def)
qed

lemma sample_confirmation_scan:
  "case scanPrefix (zero_prefix\<lparr>p_Records := [sample_rec TypeCancellation [], sample_rec TypeConfirmation []]\<rparr>) of (f, e) \<Rightarrow>
     e = None \<and> af_contradiction f = [] \<and> identity_matches f (sample_obs False False) \<and>
     identity_matches f (sample_obs True False) \<and> af_confirmationCount f = 1 \<and>
     af_cancelled f \<and> \<not> af_publicationStarted f"
  by code_simp

theorem confirmation_without_publication_accepted_witness:
  "\<exists>out evs out2 evs2.
     Recover mem_persist_ops (zero_prefix\<lparr>p_Records := [sample_rec TypeCancellation [], sample_rec TypeConfirmation []]\<rparr>)
       (sample_obs False False) sample_policy None = (out, None, None, evs) \<and> out_State out = StateCancelled \<and>
     Recover mem_persist_ops (zero_prefix\<lparr>p_Records := [sample_rec TypeCancellation [], sample_rec TypeConfirmation []]\<rparr>)
       (sample_obs True False) sample_policy None =
       (out2, None, Some (rec_fatal ''confirmation'' ''confirmation without publication evidence'' None), evs2) \<and>
     out_State out2 = StateIrrecoverable"
proof -
  define p where "p = zero_prefix\<lparr>p_Records := [sample_rec TypeCancellation [], sample_rec TypeConfirmation []]\<rparr>"
  obtain f where f: "scanPrefix p = (f, None)" "af_contradiction f = []" "identity_matches f (sample_obs False False)"
    "identity_matches f (sample_obs True False)" "af_confirmationCount f = 1" "af_cancelled f" "\<not> af_publicationStarted f"
    using sample_confirmation_scan unfolding p_def [symmetric] by (auto split: prod.splits)
  have t: "\<not> p_Torn p"
    by (simp add: p_def zero_prefix_def)
  show ?thesis
    using confirmation_without_publication_accepted [OF f(1-3,5), of mem_persist_ops sample_policy None]
      confirmation_without_publication_accepted [OF f(1,2,4,5), of mem_persist_ops sample_policy None] f(6,7) t
    unfolding p_def [symmetric] by (simp add: sample_obs_def) blast
qed

lemma authorization_payload_roundtrip:
  assumes "length (ab_PlanDigest b) = 32" "length (ab_ConfigurationDigest b) = 32"
    "length (ab_CapabilityVectorDigest b) = 32" "length (ab_RootIdentity b) = 32"
    "length (ab_VolumeIdentity b) = 32" "length (ab_AuthDigest b) = 32"
  shows "DecodeAuthorizationPayload (EncodeAuthorizationPayload b) = Inr b"
proof -
  have "EncodeAuthorizationPayload b = ab_PlanDigest b @ ab_ConfigurationDigest b @ ab_CapabilityVectorDigest b @
      ab_RootIdentity b @ ab_VolumeIdentity b @ ab_AuthDigest b"
    using assms by (simp add: EncodeAuthorizationPayload_def AuthorizationPayloadSize_def Let_def copy_at_make copy_at_fill flip: append_assoc)
  then show ?thesis
    using assms by (simp add: DecodeAuthorizationPayload_def AuthorizationPayloadSize_def slice_def)
qed

end
