(* ===== verification/Publish.thy ===== *)
theory Publish
  imports Recovery Compare
begin

text \<open>
  Publication on a real directory tree and the directory-backed persistence of recovery:
  \<open>internal/recovery/filepublish.go\<close>, \<open>filepersist.go\<close>, \<open>kill_unix.go\<close>.  The tree is the
  sub-directories of the archive root with their files; every system call may fail, and the
  answers of the system are a parameter.  The last section composes the parts: publish with a
  fault anywhere, observe, recover.
\<close>

subsection \<open>The directory tree and its system calls\<close>

text \<open>A directory lists its files in name order, as \<open>os.ReadDir\<close> returns them.\<close>

type_synonym dir = "(string \<times> bytes) list"
type_synonym os_path = "string list"

fun dir_put :: "string \<Rightarrow> bytes \<Rightarrow> dir \<Rightarrow> dir" where
  "dir_put n v [] = [(n, v)]"
| "dir_put n v ((m, w) # d) =
     (if n = m then (n, v) # d
      else if bytesCompare (bytes_of n) (bytes_of m) < 0 then (n, v) # (m, w) # d
      else (m, w) # dir_put n v d)"

definition dir_del :: "string \<Rightarrow> dir \<Rightarrow> dir" where
  "dir_del n d = filter (\<lambda>e. fst e \<noteq> n) d"

text \<open>A sub-directory that does not exist is \<open>None\<close>.\<close>

record rec_fs =
  fs_dirs :: "string \<Rightarrow> dir option"
  fs_confirm :: "bytes option"

definition set_dir :: "string \<Rightarrow> dir \<Rightarrow> rec_fs \<Rightarrow> rec_fs" where
  "set_dir sub d fs = fs\<lparr>fs_dirs := (fs_dirs fs)(sub := Some d)\<rparr>"

datatype sys_call =
  SysMkdirAll | SysOpenExcl | SysOpen | SysOpenAppend | SysWrite | SysClose | SysSyncFile | SysSyncDir
| SysStat | SysRename | SysRemove | SysReadDir | SysReadFile | SysWriteFile

text \<open>
  The answers of the system: the error of a call on a path, if it fails; how many bytes a
  failing write has put into the file; and what \<open>platform.CloneFile\<close> did: an error with the
  file it left behind, or its mechanism and the bytes of the source.
\<close>

record rec_os =
  os_err :: "sys_call \<Rightarrow> os_path \<Rightarrow> rec_error option"
  os_written :: "os_path \<Rightarrow> nat"
  os_clone :: "(rec_error \<times> bytes option) + (string \<times> bytes)"

definition ErrNotExist :: rec_error where "ErrNotExist = OSError ''file does not exist''"
definition ErrExist :: rec_error where "ErrExist = OSError ''file already exists''"

definition IsNotExist :: "rec_error \<Rightarrow> bool" where
  "IsNotExist e \<longleftrightarrow> e = ErrNotExist"

definition sysOpenExcl :: "rec_os \<Rightarrow> string \<Rightarrow> string \<Rightarrow> rec_fs \<Rightarrow> rec_fs \<times> rec_error option" where
  "sysOpenExcl os sub n fs =
     (case os_err os SysOpenExcl [sub, n] of
        Some e \<Rightarrow> (fs, Some e)
      | None \<Rightarrow>
          (case fs_dirs fs sub of
             None \<Rightarrow> (fs, Some ErrNotExist)
           | Some d \<Rightarrow>
               if map_of d n \<noteq> None then (fs, Some ErrExist)
               else (set_dir sub (dir_put n [] d) fs, None)))"

definition sysWrite :: "rec_os \<Rightarrow> string \<Rightarrow> string \<Rightarrow> bytes \<Rightarrow> rec_fs \<Rightarrow> rec_fs \<times> rec_error option" where
  "sysWrite os sub n data fs =
     (case fs_dirs fs sub of
        None \<Rightarrow> (fs, os_err os SysWrite [sub, n])
      | Some d \<Rightarrow>
          (case os_err os SysWrite [sub, n] of
             Some e \<Rightarrow> (set_dir sub (dir_put n (take (os_written os [sub, n]) data) d) fs, Some e)
           | None \<Rightarrow> (set_dir sub (dir_put n data d) fs, None)))"

definition sysRemove :: "rec_os \<Rightarrow> string \<Rightarrow> string \<Rightarrow> rec_fs \<Rightarrow> rec_fs \<times> rec_error option" where
  "sysRemove os sub n fs =
     (case os_err os SysRemove [sub, n] of
        Some e \<Rightarrow> (fs, Some e)
      | None \<Rightarrow>
          (case fs_dirs fs sub of
             None \<Rightarrow> (fs, Some ErrNotExist)
           | Some d \<Rightarrow> (set_dir sub (dir_del n d) fs, None)))"

definition sysOpen :: "rec_os \<Rightarrow> string \<Rightarrow> string \<Rightarrow> rec_fs \<Rightarrow> rec_error option" where
  "sysOpen os sub n fs =
     (case os_err os SysOpen [sub, n] of
        Some e \<Rightarrow> Some e
      | None \<Rightarrow> if Option.bind (fs_dirs fs sub) (\<lambda>d. map_of d n) = None then Some ErrNotExist else None)"

definition sysStat :: "rec_os \<Rightarrow> string \<Rightarrow> string \<Rightarrow> rec_fs \<Rightarrow> rec_error option" where
  "sysStat os sub n fs =
     (case os_err os SysStat [sub, n] of
        Some e \<Rightarrow> Some e
      | None \<Rightarrow> if Option.bind (fs_dirs fs sub) (\<lambda>d. map_of d n) = None then Some ErrNotExist else None)"

definition sysRename :: "rec_os \<Rightarrow> string \<Rightarrow> string \<Rightarrow> string \<Rightarrow> rec_fs \<Rightarrow> rec_fs \<times> rec_error option" where
  "sysRename os from to n fs =
     (case os_err os SysRename [from, n] of
        Some e \<Rightarrow> (fs, Some e)
      | None \<Rightarrow>
          (case (fs_dirs fs from, fs_dirs fs to) of
             (Some d, Some d') \<Rightarrow>
               (case map_of d n of
                  None \<Rightarrow> (fs, Some ErrNotExist)
                | Some v \<Rightarrow> (set_dir to (dir_put n v d') (set_dir from (dir_del n d) fs), None))
           | _ \<Rightarrow> (fs, Some ErrNotExist)))"

definition sysReadDir :: "rec_os \<Rightarrow> string \<Rightarrow> rec_fs \<Rightarrow> rec_error + dir" where
  "sysReadDir os sub fs =
     (case os_err os SysReadDir [sub] of
        Some e \<Rightarrow> Inl e
      | None \<Rightarrow> (case fs_dirs fs sub of None \<Rightarrow> Inl ErrNotExist | Some d \<Rightarrow> Inr d))"

subsection \<open>The apply side\<close>

record file_publisher =
  fp_FailAt :: crash_label
  fp_KillAt :: crash_label
  fp_ExpectedContent :: "bytes option"
  fp_StageMechanism :: string
  fp_Checkpoints :: "crash_label list"

text \<open>\<open>os.MkdirAll\<close> of the sub-directories, in order; the first failure is returned.\<close>

fun mkdirs :: "rec_os \<Rightarrow> string list \<Rightarrow> rec_fs \<Rightarrow> rec_fs \<times> rec_error option" where
  "mkdirs os [] fs = (fs, None)"
| "mkdirs os (sub # subs) fs =
     (case os_err os SysMkdirAll [sub] of
        Some e \<Rightarrow> (fs, Some e)
      | None \<Rightarrow> mkdirs os subs (case fs_dirs fs sub of None \<Rightarrow> set_dir sub [] fs | Some _ \<Rightarrow> fs))"

definition NewFilePublisher :: "rec_os \<Rightarrow> rec_fs \<Rightarrow> rec_fs \<times> (rec_error + file_publisher)" where
  "NewFilePublisher os fs =
     (case mkdirs os [''staging'', ''published''] fs of
        (fs, Some e) \<Rightarrow> (fs, Inl e)
      | (fs, None) \<Rightarrow>
          (fs, Inr \<lparr>fp_FailAt = [], fp_KillAt = [], fp_ExpectedContent = None,
                    fp_StageMechanism = [], fp_Checkpoints = []\<rparr>))"

text \<open>A process that kills itself runs no further code; the value stands for that.\<close>

definition rec_killSelfAt :: "crash_label \<Rightarrow> rec_error" where
  "rec_killSelfAt label = KilledAt label"

definition pub_checkpoint :: "file_publisher \<Rightarrow> crash_label \<Rightarrow> file_publisher \<times> rec_error option" where
  "pub_checkpoint p label =
     (let p = p\<lparr>fp_Checkpoints := fp_Checkpoints p @ [label]\<rparr> in
      if fp_KillAt p \<noteq> [] \<and> label = fp_KillAt p then (p, Some (rec_killSelfAt label))
      else if fp_FailAt p \<noteq> [] \<and> label = fp_FailAt p then (p, Some (ioErr label errInjectedFault))
      else (p, None))"

definition validatePublishName :: "string \<Rightarrow> rec_error option" where
  "validatePublishName n =
     (if n = [] \<or> n = ''.'' \<or> n = ''..'' then Some (stateErr ''invalid publish name'')
      else if CHR ''/'' \<in> set n \<or> CHR 0x5C \<in> set n
        then Some (stateErr ''publish name must be a single path element'')
      else None)"

type_synonym publish_result = "rec_fs \<times> file_publisher \<times> rec_error option"

definition publishStaged :: "rec_os \<Rightarrow> string \<Rightarrow> rec_fs \<Rightarrow> file_publisher \<Rightarrow> publish_result" where
  "publishStaged os n fs p =
     (case pub_checkpoint p LabelPStageSync of
        (p, Some e) \<Rightarrow> (fs, p, Some e)
      | (p, None) \<Rightarrow>
     (case sysOpen os ''staging'' n fs of
        Some e \<Rightarrow> (fs, p, Some (ioErr LabelPStageSync e))
      | None \<Rightarrow>
     (case os_err os SysSyncFile [''staging'', n] of
        Some e \<Rightarrow> (fs, p, Some (ioErr LabelPStageSync e))
      | None \<Rightarrow>
     (case os_err os SysSyncDir [''staging''] of
        Some e \<Rightarrow> (fs, p, Some (ioErr LabelPStageSync e))
      | None \<Rightarrow>
     (case pub_checkpoint p LabelPPublishRename of
        (p, Some e) \<Rightarrow> (fs, p, Some e)
      | (p, None) \<Rightarrow>
     (case sysStat os ''published'' n fs of
        None \<Rightarrow> (fs, p, Some (stateErr ''published destination already exists''))
      | Some e \<Rightarrow>
          if \<not> IsNotExist e then (fs, p, Some (ioErr LabelPPublishRename e))
          else
     (case sysRename os ''staging'' ''published'' n fs of
        (fs, Some e) \<Rightarrow> (fs, p, Some (ioErr LabelPPublishRename e))
      | (fs, None) \<Rightarrow>
     (case pub_checkpoint p LabelPPublishDirSync of
        (p, Some e) \<Rightarrow> (fs, p, Some e)
      | (p, None) \<Rightarrow>
     (case os_err os SysSyncDir [''published''] of
        Some e \<Rightarrow> (fs, p, Some (ioErr LabelPPublishDirSync e))
      | None \<Rightarrow>
     (case os_err os SysSyncDir [] of
        Some e \<Rightarrow> (fs, p, Some (ioErr LabelPPublishDirSync e))
      | None \<Rightarrow> (fs, p, None)))))))))))"

definition PublishFile :: "rec_os \<Rightarrow> string \<Rightarrow> bytes \<Rightarrow> rec_fs \<Rightarrow> file_publisher \<Rightarrow> publish_result" where
  "PublishFile os n data fs p =
     (case validatePublishName n of
        Some e \<Rightarrow> (fs, p, Some e)
      | None \<Rightarrow>
     (case pub_checkpoint p LabelPStageCreate of
        (p, Some e) \<Rightarrow> (fs, p, Some e)
      | (p, None) \<Rightarrow>
     (case sysOpenExcl os ''staging'' n fs of
        (fs, Some e) \<Rightarrow> (fs, p, Some (ioErr LabelPStageCreate e))
      | (fs, None) \<Rightarrow>
     (case sysWrite os ''staging'' n data fs of
        (fs, Some e) \<Rightarrow> (fst (sysRemove os ''staging'' n fs), p, Some (ioErr LabelPStageCreate e))
      | (fs, None) \<Rightarrow>
     (case os_err os SysClose [''staging'', n] of
        Some e \<Rightarrow> (fst (sysRemove os ''staging'' n fs), p, Some (ioErr LabelPStageCreate e))
      | None \<Rightarrow> publishStaged os n fs (p\<lparr>fp_StageMechanism := ''write''\<rparr>))))))"

definition PublishFrom :: "rec_os \<Rightarrow> string \<Rightarrow> string \<Rightarrow> rec_fs \<Rightarrow> file_publisher \<Rightarrow> publish_result" where
  "PublishFrom os n srcPath fs p =
     (case validatePublishName n of
        Some e \<Rightarrow> (fs, p, Some e)
      | None \<Rightarrow>
          if srcPath = [] then (fs, p, Some (stateErr ''empty publish source path''))
          else
     (case pub_checkpoint p LabelPStageCreate of
        (p, Some e) \<Rightarrow> (fs, p, Some e)
      | (p, None) \<Rightarrow>
     (case (os_clone os, fs_dirs fs ''staging'') of
        (_, None) \<Rightarrow> (fs, p, Some (ioErr LabelPStageCreate ErrNotExist))
      | (Inl (e, left), Some d) \<Rightarrow>
          ((case left of None \<Rightarrow> fs | Some b \<Rightarrow> set_dir ''staging'' (dir_put n b d) fs), p,
           Some (ioErr LabelPStageCreate e))
      | (Inr (mech, b), Some d) \<Rightarrow>
          if map_of d n \<noteq> None then (fs, p, Some (ioErr LabelPStageCreate ErrExist))
          else publishStaged os n (set_dir ''staging'' (dir_put n b d) fs) (p\<lparr>fp_StageMechanism := mech\<rparr>))))"

definition dirHasEntries :: "rec_os \<Rightarrow> string \<Rightarrow> rec_fs \<Rightarrow> rec_error + bool" where
  "dirHasEntries os sub fs =
     (case sysReadDir os sub fs of
        Inl e \<Rightarrow> if IsNotExist e then Inr False else Inl e
      | Inr d \<Rightarrow> Inr (length d > 0))"

definition pathExists :: "rec_os \<Rightarrow> string \<Rightarrow> string \<Rightarrow> rec_fs \<Rightarrow> rec_error + bool" where
  "pathExists os sub n fs =
     (case sysStat os sub n fs of
        None \<Rightarrow> Inr True
      | Some e \<Rightarrow> if IsNotExist e then Inr False else Inl e)"

text \<open>The loop over the bytes after the lengths have been compared.\<close>

fun sameBytesLoop :: "bytes \<Rightarrow> bytes \<Rightarrow> bool" where
  "sameBytesLoop (g # got) (w # want) = (if g \<noteq> w then False else sameBytesLoop got want)"
| "sameBytesLoop _ _ = True"

definition publishedMatches :: "rec_os \<Rightarrow> string \<Rightarrow> bytes \<Rightarrow> rec_fs \<Rightarrow> rec_error + bool" where
  "publishedMatches os sub want fs =
     (case sysReadDir os sub fs of
        Inl e \<Rightarrow> Inl e
      | Inr [] \<Rightarrow> Inr False
      | Inr ((n, got) # _) \<Rightarrow>
          (case os_err os SysReadFile [sub, n] of
             Some e \<Rightarrow> Inl e
           | None \<Rightarrow> if length got \<noteq> length want then Inr False else Inr (sameBytesLoop got want)))"

definition Observation ::
  "rec_os \<Rightarrow> rec_fs \<Rightarrow> file_publisher \<Rightarrow> digest \<Rightarrow> digest \<Rightarrow> fs_observation \<times> rec_error option" where
  "Observation os fs p rootID volID =
     (let obs = \<lparr>ob_RootIdentity = rootID, ob_VolumeIdentity = volID, ob_StagingPresent = False,
                 ob_PublicationStarted = False, ob_PublicationLinearized = False,
                 ob_PublishedContentMatches = False\<rparr> in
      case dirHasEntries os ''staging'' fs of
        Inl e \<Rightarrow> (obs, Some e)
      | Inr staged \<Rightarrow>
          let obs = obs\<lparr>ob_StagingPresent := staged\<rparr> in
          case dirHasEntries os ''published'' fs of
            Inl e \<Rightarrow> (obs, Some e)
          | Inr True \<Rightarrow>
              let obs = obs\<lparr>ob_PublicationStarted := True, ob_PublicationLinearized := True\<rparr> in
              (case fp_ExpectedContent p of
                 Some want \<Rightarrow>
                   (case publishedMatches os ''published'' want fs of
                      Inl e \<Rightarrow> (obs, Some e)
                    | Inr m \<Rightarrow> (obs\<lparr>ob_PublishedContentMatches := m\<rparr>, None))
               | None \<Rightarrow> (obs\<lparr>ob_PublishedContentMatches := True\<rparr>, None))
          | Inr False \<Rightarrow>
              (if staged
               then (obs\<lparr>ob_PublicationStarted := False, ob_PublicationLinearized := False,
                         ob_PublishedContentMatches := False\<rparr>, None)
               else (obs, None)))"

definition StagingHas :: "rec_os \<Rightarrow> string \<Rightarrow> rec_fs \<Rightarrow> rec_error + bool" where
  "StagingHas os n fs = pathExists os ''staging'' n fs"

definition PublishedHas :: "rec_os \<Rightarrow> string \<Rightarrow> rec_fs \<Rightarrow> rec_error + bool" where
  "PublishedHas os n fs = pathExists os ''published'' n fs"

subsection \<open>The recovery side\<close>

record file_persist =
  fl_FailAt :: crash_label
  fl_Checkpoints :: "crash_label list"
  fl_Confirms :: nat
  fl_fs :: rec_fs

definition NewFilePersist :: "rec_os \<Rightarrow> rec_fs \<Rightarrow> rec_fs \<times> (rec_error + file_persist)" where
  "NewFilePersist os fs =
     (case mkdirs os [''staging'', ''quarantine''] fs of
        (fs, Some e) \<Rightarrow> (fs, Inl e)
      | (fs, None) \<Rightarrow>
          (fs, Inr \<lparr>fl_FailAt = [], fl_Checkpoints = [], fl_Confirms = 0, fl_fs = fs\<rparr>))"

definition FileCheckpoint :: "rec_os \<Rightarrow> file_persist \<Rightarrow> crash_label \<Rightarrow> file_persist \<times> rec_error option" where
  "FileCheckpoint os f label =
     (let f = f\<lparr>fl_Checkpoints := fl_Checkpoints f @ [label]\<rparr> in
      if fl_FailAt f \<noteq> [] \<and> label = fl_FailAt f then (f, Some (ioErr label errInjectedFault))
      else if label \<in> {LabelPStageSync, LabelPPublishDirSync, LabelPConfirmPost, LabelJMetaPost} then
        (case os_err os SysSyncDir [] of
           Some e \<Rightarrow> (f, Some (ioErr label e))
         | None \<Rightarrow> (f, None))
      else (f, None))"

text \<open>Errors of the single removals are discarded.\<close>

fun removeLoop :: "rec_os \<Rightarrow> dir \<Rightarrow> rec_fs \<Rightarrow> rec_fs" where
  "removeLoop os [] fs = fs"
| "removeLoop os (e # es) fs = removeLoop os es (fst (sysRemove os ''staging'' (fst e) fs))"

definition FileCleanupStaging :: "rec_os \<Rightarrow> file_persist \<Rightarrow> file_persist \<times> rec_error option" where
  "FileCleanupStaging os f =
     (case sysReadDir os ''staging'' (fl_fs f) of
        Inl e \<Rightarrow> if IsNotExist e then (f, None) else (f, Some e)
      | Inr entries \<Rightarrow>
          (f\<lparr>fl_fs := removeLoop os entries (fl_fs f)\<rparr>, os_err os SysSyncDir [''staging'']))"

fun renameLoop :: "rec_os \<Rightarrow> dir \<Rightarrow> rec_fs \<Rightarrow> rec_fs \<times> rec_error option" where
  "renameLoop os [] fs = (fs, None)"
| "renameLoop os (e # es) fs =
     (case sysRename os ''staging'' ''quarantine'' (fst e) fs of
        (fs, Some err) \<Rightarrow>
          if \<not> IsNotExist err then (fs, Some (WrapError ''quarantine rename'' err))
          else renameLoop os es fs
      | (fs, None) \<Rightarrow> renameLoop os es fs)"

definition FileQuarantineStaging :: "rec_os \<Rightarrow> file_persist \<Rightarrow> file_persist \<times> rec_error option" where
  "FileQuarantineStaging os f =
     (case sysReadDir os ''staging'' (fl_fs f) of
        Inl e \<Rightarrow> if IsNotExist e then (f, None) else (f, Some e)
      | Inr entries \<Rightarrow>
          (case renameLoop os entries (fl_fs f) of
             (fs, Some err) \<Rightarrow> (f\<lparr>fl_fs := fs\<rparr>, Some err)
           | (fs, None) \<Rightarrow> (f\<lparr>fl_fs := fs\<rparr>, os_err os SysSyncDir [''quarantine''])))"

text \<open>The log is written with two writes: the length, then the identifier; the second path element tells them apart.\<close>

definition logWrite :: "rec_os \<Rightarrow> string \<Rightarrow> bytes \<Rightarrow> rec_fs \<Rightarrow> rec_fs \<times> rec_error option" where
  "logWrite os part b fs =
     (let old = (case fs_confirm fs of None \<Rightarrow> [] | Some c \<Rightarrow> c);
          path = [''confirm.log'', part] in
      case os_err os SysWrite path of
        Some e \<Rightarrow> (fs\<lparr>fs_confirm := Some (old @ take (os_written os path) b)\<rparr>, Some e)
      | None \<Rightarrow> (fs\<lparr>fs_confirm := Some (old @ b)\<rparr>, None))"

definition FileAppendConfirmation ::
  "rec_os \<Rightarrow> file_persist \<Rightarrow> transaction_id \<Rightarrow> bytes \<Rightarrow> file_persist \<times> rec_error option" where
  "FileAppendConfirmation os f txid payload =
     (case os_err os SysOpenAppend [''confirm.log''] of
        Some e \<Rightarrow> (f, Some e)
      | None \<Rightarrow>
          let fs = (fl_fs f)\<lparr>fs_confirm := Some (case fs_confirm (fl_fs f) of None \<Rightarrow> [] | Some c \<Rightarrow> c)\<rparr> in
          case logWrite os ''length'' (PutU32LE 16) fs of
            (fs, Some e) \<Rightarrow> (f\<lparr>fl_fs := fs\<rparr>, Some e)
          | (fs, None) \<Rightarrow>
              (case logWrite os ''txid'' txid fs of
                 (fs, Some e) \<Rightarrow> (f\<lparr>fl_fs := fs\<rparr>, Some e)
               | (fs, None) \<Rightarrow>
                   let f = f\<lparr>fl_fs := fs\<rparr> in
                   case os_err os SysSyncFile [''confirm.log''] of
                     Some e \<Rightarrow> (f, Some e)
                   | None \<Rightarrow>
                       (case os_err os SysClose [''confirm.log''] of
                          Some e \<Rightarrow> (f, Some e)
                        | None \<Rightarrow> (f\<lparr>fl_Confirms := fl_Confirms f + 1\<rparr>, None))))"

definition file_persist_ops :: "rec_os \<Rightarrow> file_persist persist_ops" where
  "file_persist_ops os = \<lparr>pio_Checkpoint = FileCheckpoint os, pio_CleanupStaging = FileCleanupStaging os,
     pio_QuarantineStaging = FileQuarantineStaging os, pio_AppendConfirmation = FileAppendConfirmation os\<rparr>"

definition SeedStaging :: "rec_os \<Rightarrow> string \<Rightarrow> bytes \<Rightarrow> file_persist \<Rightarrow> file_persist \<times> rec_error option" where
  "SeedStaging os n data f =
     (case os_err os SysWriteFile [''staging'', n] of
        Some e \<Rightarrow> (f, Some e)
      | None \<Rightarrow>
          (case fs_dirs (fl_fs f) ''staging'' of
             None \<Rightarrow> (f, Some ErrNotExist)
           | Some d \<Rightarrow>
               (f\<lparr>fl_fs := set_dir ''staging'' (dir_put n data d) (fl_fs f)\<rparr>, os_err os SysSyncDir [''staging''])))"

definition StagingEmpty :: "rec_os \<Rightarrow> file_persist \<Rightarrow> rec_error + bool" where
  "StagingEmpty os f =
     (case sysReadDir os ''staging'' (fl_fs f) of
        Inl e \<Rightarrow> if IsNotExist e then Inr True else Inl e
      | Inr d \<Rightarrow> Inr (length d = 0))"

definition QuarantineHas :: "rec_os \<Rightarrow> string \<Rightarrow> file_persist \<Rightarrow> rec_error + bool" where
  "QuarantineHas os n f =
     (case sysStat os ''quarantine'' n (fl_fs f) of
        None \<Rightarrow> Inr True
      | Some e \<Rightarrow> if IsNotExist e then Inr False else Inl e)"

subsection \<open>What recovery leaves alone\<close>

text \<open>
  A part of the persistence state that no method of the interface changes is not changed by
  recovery.
\<close>

locale persist_frame =
  fixes ops :: "'s persist_ops"
    and frame :: "'s \<Rightarrow> 'f"
  assumes checkpoint: "pio_Checkpoint ops s l = (s', e) \<Longrightarrow> frame s' = frame s"
    and cleanup: "pio_CleanupStaging ops s = (s', e) \<Longrightarrow> frame s' = frame s"
    and quarantine: "pio_QuarantineStaging ops s = (s', e) \<Longrightarrow> frame s' = frame s"
    and confirm: "pio_AppendConfirmation ops s txid b = (s', e) \<Longrightarrow> frame s' = frame s"
begin

lemma maybeCleanup_frame:
  "maybeCleanup ops policy io out obs = (out', io', e) \<Longrightarrow> map_option frame io' = map_option frame io"
  by (auto simp: maybeCleanup_def Let_def split: option.splits if_splits prod.splits dest!: checkpoint cleanup)

lemma maybeQuarantine_frame:
  "maybeQuarantine ops policy io out obs = (out', io', e) \<Longrightarrow> map_option frame io' = map_option frame io"
  by (auto simp: maybeQuarantine_def Let_def split: option.splits if_splits prod.splits dest!: checkpoint quarantine)

lemma confirmOnce_frame:
  "confirmOnce ops txid s out = (out', io', e) \<Longrightarrow> map_option frame io' = Some (frame s)"
  by (auto simp: confirmOnce_def Let_def split: option.splits if_splits prod.splits dest!: checkpoint confirm)

lemma after_effect_frame:
  "after_effect st eff = (out', io', e, evs) \<Longrightarrow> io' = fst (snd eff)"
  by (auto simp: after_effect_def split: prod.splits option.splits)

lemma effects_frame:
  "after_effect st (maybeCleanup ops policy io out obs) = (out', io', e, evs) \<Longrightarrow> map_option frame io' = map_option frame io"
  "after_effect st (maybeQuarantine ops policy io out obs) = (out', io', e, evs) \<Longrightarrow> map_option frame io' = map_option frame io"
  using after_effect_frame maybeCleanup_frame maybeQuarantine_frame by (metis prod.collapse)+

lemma recoverDecide_frame:
  assumes "recoverDecide ops obs policy io flags out = (out', io', e, evs)"
  shows "map_option frame io' = map_option frame io"
proof -
  consider "io' = io"
    | st where "after_effect st (maybeCleanup ops policy io out obs) = (out', io', e, evs)"
    | st o1 where "after_effect st (maybeQuarantine ops policy io out obs) = (o1, io', e, evs)"
    | s o1 o2 e2 where "io = Some s" "confirmOnce ops (af_txid flags) s o1 = (o2, io', e2)"
    using assms
    by (auto simp: recoverDecide_def stop_closed_def Let_def split: if_splits option.splits prod.splits)
  then show ?thesis
    by cases (auto dest: effects_frame confirmOnce_frame)
qed

lemma Recover_frame:
  assumes "Recover ops prefix obs policy io = (out, io', e, evs)"
  shows "map_option frame io' = map_option frame io"
proof (cases "\<exists>flags. admissible prefix obs flags")
  case True
  then obtain flags where adm: "admissible prefix obs flags" ..
  let ?out = "(base_outcome prefix obs flags)\<lparr>out_Actions := [action_of ActionEnterRecovering], out_State := StateRecovering\<rparr>"
  have "io' = io \<or> recoverDecide ops obs policy io (observePublication obs flags) ?out = (out, io', e, evs)"
    using assms unfolding Recover_admissible [OF adm] Let_def by (simp split: if_splits)
  then show ?thesis
    using recoverDecide_frame by blast
next
  case False
  then obtain o1 e1 evs1 where "Recover ops prefix obs policy io = (o1, io, Some e1, evs1)"
    by (rule Recover_inadmissible)
  with assms show ?thesis
    by simp
qed

end

interpretation mem_frame: persist_frame mem_persist_ops mp_FailAt
  by unfold_locales
    (auto simp: mem_persist_ops_def MemCheckpoint_def MemCleanupStaging_def MemQuarantineStaging_def
      MemAppendConfirmation_def Let_def split: if_splits)

text \<open>The published directory, and the label faults are injected at.\<close>

definition published_of :: "file_persist \<Rightarrow> dir option" where
  "published_of f = fs_dirs (fl_fs f) ''published''"

lemma sysRemove_published [simp]:
  "fs_dirs (fst (sysRemove os ''staging'' n fs)) ''published'' = fs_dirs fs ''published''"
  by (simp add: sysRemove_def set_dir_def split: option.split)

lemma sysRename_published [simp]:
  "fs_dirs (fst (sysRename os ''staging'' ''quarantine'' n fs)) ''published'' = fs_dirs fs ''published''"
  by (simp add: sysRename_def set_dir_def split: option.split)

lemma removeLoop_published [simp]: "fs_dirs (removeLoop os es fs) ''published'' = fs_dirs fs ''published''"
  by (induction es arbitrary: fs) simp_all

lemma renameLoop_published [simp]: "fs_dirs (fst (renameLoop os es fs)) ''published'' = fs_dirs fs ''published''"
proof (induction es arbitrary: fs)
  case (Cons e es)
  obtain fs' r where r: "sysRename os ''staging'' ''quarantine'' (fst e) fs = (fs', r)"
    by fastforce
  then have "fs_dirs fs' ''published'' = fs_dirs fs ''published''"
    using sysRename_published [of os "fst e" fs] by simp
  with r Cons.IH [of fs'] show ?case
    by (simp split: option.split)
qed simp

lemma logWrite_dirs [simp]: "fs_dirs (fst (logWrite os part b fs)) = fs_dirs fs"
  by (simp add: logWrite_def Let_def split: option.split)

lemma logWrite_published: "logWrite os part b fs = (fs', e) \<Longrightarrow> fs_dirs fs' = fs_dirs fs"
  using logWrite_dirs [of os part b fs] by simp

interpretation file_frame: persist_frame "file_persist_ops os" published_of
proof unfold_locales
  fix s s' :: file_persist and l txid b e
  show "pio_Checkpoint (file_persist_ops os) s l = (s', e) \<Longrightarrow> published_of s' = published_of s"
    by (auto simp: file_persist_ops_def FileCheckpoint_def published_of_def Let_def split: option.splits if_splits)
  show "pio_CleanupStaging (file_persist_ops os) s = (s', e) \<Longrightarrow> published_of s' = published_of s"
    by (auto simp: file_persist_ops_def FileCleanupStaging_def published_of_def split: sum.splits if_splits)
  show "pio_QuarantineStaging (file_persist_ops os) s = (s', e) \<Longrightarrow> published_of s' = published_of s"
  proof (cases "sysReadDir os ''staging'' (fl_fs s)")
    case (Inr es)
    assume q: "pio_QuarantineStaging (file_persist_ops os) s = (s', e)"
    obtain fs r where r: "renameLoop os es (fl_fs s) = (fs, r)"
      by fastforce
    then have "fs_dirs fs ''published'' = fs_dirs (fl_fs s) ''published''"
      using renameLoop_published [of os es "fl_fs s"] by simp
    then show ?thesis
      using q Inr r by (auto simp: file_persist_ops_def FileQuarantineStaging_def published_of_def split: option.splits)
  qed (auto simp: file_persist_ops_def FileQuarantineStaging_def split: if_splits)
  show "pio_AppendConfirmation (file_persist_ops os) s txid b = (s', e) \<Longrightarrow> published_of s' = published_of s"
    by (auto simp: file_persist_ops_def FileAppendConfirmation_def published_of_def Let_def
        split: prod.splits option.splits dest!: logWrite_published)
qed

subsection \<open>Publication is all or nothing\<close>

lemma pub_checkpoint_expected: "pub_checkpoint p l = (p', e) \<Longrightarrow> fp_ExpectedContent p' = fp_ExpectedContent p"
  by (auto simp: pub_checkpoint_def Let_def split: if_splits)

lemma set_dir_dirs [simp]: "fs_dirs (set_dir sub d fs) s = (if s = sub then Some d else fs_dirs fs s)"
  by (simp add: set_dir_def)

text \<open>With the file staged alone and nothing published: either nothing moved, or the file moved whole.\<close>

lemma publishStaged_atomic:
  assumes "publishStaged os n fs p = (fs', p', e)"
    and "fs_dirs fs ''staging'' = Some [(n, data)]" and "fs_dirs fs ''published'' = Some []"
  shows "fs' = fs \<and> e \<noteq> None \<or> fs_dirs fs' ''staging'' = Some [] \<and> fs_dirs fs' ''published'' = Some [(n, data)]"
    and "fp_ExpectedContent p' = fp_ExpectedContent p"
  using assms
  by (auto simp: publishStaged_def sysRename_def dir_del_def split: prod.splits option.splits if_splits
      dest!: pub_checkpoint_expected)

lemma sysRemove_staged:
  assumes "fs_dirs fs ''published'' = Some []"
  shows "fs_dirs (fst (sysRemove os ''staging'' n fs)) ''published'' = Some []"
  using assms by simp

lemma PublishFile_atomic:
  assumes pub: "PublishFile os n data fs p = (fs', p', e)"
    and fs: "fs_dirs fs ''staging'' = Some []" "fs_dirs fs ''published'' = Some []"
  shows "fs_dirs fs' ''published'' = Some [] \<and> e \<noteq> None \<or>
      fs_dirs fs' ''staging'' = Some [] \<and> fs_dirs fs' ''published'' = Some [(n, data)]"
    and "fp_ExpectedContent p' = fp_ExpectedContent p"
proof -
  have "fs_dirs fs' ''published'' = Some [] \<and> e \<noteq> None \<and> fp_ExpectedContent p' = fp_ExpectedContent p \<or>
    (\<exists>fs1 p1. publishStaged os n fs1 p1 = (fs', p', e) \<and> fs_dirs fs1 ''staging'' = Some [(n, data)] \<and>
        fs_dirs fs1 ''published'' = Some [] \<and> fp_ExpectedContent p1 = fp_ExpectedContent p)"
  proof (cases "validatePublishName n")
    case None
    obtain p1 r where cp: "pub_checkpoint p LabelPStageCreate = (p1, r)"
      by fastforce
    let ?fs = "set_dir ''staging'' [(n, data)] (set_dir ''staging'' [(n, [])] fs)"
    have "fs_dirs fs' ''published'' = Some [] \<and> e \<noteq> None \<and> fp_ExpectedContent p' = fp_ExpectedContent p \<or>
        publishStaged os n ?fs (p1\<lparr>fp_StageMechanism := ''write''\<rparr>) = (fs', p', e)"
      using pub fs None cp pub_checkpoint_expected [OF cp]
      by (auto simp: PublishFile_def sysOpenExcl_def sysWrite_def split: option.splits if_splits)
    moreover have "fs_dirs ?fs ''staging'' = Some [(n, data)]" "fs_dirs ?fs ''published'' = Some []"
      "fp_ExpectedContent (p1\<lparr>fp_StageMechanism := ''write''\<rparr>) = fp_ExpectedContent p"
      using fs pub_checkpoint_expected [OF cp] by simp_all
    ultimately show ?thesis
      by blast
  next
    case (Some a)
    then show ?thesis
      using pub fs by (intro disjI1) (simp add: PublishFile_def, metis option.distinct(1))
  qed
  then consider (early) "fs_dirs fs' ''published'' = Some []" "e \<noteq> None" "fp_ExpectedContent p' = fp_ExpectedContent p"
    | (staged) fs1 p1 where "publishStaged os n fs1 p1 = (fs', p', e)" "fs_dirs fs1 ''staging'' = Some [(n, data)]"
        "fs_dirs fs1 ''published'' = Some []" "fp_ExpectedContent p1 = fp_ExpectedContent p"
    by blast
  then have "(fs_dirs fs' ''published'' = Some [] \<and> e \<noteq> None \<or>
      fs_dirs fs' ''staging'' = Some [] \<and> fs_dirs fs' ''published'' = Some [(n, data)]) \<and>
      fp_ExpectedContent p' = fp_ExpectedContent p"
  proof cases
    case staged
    then show ?thesis
      using publishStaged_atomic [OF staged(1-3)] by auto
  qed auto
  then show "fs_dirs fs' ''published'' = Some [] \<and> e \<noteq> None \<or>
      fs_dirs fs' ''staging'' = Some [] \<and> fs_dirs fs' ''published'' = Some [(n, data)]"
    and "fp_ExpectedContent p' = fp_ExpectedContent p"
    by blast+
qed

lemma sameBytesLoop_iff: "length a = length b \<Longrightarrow> sameBytesLoop a b \<longleftrightarrow> a = b"
  by (induction a b rule: list_induct2) auto

text \<open>An existing directory is not reported as missing.\<close>

definition honest_readdir :: "rec_os \<Rightarrow> bool" where
  "honest_readdir os \<longleftrightarrow> os_err os SysReadDir [''staging''] \<noteq> Some ErrNotExist \<and>
     os_err os SysReadDir [''published''] \<noteq> Some ErrNotExist"

lemma Observation_published:
  assumes "Observation os fs p rid vid = (obs, None)" and "honest_readdir os"
    and "fs_dirs fs ''published'' = Some [(n, data)]" and "fp_ExpectedContent p = Some data"
  shows "linearized obs" "ob_RootIdentity obs = rid" "ob_VolumeIdentity obs = vid"
  using assms
  by (auto simp: Observation_def dirHasEntries_def sysReadDir_def publishedMatches_def sameBytesLoop_iff
      IsNotExist_def honest_readdir_def linearized_def Let_def split: sum.splits option.splits if_splits)

lemma Observation_unpublished:
  assumes "Observation os fs p rid vid = (obs, None)" and "fs_dirs fs ''published'' = Some []"
  shows "\<not> linearized obs" "\<not> ob_PublicationStarted obs" "ob_RootIdentity obs = rid" "ob_VolumeIdentity obs = vid"
  using assms
  by (auto simp: Observation_def dirHasEntries_def sysReadDir_def linearized_def Let_def
      split: sum.splits option.splits if_splits)

subsection \<open>Properties\<close>

text \<open>A journal that authorises and prepares the publication, bound to the given identities.\<close>

definition authorises :: "journal_prefix \<Rightarrow> digest \<Rightarrow> digest \<Rightarrow> bool" where
  "authorises prefix rid vid \<longleftrightarrow>
     (case scanPrefix prefix of
        (flags, None) \<Rightarrow> af_contradiction flags = [] \<and> full_chain flags \<and> af_confirmationCount flags = 0 \<and>
          (case af_binding flags of
             Some b \<Rightarrow> ab_RootIdentity b = rid \<and> ab_VolumeIdentity b = vid
           | None \<Rightarrow> False)
      | _ \<Rightarrow> False)"

text \<open>
  C1: Publication is atomic across a crash and recovery.  Publish a file into empty directories
  with any fault: an armed label, a failing or short write, a failing rename or barrier.
  Observe the tree and recover from a journal that authorises the publication, with the
  directory-backed persistence and any policy and fault there too.  If recovery succeeds, then
  either it reports PUBLISHED or CONFIRMED and the published directory holds exactly the file
  with exactly its bytes, or it reports QUARANTINED or CANCELLED, publishing had reported its
  failure, and nothing is published.
\<close>

theorem publish_crash_recover_atomic:
  assumes fs: "fs_dirs fs ''staging'' = Some []" "fs_dirs fs ''published'' = Some []"
    and pub: "PublishFile os n data fs p = (fs', p', e)" and want: "fp_ExpectedContent p = Some data"
    and obs: "Observation os' fs' p' rid vid = (obs, None)" and honest: "honest_readdir os'"
    and auth: "authorises prefix rid vid"
    and tree: "fl_fs f = fs'"
    and rcv: "Recover (file_persist_ops os'') prefix obs policy (Some f) = (out, io, None, evs)"
  shows "\<exists>f'. io = Some f' \<and>
    (out_State out \<in> {StatePublished, StateConfirmed} \<and> fs_dirs (fl_fs f') ''published'' = Some [(n, data)] \<or>
     out_State out \<in> {StateQuarantined, StateCancelled} \<and> fs_dirs (fl_fs f') ''published'' = Some [] \<and> e \<noteq> None)"
proof -
  obtain flags b where scan: "scanPrefix prefix = (flags, None)" and clean: "af_contradiction flags = []"
    and chain: "full_chain flags" and cnt: "af_confirmationCount flags = 0"
    and bind: "af_binding flags = Some b" "ab_RootIdentity b = rid" "ab_VolumeIdentity b = vid"
    using auth by (auto simp: authorises_def split: prod.splits option.splits)
  have np: "\<not> af_published flags"
    by (rule scan_unpublished [OF scan])
  have ids: "ob_RootIdentity obs = rid" "ob_VolumeIdentity obs = vid"
    using PublishFile_atomic [OF pub fs] Observation_published(2,3) [OF obs honest]
      Observation_unpublished(3,4) [OF obs] want by metis+
  then have adm: "admissible prefix obs flags"
    using scan clean chain cnt bind by (simp add: admissible_def identity_matches_def)
  obtain g where g: "scanLoop zero_flags (p_Records prefix) = Inr g" "flags = scanChecks g"
    using scanPrefix_clean [OF scan clean] .
  then have "p_Records prefix \<noteq> []"
    using chain by (auto simp: full_chain_def zero_flags_def)
  then have st: "out_State out = final_state (observePublication obs flags) (may_confirm policy (Some f))"
    using Recover_final(1) [OF adm nothing_durable_records rcv] by blast
  obtain f' where f': "io = Some f'" "fs_dirs (fl_fs f') ''published'' = fs_dirs fs' ''published''"
    using file_frame.Recover_frame [OF rcv] tree by (cases io) (simp_all add: published_of_def)
  from PublishFile_atomic(1) [OF pub fs] show ?thesis
  proof
    assume no: "fs_dirs fs' ''published'' = Some [] \<and> e \<noteq> None"
    then have "out_State out \<in> {StateQuarantined, StateCancelled}"
      using Observation_unpublished(1) [OF obs] st np by (auto simp: final_state_def)
    with no f' show ?thesis
      by auto
  next
    assume yes: "fs_dirs fs' ''staging'' = Some [] \<and> fs_dirs fs' ''published'' = Some [(n, data)]"
    then have "linearized obs"
      using Observation_published(1) [OF obs honest] PublishFile_atomic(2) [OF pub fs] want by simp
    with yes f' st show ?thesis
      by (auto simp: final_state_def)
  qed
qed

text \<open>A system without failures, and a publisher that is stopped before the rename.\<close>

definition sound_os :: rec_os where
  "sound_os = \<lparr>os_err = (\<lambda>_ _. None), os_written = (\<lambda>_. 0), os_clone = Inr (''copy'', [])\<rparr>"

definition empty_tree :: rec_fs where
  "empty_tree = \<lparr>fs_dirs = (\<lambda>s. if s \<in> {''staging'', ''published'', ''quarantine''} then Some [] else None), fs_confirm = None\<rparr>"

definition sample_publisher :: "crash_label \<Rightarrow> file_publisher" where
  "sample_publisher fail = \<lparr>fp_FailAt = fail, fp_KillAt = [], fp_ExpectedContent = Some [1, 2],
     fp_StageMechanism = [], fp_Checkpoints = []\<rparr>"

definition sample_run :: "crash_label \<Rightarrow> fs_observation \<times> rec_error option \<times> file_persist recover_result" where
  "sample_run fail =
     (let (fs, p, e) = PublishFile sound_os ''obj'' [1, 2] empty_tree (sample_publisher fail);
          (obs, e') = Observation sound_os fs p (replicate 32 2) (replicate 32 3)
      in (obs, e', Recover (file_persist_ops sound_os) sample_txn obs sample_policy
            (Some \<lparr>fl_FailAt = [], fl_Checkpoints = [], fl_Confirms = 0, fl_fs = fs\<rparr>)))"

lemma sample_runs:
  "case sample_run [] of (obs, e', out, io, e, evs) \<Rightarrow> e' = None \<and> e = None \<and> out_State out = StateConfirmed"
  "case sample_run LabelPPublishRename of (obs, e', out, io, e, evs) \<Rightarrow> e' = None \<and> e = None \<and> out_State out = StateQuarantined"
  by code_simp+

lemma sample_authorises: "authorises sample_txn (replicate 32 2) (replicate 32 3)"
  by code_simp

theorem publish_crash_recover_atomic_witness:
  "\<exists>fs' p' e obs f' out evs. PublishFile sound_os ''obj'' [1, 2] empty_tree (sample_publisher []) = (fs', p', e) \<and>
     Observation sound_os fs' p' (replicate 32 2) (replicate 32 3) = (obs, None) \<and>
     Recover (file_persist_ops sound_os) sample_txn obs sample_policy
       (Some \<lparr>fl_FailAt = [], fl_Checkpoints = [], fl_Confirms = 0, fl_fs = fs'\<rparr>) = (out, Some f', None, evs) \<and>
     out_State out = StateConfirmed \<and> fs_dirs (fl_fs f') ''published'' = Some [(''obj'', [1, 2])]"
proof -
  obtain fs' p' e where pub: "PublishFile sound_os ''obj'' [1, 2] empty_tree (sample_publisher []) = (fs', p', e)"
    by (metis prod_cases3)
  obtain obs e' where obs: "Observation sound_os fs' p' (replicate 32 2) (replicate 32 3) = (obs, e')"
    by fastforce
  obtain out io e2 evs where rcv: "Recover (file_persist_ops sound_os) sample_txn obs sample_policy
      (Some \<lparr>fl_FailAt = [], fl_Checkpoints = [], fl_Confirms = 0, fl_fs = fs'\<rparr>) = (out, io, e2, evs)"
    by (metis prod_cases4)
  have ok: "e' = None" "e2 = None" "out_State out = StateConfirmed"
    using sample_runs(1) by (simp_all add: sample_run_def pub obs rcv)
  have tree: "fs_dirs empty_tree ''staging'' = Some []" "fs_dirs empty_tree ''published'' = Some []"
    and "fp_ExpectedContent (sample_publisher []) = Some [1, 2]" and "honest_readdir sound_os"
    by (simp_all add: empty_tree_def sample_publisher_def honest_readdir_def sound_os_def)
  then have "\<exists>f'. io = Some f' \<and> fs_dirs (fl_fs f') ''published'' = Some [(''obj'', [1, 2])]"
    using publish_crash_recover_atomic [OF tree pub _ obs [unfolded ok] _ sample_authorises _ rcv [unfolded ok]] ok(3)
    by auto
  with pub obs rcv ok show ?thesis
    by blast
qed

end
