(* ===== verification/Crypto.thy ===== *)
theory Crypto
  imports Encoding Compare
begin

text \<open>
  Key derivation, transcripts and proofs: \<open>internal/crypto\<close> (\<open>crypto.go\<close>, \<open>aead.go\<close>,
  \<open>peerauth.go\<close>, \<open>archiveauth.go\<close>).  SHA-256 and HMAC are modelled in full; the cipher
  ChaCha20-Poly1305 belongs to another module and is a parameter.
\<close>

record crypto_error =
  cx_Code :: string
  cx_Message :: string

definition crypto_error_text :: "crypto_error \<Rightarrow> string" where
  "crypto_error_text e = cx_Code e @ '': '' @ cx_Message e"

definition crypto_fail :: "string \<Rightarrow> string \<Rightarrow> crypto_error" where
  "crypto_fail code msg = \<lparr>cx_Code = code, cx_Message = msg\<rparr>"

text \<open>The verb \<open>%d\<close> for a signed number.\<close>

definition itoa_int :: "int \<Rightarrow> string" where
  "itoa_int i = (if i < 0 then ''-'' @ itoa (nat (- i)) else itoa (nat i))"

subsection \<open>Key derivation\<close>

definition HMACSHA256 :: "bytes \<Rightarrow> bytes \<Rightarrow> bytes" where
  "HMACSHA256 key msg = hmac_sha256 key msg"

text \<open>The expansion loop; the counter is a byte and wraps.\<close>

function expandLoop :: "bytes \<Rightarrow> bytes \<Rightarrow> nat \<Rightarrow> bytes \<Rightarrow> bytes \<Rightarrow> byte \<Rightarrow> crypto_error + bytes" where
  "expandLoop prk info len out prev counter =
     (if length out < len then
        let prev = hmac_sha256 prk (prev @ info @ [counter]);
            out = out @ prev;
            counter = counter + 1 in
        if counter = 0 then Inl (crypto_fail ''expand'' ''HKDF counter overflow'')
        else expandLoop prk info len out prev counter
      else Inr out)"
  by pat_completeness auto
termination
  by (relation "measure (\<lambda>(prk, info, len, out, prev, counter). len - length out)") auto

declare expandLoop.simps [simp del]

text \<open>A nil salt is \<open>None\<close>; it stands for a block of zeros.\<close>

definition HKDFSHA256 :: "bytes \<Rightarrow> bytes option \<Rightarrow> bytes \<Rightarrow> int \<Rightarrow> crypto_error + bytes" where
  "HKDFSHA256 ikm salt info len =
     (if len \<le> 0 \<or> len > 255 * 32
        then Inl (crypto_fail ''length'' (''invalid HKDF length '' @ itoa_int len))
      else
        let salt = (case salt of None \<Rightarrow> make_bytes 32 | Some s \<Rightarrow> s);
            prk = hmac_sha256 salt ikm in
        case expandLoop prk info (nat len) [] [] 1 of
          Inl e \<Rightarrow> Inl e
        | Inr out \<Rightarrow> Inr (take (nat len) out))"

definition string_less :: "string \<Rightarrow> string \<Rightarrow> bool" where
  "string_less s t \<longleftrightarrow> bytesCompare (bytes_of s) (bytes_of t) < 0"

definition ChannelMACKey :: "bytes \<Rightarrow> string \<Rightarrow> string \<Rightarrow> crypto_error + bytes" where
  "ChannelMACKey rootKey roleA roleB =
     (if length rootKey < 16 then Inl (crypto_fail ''key'' ''root key must be at least 16 bytes'')
      else if roleA = [] \<or> roleB = [] then Inl (crypto_fail ''role'' ''empty role'')
      else if roleA = roleB then Inl (crypto_fail ''role'' ''roles must differ'')
      else
        let (lo, hi) = (if string_less roleB roleA then (roleB, roleA) else (roleA, roleB));
            info = bytes_of ''integris-ipc-mac-v1'';
            info = info @ [0];
            info = info @ bytes_of lo;
            info = info @ [0];
            info = info @ bytes_of hi
        in HKDFSHA256 rootKey None info 32)"

subsection \<open>Transcripts\<close>

text \<open>A transcript is the input written into its hash so far.\<close>

type_synonym transcript = bytes

definition NewTranscript :: transcript where
  "NewTranscript = []"

definition TranscriptAppend :: "transcript \<Rightarrow> string \<Rightarrow> bytes \<Rightarrow> crypto_error + transcript" where
  "TranscriptAppend t label data =
     (if label = [] then Inl (crypto_fail ''label'' ''empty label'')
      else if length label > 65535 \<or> length data > 1048576
        then Inl (crypto_fail ''limit'' ''label or data too large'')
      else
        let t = t @ PutU32LE (len32 label);
            t = t @ bytes_of label;
            t = t @ PutU32LE (len32 data);
            t = t @ data
        in Inr t)"

definition TranscriptDigest :: "transcript \<Rightarrow> digest" where
  "TranscriptDigest t = SHA256 t"

subsection \<open>Session cipher\<close>

definition SuiteIDAEAD :: string where
  "SuiteIDAEAD = ''integris-session-aead-chacha20poly1305-v1''"

definition AEADNonceSize :: nat where "AEADNonceSize = 12"
definition AEADKeySize :: nat where "AEADKeySize = 32"

text \<open>The cipher: key, nonce, text, associated data.\<close>

record aead =
  aead_seal :: "bytes \<Rightarrow> bytes \<Rightarrow> bytes \<Rightarrow> bytes \<Rightarrow> bytes"
  aead_open :: "bytes \<Rightarrow> bytes \<Rightarrow> bytes \<Rightarrow> bytes \<Rightarrow> bytes option"

definition SessionAEADKey :: "bytes \<Rightarrow> bytes \<Rightarrow> crypto_error + bytes" where
  "SessionAEADKey rootKey sessionID =
     (if length rootKey < 16 then Inl (crypto_fail ''key'' ''root key must be at least 16 bytes'')
      else
        let info = bytes_of SuiteIDAEAD;
            info = info @ [0];
            info = info @ sessionID
        in HKDFSHA256 rootKey None info (int AEADKeySize))"

definition SequenceNonce :: "u64 \<Rightarrow> bytes" where
  "SequenceNonce seq = copy_at 4 (be_bytes64 seq) (make_bytes AEADNonceSize)"

definition newAEAD :: "bytes \<Rightarrow> crypto_error option" where
  "newAEAD key =
     (if length key \<noteq> AEADKeySize
        then Some (crypto_fail ''key'' (''AEAD key must be '' @ itoa AEADKeySize @ '' bytes'')) else None)"

definition Seal :: "aead \<Rightarrow> bytes \<Rightarrow> bytes \<Rightarrow> bytes \<Rightarrow> bytes \<Rightarrow> crypto_error + bytes" where
  "Seal A key nonce aad plaintext =
     (case newAEAD key of
        Some e \<Rightarrow> Inl e
      | None \<Rightarrow>
          if length nonce \<noteq> AEADNonceSize
            then Inl (crypto_fail ''nonce'' (''want '' @ itoa AEADNonceSize @ '' bytes''))
          else if length plaintext > 1048576 then Inl (crypto_fail ''limit'' ''plaintext too large'')
          else Inr (aead_seal A key nonce plaintext aad))"

definition Open :: "aead \<Rightarrow> bytes \<Rightarrow> bytes \<Rightarrow> bytes \<Rightarrow> bytes \<Rightarrow> crypto_error + bytes" where
  "Open A key nonce aad ciphertext =
     (case newAEAD key of
        Some e \<Rightarrow> Inl e
      | None \<Rightarrow>
          if length nonce \<noteq> AEADNonceSize
            then Inl (crypto_fail ''nonce'' (''want '' @ itoa AEADNonceSize @ '' bytes''))
          else
            (case aead_open A key nonce ciphertext aad of
               None \<Rightarrow> Inl (crypto_fail ''auth'' ''AEAD open failed'')
             | Some pt \<Rightarrow> Inr pt))"

definition TrafficKey :: "bytes \<Rightarrow> digest \<Rightarrow> bytes \<Rightarrow> string \<Rightarrow> crypto_error + bytes" where
  "TrafficKey rootKey transcriptDig sessionID suite =
     (if suite \<noteq> SuiteIDAEAD then Inl (crypto_fail ''suite'' (''unsupported suite '' @ suite))
      else if length rootKey < 16 then Inl (crypto_fail ''key'' ''root key must be at least 16 bytes'')
      else
        let info = bytes_of suite;
            info = info @ [0];
            info = info @ sessionID;
            info = info @ transcriptDig
        in HKDFSHA256 rootKey None info (int AEADKeySize))"

subsection \<open>Authentication proofs\<close>

definition SuiteIDPeerAuth :: string where
  "SuiteIDPeerAuth = ''integris-peer-auth-hmac-sha256-v1''"

definition PeerAuthKey :: "bytes \<Rightarrow> bytes \<Rightarrow> crypto_error + bytes" where
  "PeerAuthKey rootKey sessionID =
     (if length rootKey < 16 then Inl (crypto_fail ''key'' ''root key must be at least 16 bytes'')
      else
        let info = bytes_of SuiteIDPeerAuth;
            info = info @ [0];
            info = info @ sessionID
        in HKDFSHA256 rootKey None info 32)"

definition PeerAuthProof :: "bytes \<Rightarrow> digest \<Rightarrow> bytes \<Rightarrow> string \<Rightarrow> crypto_error + bytes" where
  "PeerAuthProof authKey transcriptDig sessionID direction =
     (if length authKey < 16 then Inl (crypto_fail ''key'' ''auth key too short'')
      else if direction \<noteq> ''i2r'' \<and> direction \<noteq> ''r2i''
        then Inl (crypto_fail ''direction'' ''direction must be i2r or r2i'')
      else
        let msg = bytes_of SuiteIDPeerAuth;
            msg = msg @ [0];
            msg = msg @ sessionID;
            msg = msg @ transcriptDig;
            msg = msg @ bytes_of direction
        in Inr (HMACSHA256 authKey msg))"

definition VerifyPeerAuthProof :: "bytes \<Rightarrow> digest \<Rightarrow> bytes \<Rightarrow> string \<Rightarrow> bytes \<Rightarrow> crypto_error option" where
  "VerifyPeerAuthProof authKey transcriptDig sessionID direction proof =
     (case PeerAuthProof authKey transcriptDig sessionID direction of
        Inl e \<Rightarrow> Some e
      | Inr want \<Rightarrow> if want \<noteq> proof then Some (crypto_fail ''auth'' ''peer auth proof mismatch'') else None)"

definition SuiteIDArchiveAuth :: string where
  "SuiteIDArchiveAuth = ''integris-archive-auth-hmac-sha256-v1''"

definition ArchiveAuthKey :: "bytes \<Rightarrow> bytes \<Rightarrow> crypto_error + bytes" where
  "ArchiveAuthKey rootKey sessionID =
     (if length rootKey < 16 then Inl (crypto_fail ''key'' ''root key must be at least 16 bytes'')
      else
        let info = bytes_of SuiteIDArchiveAuth;
            info = info @ [0];
            info = info @ sessionID
        in HKDFSHA256 rootKey None info 32)"

definition ArchiveAuthProof :: "bytes \<Rightarrow> digest \<Rightarrow> bytes \<Rightarrow> crypto_error + bytes" where
  "ArchiveAuthProof authKey transcriptDig sessionID =
     (if length authKey < 16 then Inl (crypto_fail ''key'' ''auth key too short'')
      else
        let msg = bytes_of SuiteIDArchiveAuth;
            msg = msg @ [0];
            msg = msg @ sessionID;
            msg = msg @ transcriptDig
        in Inr (HMACSHA256 authKey msg))"

definition VerifyArchiveAuthProof :: "bytes \<Rightarrow> digest \<Rightarrow> bytes \<Rightarrow> bytes \<Rightarrow> crypto_error option" where
  "VerifyArchiveAuthProof authKey transcriptDig sessionID proof =
     (case ArchiveAuthProof authKey transcriptDig sessionID of
        Inl e \<Rightarrow> Some e
      | Inr want \<Rightarrow> if want \<noteq> proof then Some (crypto_fail ''auth'' ''archive auth proof mismatch'') else None)"

subsection \<open>HKDF is RFC 5869\<close>

primrec rfc_T :: "bytes \<Rightarrow> bytes \<Rightarrow> nat \<Rightarrow> bytes" where
  "rfc_T prk info 0 = []"
| "rfc_T prk info (Suc i) = hmac_sha256 prk (rfc_T prk info i @ info @ [word_of_nat (Suc i)])"

definition rfc_blocks :: "bytes \<Rightarrow> bytes \<Rightarrow> nat \<Rightarrow> bytes" where
  "rfc_blocks prk info n = concat (map (rfc_T prk info) [1..<Suc n])"

definition rfc5869 :: "bytes \<Rightarrow> bytes \<Rightarrow> bytes \<Rightarrow> nat \<Rightarrow> bytes" where
  "rfc5869 salt ikm info len = take len (rfc_blocks (hmac_sha256 salt ikm) info ((len + 31) div 32))"

lemma rfc_blocks_Suc: "rfc_blocks prk info (Suc n) = rfc_blocks prk info n @ rfc_T prk info (Suc n)"
  by (simp add: rfc_blocks_def)

lemma length_rfc_T: "length (rfc_T prk info (Suc i)) = 32"
  by simp

lemma length_rfc_blocks: "length (rfc_blocks prk info n) = 32 * n"
proof (induction n)
  case (Suc n)
  then show ?case
    by (simp only: rfc_blocks_Suc length_append length_rfc_T mult_Suc_right)
qed (simp add: rfc_blocks_def)

text \<open>The loop with \<open>k\<close> blocks produced; the counter is refused when it wraps, even if nothing more is needed.\<close>

lemma expandLoop_blocks:
  assumes "k \<le> 254"
  shows "expandLoop prk info len (rfc_blocks prk info k) (rfc_T prk info k) (word_of_nat (Suc k)) =
    (if len \<le> 32 * 254 then Inr (rfc_blocks prk info (max k ((len + 31) div 32)))
     else Inl (crypto_fail ''expand'' ''HKDF counter overflow''))"
  using assms
proof (induction "254 - k" arbitrary: k)
  case 0
  then have k: "k = 254" by simp
  show ?case
  proof (cases "32 * 254 < len")
    case True
    then show ?thesis
      unfolding k by (subst expandLoop.simps) (simp add: length_rfc_blocks Let_def)
  next
    case False
    then have "max 254 ((len + 31) div 32) = 254"
      by simp
    with False show ?thesis
      unfolding k by (subst expandLoop.simps) (simp add: length_rfc_blocks)
  qed
next
  case (Suc d)
  then have k: "k < 254" by simp
  have IH: "expandLoop prk info len (rfc_blocks prk info (Suc k)) (rfc_T prk info (Suc k)) (word_of_nat (Suc (Suc k))) =
    (if len \<le> 32 * 254 then Inr (rfc_blocks prk info (max (Suc k) ((len + 31) div 32)))
     else Inl (crypto_fail ''expand'' ''HKDF counter overflow''))"
    using Suc by (intro Suc.hyps) auto
  show ?case
  proof (cases "32 * k < len")
    case True
    have "(word_of_nat (Suc k) + 1 :: byte) = word_of_nat (Suc (Suc k))"
      by simp
    moreover have "(word_of_nat (Suc (Suc k)) :: byte) \<noteq> 0"
    proof
      assume "(word_of_nat (Suc (Suc k)) :: byte) = 0"
      then have "unat (word_of_nat (Suc (Suc k)) :: byte) = 0"
        by simp
      then show False
        using k by (subst (asm) unat_of_nat_small) auto
    qed
    moreover have "max k ((len + 31) div 32) = max (Suc k) ((len + 31) div 32)"
      using True by (simp add: max_def) linarith
    ultimately show ?thesis
      using True IH by (subst expandLoop.simps) (simp only: length_rfc_blocks rfc_blocks_Suc rfc_T.simps Let_def if_True if_False)
  next
    case False
    then have "max k ((len + 31) div 32) = k" and "len \<le> 32 * 254"
      using k by (simp_all add: max_def) linarith
    with False show ?thesis
      by (subst expandLoop.simps) (simp add: length_rfc_blocks)
  qed
qed

subsection \<open>Transcripts are unambiguous\<close>

definition entry_bytes :: "string \<times> bytes \<Rightarrow> bytes" where
  "entry_bytes e = field32 (bytes_of (fst e)) @ field32 (snd e)"

definition entry_ok :: "string \<times> bytes \<Rightarrow> bool" where
  "entry_ok e \<longleftrightarrow> fst e \<noteq> [] \<and> length (fst e) \<le> 65535 \<and> length (snd e) \<le> 1048576"

interpretation entry_code: prefix_code entry_bytes entry_ok
proof
  fix a b :: "string \<times> bytes" and x y
  assume ok: "entry_ok a" "entry_ok b" and eq: "entry_bytes a @ x = entry_bytes b @ y"
  have l: "length (bytes_of (fst e)) < 2 ^ 32 \<and> length (snd e) < 2 ^ 32" if "entry_ok e" for e
    using that by (simp add: entry_ok_def)
  have one: "bytes_of (fst a) = bytes_of (fst b) \<and> field32 (snd a) @ x = field32 (snd b) @ y"
    using field32_code.split [of "bytes_of (fst a)" "bytes_of (fst b)" "field32 (snd a) @ x" "field32 (snd b) @ y"]
      eq l [OF ok(1)] l [OF ok(2)] by (simp add: entry_bytes_def)
  then have "snd a = snd b \<and> x = y"
    using field32_code.split [of "snd a" "snd b" x y] l [OF ok(1)] l [OF ok(2)] by blast
  with one show "a = b \<and> x = y"
    by (simp add: prod_eq_iff)
qed

fun append_all :: "transcript \<Rightarrow> (string \<times> bytes) list \<Rightarrow> crypto_error + transcript" where
  "append_all t [] = Inr t"
| "append_all t ((label, data) # es) =
     (case TranscriptAppend t label data of Inl e \<Rightarrow> Inl e | Inr t' \<Rightarrow> append_all t' es)"

lemma TranscriptAppend_Inr: "TranscriptAppend t label data = Inr u \<longleftrightarrow> entry_ok (label, data) \<and> u = t @ entry_bytes (label, data)"
  by (auto simp: TranscriptAppend_def entry_ok_def entry_bytes_def field32_def Let_def)

lemma append_all_Inr: "append_all t es = Inr u \<longleftrightarrow> list_all entry_ok es \<and> u = t @ concat (map entry_bytes es)"
proof (induction es arbitrary: t)
  case (Cons e es)
  obtain label data where e: "e = (label, data)"
    by fastforce
  show ?case
  proof (cases "TranscriptAppend t label data")
    case (Inl err)
    then have "\<not> entry_ok (label, data)"
      using TranscriptAppend_Inr [of t label data] by force
    with Inl show ?thesis
      by (simp add: e)
  next
    case (Inr v)
    then have "entry_ok (label, data) \<and> v = t @ entry_bytes (label, data)"
      by (simp add: TranscriptAppend_Inr)
    with Inr Cons.IH [of v] show ?thesis
      by (simp add: e)
  qed
qed auto

lemma entry_bytes_nonempty: "entry_bytes e \<noteq> []"
  by (simp add: entry_bytes_def field32_def PutU32LE_def)

subsection \<open>Properties\<close>

text \<open>
  C33: \<open>HKDFSHA256\<close> returns the output keying material of RFC 5869 for every length from 1 to
  254 blocks and an error for every other length.  The last block RFC 5869 and the function's
  own bound allow, the 255th, always ends in the counter overflow error.
\<close>

theorem hkdf_matches_rfc5869:
  "HKDFSHA256 ikm salt info len =
     (if 1 \<le> len \<and> len \<le> 254 * 32
      then Inr (rfc5869 (case salt of None \<Rightarrow> replicate 32 0 | Some s \<Rightarrow> s) ikm info (nat len))
      else if 1 \<le> len \<and> len \<le> 255 * 32 then Inl (crypto_fail ''expand'' ''HKDF counter overflow'')
      else Inl (crypto_fail ''length'' (''invalid HKDF length '' @ itoa_int len)))"
proof -
  have loop: "expandLoop prk info n [] [] 1 =
    (if n \<le> 32 * 254 then Inr (rfc_blocks prk info ((n + 31) div 32))
     else Inl (crypto_fail ''expand'' ''HKDF counter overflow''))" for prk n
    using expandLoop_blocks [of 0 prk info n] by (simp add: rfc_blocks_def)
  have "nat len \<le> 32 * 254 \<longleftrightarrow> len \<le> 254 * 32" if "0 < len"
    using that by linarith
  then show ?thesis
    by (auto simp: HKDFSHA256_def loop rfc5869_def make_bytes_def Let_def split: option.split)
qed

text \<open>
  C34: A transcript digest binds the whole sequence of labelled fields.  If two sequences of
  appends succeed, SHA-256 does not collide on the two hash inputs and the digests agree, then
  the sequences agree in every label and every byte of data.
\<close>

theorem transcript_binds:
  assumes "append_all NewTranscript es = Inr t" and "append_all NewTranscript fs = Inr u"
    and "SHA256 t = SHA256 u \<longrightarrow> t = u"
    and "TranscriptDigest t = TranscriptDigest u"
  shows "es = fs"
proof -
  have ok: "list_all entry_ok es" "list_all entry_ok fs"
    and t: "t = concat (map entry_bytes es)" "u = concat (map entry_bytes fs)"
    using assms(1,2) unfolding append_all_Inr NewTranscript_def by simp_all
  have "t = u"
    using assms(3,4) by (simp add: TranscriptDigest_def)
  then show ?thesis
    using entry_code.concat_inject [OF _ ok] entry_bytes_nonempty t by simp
qed

theorem transcript_binds_witness:
  "\<exists>t. append_all NewTranscript [(''a'', [1]), (''b'', [])] = Inr t \<and>
     (\<forall>fs. append_all NewTranscript fs = Inr t \<longrightarrow> fs = [(''a'', [1]), (''b'', [])])"
proof -
  obtain t where t: "append_all NewTranscript [(''a'', [1]), (''b'', [])] = Inr t"
    by (simp add: TranscriptAppend_def Let_def)
  then show ?thesis
    using transcript_binds [OF _ t] by blast
qed

end
