(* ===== verification/Session.thy ===== *)
theory Session
  imports Crypto Observability
begin

text \<open>
  The authenticated session: \<open>internal/session\<close> (\<open>session.go\<close>, \<open>suite.go\<close>, \<open>peerauth.go\<close>,
  \<open>archiveauth.go\<close>) and the abstract session model \<open>formal/session/Session.tla\<close>.  Methods
  return the new session and the error.  The optional event sink is the list of events handed
  to it; the optional transcript is its hash input.
\<close>

subsection \<open>The session and its operations\<close>

type_synonym version = byte

definition MinVersion :: version where "MinVersion = 1"
definition MaxVersion :: version where "MaxVersion = 3"

definition LocalAllowed :: "version list" where
  "LocalAllowed = [2, 3]"

definition MaxMessages :: nat where
  "MaxMessages = 3"

definition DefaultMaxAccept :: u64 where
  "DefaultMaxAccept = 1048576"

datatype sess_state =
  SessNew | SessNegotiated | SessPeerAuthenticated | SessArchiveAuthorized | SessActive | SessClosed | SessFailed

record session =
  se_State :: sess_state
  se_Offered :: "version list"
  se_Selected :: version
  se_OfferedSuites :: "string list"
  se_SelectedSuite :: string
  se_RequireSuite :: bool
  se_PeerAuthenticated :: bool
  se_AuthI2R :: bool
  se_AuthR2I :: bool
  se_ArchiveAuthorized :: bool
  se_ReceiveSequence :: u64
  se_MaxAccept :: u64
  se_ReplayAccepted :: bool
  se_ProductMutation :: bool
  se_Events :: "obs_event list option"
  se_Transcript :: "transcript option"
  se_AuthBaseDigest :: digest
  se_AuthBaseSet :: bool
  se_ArchiveBaseDigest :: digest
  se_ArchiveBaseSet :: bool

record sess_error =
  sx_Code :: string
  sx_Message :: string

definition sess_error_text :: "sess_error \<Rightarrow> string" where
  "sess_error_text e = sx_Code e @ '': '' @ sx_Message e"

definition sess_fail :: "string \<Rightarrow> string \<Rightarrow> sess_error" where
  "sess_fail code msg = \<lparr>sx_Code = code, sx_Message = msg\<rparr>"

definition sess_emit :: "session \<Rightarrow> string \<Rightarrow> string \<Rightarrow> string \<Rightarrow> obs_severity \<Rightarrow> session" where
  "sess_emit s eid cause message sev =
     (case se_Events s of
        None \<Rightarrow> s
      | Some log \<Rightarrow>
          s\<lparr>se_Events := Some (log @
             [\<lparr>ev_ID = eid, ev_Channel = ChannelSecurity, ev_Severity = sev, ev_Component = ''session'',
               ev_ArchivePseudonym = zero_digest, ev_TransactionID = replicate 16 0, ev_Sequence = 0,
               ev_CauseCategory = cause, ev_Redaction = RedactionInternal, ev_Message = message\<rparr>])\<rparr>)"

text \<open>Errors of \<open>Append\<close> are discarded.\<close>

definition bind_field :: "session \<Rightarrow> string \<Rightarrow> bytes \<Rightarrow> session" where
  "bind_field s label data =
     (case se_Transcript s of
        None \<Rightarrow> s
      | Some t \<Rightarrow>
          (case TranscriptAppend t label data of
             Inl _ \<Rightarrow> s
           | Inr t' \<Rightarrow> s\<lparr>se_Transcript := Some t'\<rparr>))"

definition bindVersions :: "session \<Rightarrow> string \<Rightarrow> version list \<Rightarrow> session" where
  "bindVersions s label vers = bind_field s label (map (\<lambda>v. v) vers)"

definition NewSession :: "version list \<Rightarrow> session" where
  "NewSession offered = \<lparr>se_State = SessNew, se_Offered = offered, se_Selected = 0, se_OfferedSuites = [],
     se_SelectedSuite = [], se_RequireSuite = False, se_PeerAuthenticated = False, se_AuthI2R = False,
     se_AuthR2I = False, se_ArchiveAuthorized = False, se_ReceiveSequence = 0, se_MaxAccept = 0,
     se_ReplayAccepted = False, se_ProductMutation = False, se_Events = None, se_Transcript = None,
     se_AuthBaseDigest = zero_digest, se_AuthBaseSet = False, se_ArchiveBaseDigest = zero_digest,
     se_ArchiveBaseSet = False\<rparr>"

definition NewWithSuites :: "version list \<Rightarrow> string list \<Rightarrow> session" where
  "NewWithSuites offered suites =
     (NewSession offered)\<lparr>se_OfferedSuites := suites, se_RequireSuite := True\<rparr>"

fun highestLoop :: "version \<Rightarrow> version list \<Rightarrow> version" where
  "highestLoop h [] = h"
| "highestLoop h (v # vs) = highestLoop (if v > h then v else h) vs"

fun highest :: "version list \<Rightarrow> version \<times> bool" where
  "highest [] = (0, False)"
| "highest (c # cands) = (highestLoop c cands, True)"

definition candidates :: "version list \<Rightarrow> version list" where
  "candidates offered = filter (\<lambda>v. v \<in> set LocalAllowed) offered"

definition LocalSuites :: "string list" where
  "LocalSuites = [SuiteIDAEAD]"

fun selectLoop :: "string list \<Rightarrow> string list \<Rightarrow> string \<times> bool" where
  "selectLoop peer [] = ([], False)"
| "selectLoop peer (s # local) =
     (if s = [] then selectLoop peer local
      else if s \<in> set peer then (s, True) else selectLoop peer local)"

definition SelectSuite :: "string list \<Rightarrow> string list \<Rightarrow> string \<times> bool" where
  "SelectSuite local offered =
     (if local = [] \<or> offered = [] then ([], False)
      else selectLoop (filter (\<lambda>s. s \<noteq> []) offered) local)"

definition freezeAuthBase :: "session \<Rightarrow> session" where
  "freezeAuthBase s =
     (case se_Transcript s of
        None \<Rightarrow> s
      | Some t \<Rightarrow> s\<lparr>se_AuthBaseDigest := TranscriptDigest t, se_AuthBaseSet := True\<rparr>)"

definition freezeArchiveBase :: "session \<Rightarrow> session" where
  "freezeArchiveBase s =
     (case se_Transcript s of
        None \<Rightarrow> s
      | Some t \<Rightarrow> s\<lparr>se_ArchiveBaseDigest := TranscriptDigest t, se_ArchiveBaseSet := True\<rparr>)"

text \<open>The assignments on the way to FAILED: the state, the event, the error.\<close>

definition fail_session :: "session \<Rightarrow> string \<Rightarrow> string \<Rightarrow> sess_error \<Rightarrow> session \<times> sess_error option" where
  "fail_session s cause message e =
     (sess_emit (s\<lparr>se_State := SessFailed\<rparr>) ''session.failed'' cause message SeverityError, Some e)"

definition Negotiate :: "session \<Rightarrow> session \<times> sess_error option" where
  "Negotiate s =
     (if se_State s \<noteq> SessNew then (s, Some (sess_fail ''state'' ''Negotiate requires NEW''))
      else
        let (h, ok) = highest (candidates (se_Offered s)) in
        if \<not> ok then fail_session s ''version'' ''no common version'' (sess_fail ''version'' ''no common version'')
        else
          let s = s\<lparr>se_Selected := h, se_State := SessNegotiated\<rparr>;
              s = bind_field s ''negotiate'' [h];
              s = bindVersions s ''offered'' (se_Offered s);
              s = bindVersions s ''local_allowed'' LocalAllowed in
          if se_RequireSuite s \<or> length (se_OfferedSuites s) > 0 then
            let (suite, ok) = SelectSuite LocalSuites (se_OfferedSuites s) in
            if \<not> ok then fail_session s ''suite'' ''no common crypto suite'' (sess_fail ''suite'' ''no common crypto suite'')
            else
              let s = s\<lparr>se_SelectedSuite := suite\<rparr>;
                  s = bind_field s ''suite'' (bytes_of suite)
              in (freezeAuthBase s, None)
          else (freezeAuthBase s, None))"

definition ConfirmAccept :: "session \<Rightarrow> version \<Rightarrow> string \<Rightarrow> session \<times> sess_error option" where
  "ConfirmAccept s vers suite =
     (if se_State s \<noteq> SessNegotiated then (s, Some (sess_fail ''state'' ''ConfirmAccept requires NEGOTIATED''))
      else if se_Selected s \<noteq> vers
        then fail_session s ''version'' ''accept version mismatch'' (sess_fail ''version'' ''accept version mismatch'')
      else if suite = [] then
        (if se_SelectedSuite s \<noteq> []
         then fail_session s ''suite'' ''accept suite missing'' (sess_fail ''suite'' ''accept suite missing'')
         else (s, None))
      else if se_SelectedSuite s \<noteq> suite
        then fail_session s ''suite'' ''accept suite mismatch'' (sess_fail ''suite'' ''accept suite mismatch'')
      else (s, None))"

text \<open>\<open>!ok || s.Selected != h\<close>\<close>

definition downgraded :: "session \<Rightarrow> bool" where
  "downgraded s = (let (h, ok) = highest (candidates (se_Offered s)) in \<not> ok \<or> se_Selected s \<noteq> h)"

definition Authenticate :: "session \<Rightarrow> session \<times> sess_error option" where
  "Authenticate s =
     (if se_State s \<noteq> SessNegotiated then (s, Some (sess_fail ''state'' ''Authenticate requires NEGOTIATED''))
      else if downgraded s
        then fail_session s ''downgrade'' ''selected version not highest candidate''
               (sess_fail ''downgrade'' ''selected version not highest candidate'')
      else
        let s = s\<lparr>se_AuthI2R := True, se_AuthR2I := True, se_PeerAuthenticated := True,
                  se_State := SessPeerAuthenticated\<rparr>;
            s = bind_field s ''peer_auth'' [1]
        in (freezeArchiveBase s, None))"

definition AuthorizeArchive :: "session \<Rightarrow> session \<times> sess_error option" where
  "AuthorizeArchive s =
     (if se_State s \<noteq> SessPeerAuthenticated \<or> \<not> se_PeerAuthenticated s
        then (s, Some (sess_fail ''state'' ''AuthorizeArchive requires PEER_AUTHENTICATED''))
      else
        let s = s\<lparr>se_ArchiveAuthorized := True, se_State := SessArchiveAuthorized\<rparr>
        in (bind_field s ''archive_auth'' [1], None))"

definition Activate :: "session \<Rightarrow> session \<times> sess_error option" where
  "Activate s =
     (if se_State s \<noteq> SessArchiveAuthorized
        then (s, Some (sess_fail ''state'' ''Activate requires ARCHIVE_AUTHORIZED''))
      else if \<not> se_PeerAuthenticated s \<or> \<not> se_ArchiveAuthorized s
        then fail_session s ''auth'' ''missing authentication or archive authorization''
               (sess_fail ''auth'' ''missing authentication or archive authorization'')
      else if downgraded s
        then fail_session s ''downgrade'' ''active session would be downgraded''
               (sess_fail ''downgrade'' ''active session would be downgraded'')
      else
        let s = s\<lparr>se_State := SessActive\<rparr>;
            s = bind_field s ''activate'' [se_Selected s];
            s = (if se_SelectedSuite s \<noteq> [] then bind_field s ''suite_active'' (bytes_of (se_SelectedSuite s)) else s)
        in (s, None))"

definition accept_limit :: "session \<Rightarrow> u64" where
  "accept_limit s = (if se_MaxAccept s = 0 then DefaultMaxAccept else se_MaxAccept s)"

definition AcceptNext :: "session \<Rightarrow> session \<times> sess_error option" where
  "AcceptNext s =
     (if se_State s \<noteq> SessActive then (s, Some (sess_fail ''state'' ''AcceptNext requires ACTIVE''))
      else
        let lim = accept_limit s in
        if se_ReceiveSequence s \<ge> lim
          then (s, Some (sess_fail ''limit'' (''receive sequence at MaxAccept='' @ itoa (unat lim))))
        else (s\<lparr>se_ReceiveSequence := se_ReceiveSequence s + 1, se_ProductMutation := True\<rparr>, None))"

definition RejectReplay :: "session \<Rightarrow> session \<times> sess_error option" where
  "RejectReplay s =
     (if se_State s \<noteq> SessActive then (s, Some (sess_fail ''state'' ''RejectReplay requires ACTIVE''))
      else
        (sess_emit (s\<lparr>se_ReplayAccepted := False, se_State := SessFailed\<rparr>)
           ''session.failed'' ''replay'' ''replay rejected'' SeverityCritical, None))"

definition CloseSession :: "session \<Rightarrow> session \<times> sess_error option" where
  "CloseSession s =
     (if se_State s \<noteq> SessActive then (s, Some (sess_fail ''state'' ''Close requires ACTIVE''))
      else
        (sess_emit (s\<lparr>se_State := SessClosed\<rparr>) ''session.closed'' ''close'' ''session closed'' SeverityInfo, None))"

definition Invariants :: "session \<Rightarrow> sess_error option" where
  "Invariants s =
     (if se_State s = SessActive \<and> (\<not> se_PeerAuthenticated s \<or> \<not> se_ArchiveAuthorized s)
        then Some (sess_fail ''inv'' ''ActiveIsAuthorized violated'')
      else if se_State s = SessActive \<and> downgraded s
        then Some (sess_fail ''inv'' ''ActiveIsNotDowngraded violated'')
      else if se_ReplayAccepted s then Some (sess_fail ''inv'' ''ReplayNeverAccepted violated'')
      else if se_ProductMutation s \<and> \<not> (se_PeerAuthenticated s \<and> se_ArchiveAuthorized s)
        then Some (sess_fail ''inv'' ''MutationIsAuthorized violated'')
      else if (se_State s = SessPeerAuthenticated \<or> se_PeerAuthenticated s) \<and> \<not> (se_AuthI2R s \<and> se_AuthR2I s)
        then Some (sess_fail ''inv'' ''PeerAuthIsMutual violated'')
      else None)"

subsection \<open>Proofs\<close>

text \<open>An error of the crypto package is passed on unchanged.\<close>

datatype proof_error = ProofSession sess_error | ProofCrypto crypto_error

definition lift_crypto :: "crypto_error + 'a \<Rightarrow> proof_error + 'a" where
  "lift_crypto r = (case r of Inl e \<Rightarrow> Inl (ProofCrypto e) | Inr x \<Rightarrow> Inr x)"

definition MakeAuthProof :: "session \<Rightarrow> bytes \<Rightarrow> bytes \<Rightarrow> string \<Rightarrow> proof_error + bytes" where
  "MakeAuthProof s authKey sessionID direction =
     (if se_State s \<noteq> SessNegotiated then Inl (ProofSession (sess_fail ''state'' ''MakeAuthProof requires NEGOTIATED''))
      else if \<not> se_AuthBaseSet s then Inl (ProofSession (sess_fail ''transcript'' ''auth base digest required''))
      else if downgraded s
        then Inl (ProofSession (sess_fail ''downgrade'' ''selected version not highest candidate''))
      else lift_crypto (PeerAuthProof authKey (se_AuthBaseDigest s) sessionID direction))"

definition AuthenticateProof :: "session \<Rightarrow> bytes \<Rightarrow> bytes \<Rightarrow> string \<Rightarrow> bytes \<Rightarrow> session \<times> sess_error option" where
  "AuthenticateProof s authKey sessionID direction proof =
     (if se_State s \<noteq> SessNegotiated then (s, Some (sess_fail ''state'' ''AuthenticateProof requires NEGOTIATED''))
      else if \<not> se_AuthBaseSet s then (s, Some (sess_fail ''transcript'' ''auth base digest required''))
      else if downgraded s
        then fail_session s ''downgrade'' ''selected version not highest candidate''
               (sess_fail ''downgrade'' ''selected version not highest candidate'')
      else if direction = ''i2r'' \<and> se_AuthI2R s
        then fail_session s ''auth'' ''duplicate i2r proof'' (sess_fail ''auth'' ''duplicate i2r proof'')
      else if direction = ''r2i'' \<and> se_AuthR2I s
        then fail_session s ''auth'' ''duplicate r2i proof'' (sess_fail ''auth'' ''duplicate r2i proof'')
      else if direction \<noteq> ''i2r'' \<and> direction \<noteq> ''r2i''
        then (s, Some (sess_fail ''direction'' ''direction must be i2r or r2i''))
      else
        case VerifyPeerAuthProof authKey (se_AuthBaseDigest s) sessionID direction proof of
          Some err \<Rightarrow> fail_session s ''auth'' ''peer auth proof mismatch'' (sess_fail ''auth'' (crypto_error_text err))
        | None \<Rightarrow>
            let tag = HMACSHA256 authKey (bytes_of ''proof-tag:'' @ proof);
                s = bind_field s ''peer_auth'' tag;
                s = bind_field s ''peer_auth_dir'' (bytes_of direction);
                s = (if direction = ''i2r'' then s\<lparr>se_AuthI2R := True\<rparr> else s\<lparr>se_AuthR2I := True\<rparr>) in
            if se_AuthI2R s \<and> se_AuthR2I s
              then (freezeArchiveBase (s\<lparr>se_PeerAuthenticated := True, se_State := SessPeerAuthenticated\<rparr>), None)
            else (s, None))"

definition MakeArchiveProof :: "session \<Rightarrow> bytes \<Rightarrow> bytes \<Rightarrow> proof_error + bytes" where
  "MakeArchiveProof s authKey sessionID =
     (if se_State s \<noteq> SessPeerAuthenticated \<or> \<not> se_PeerAuthenticated s
        then Inl (ProofSession (sess_fail ''state'' ''MakeArchiveProof requires PEER_AUTHENTICATED''))
      else if \<not> se_ArchiveBaseSet s then Inl (ProofSession (sess_fail ''transcript'' ''archive base digest required''))
      else lift_crypto (ArchiveAuthProof authKey (se_ArchiveBaseDigest s) sessionID))"

definition AuthorizeArchiveProof :: "session \<Rightarrow> bytes \<Rightarrow> bytes \<Rightarrow> bytes \<Rightarrow> session \<times> sess_error option" where
  "AuthorizeArchiveProof s authKey sessionID proof =
     (if se_State s \<noteq> SessPeerAuthenticated \<or> \<not> se_PeerAuthenticated s
        then (s, Some (sess_fail ''state'' ''AuthorizeArchiveProof requires PEER_AUTHENTICATED''))
      else if \<not> se_ArchiveBaseSet s then (s, Some (sess_fail ''transcript'' ''archive base digest required''))
      else
        case VerifyArchiveAuthProof authKey (se_ArchiveBaseDigest s) sessionID proof of
          Some err \<Rightarrow> fail_session s ''archive'' ''archive auth proof mismatch'' (sess_fail ''archive'' (crypto_error_text err))
        | None \<Rightarrow>
            let tag = HMACSHA256 authKey (bytes_of ''archive-tag:'' @ proof);
                s = bind_field s ''archive_auth'' tag
            in (s\<lparr>se_ArchiveAuthorized := True, se_State := SessArchiveAuthorized\<rparr>, None))"

subsection \<open>Progress of a session\<close>

text \<open>The states in the order a session passes through them; CLOSED and FAILED are final.\<close>

fun sess_rank :: "sess_state \<Rightarrow> nat" where
  "sess_rank SessNew = 0"
| "sess_rank SessNegotiated = 1"
| "sess_rank SessPeerAuthenticated = 2"
| "sess_rank SessArchiveAuthorized = 3"
| "sess_rank SessActive = 4"
| "sess_rank SessClosed = 5"
| "sess_rank SessFailed = 6"

lemma sess_rank_inject: "sess_rank a = sess_rank b \<longleftrightarrow> a = b"
  by (cases a; cases b) simp_all

instantiation sess_state :: linorder
begin

definition less_eq_sess_state :: "sess_state \<Rightarrow> sess_state \<Rightarrow> bool" where
  "less_eq_sess_state a b \<longleftrightarrow> sess_rank a \<le> sess_rank b"

definition less_sess_state :: "sess_state \<Rightarrow> sess_state \<Rightarrow> bool" where
  "less_sess_state a b \<longleftrightarrow> sess_rank a < sess_rank b"

instance
  by standard (auto simp: less_eq_sess_state_def less_sess_state_def sess_rank_inject)

end

lemma bind_field_fields [simp]:
  "se_State (bind_field s l d) = se_State s" "se_Offered (bind_field s l d) = se_Offered s"
  "se_Selected (bind_field s l d) = se_Selected s" "se_OfferedSuites (bind_field s l d) = se_OfferedSuites s"
  "se_SelectedSuite (bind_field s l d) = se_SelectedSuite s" "se_RequireSuite (bind_field s l d) = se_RequireSuite s"
  "se_PeerAuthenticated (bind_field s l d) = se_PeerAuthenticated s" "se_AuthI2R (bind_field s l d) = se_AuthI2R s"
  "se_AuthR2I (bind_field s l d) = se_AuthR2I s" "se_ArchiveAuthorized (bind_field s l d) = se_ArchiveAuthorized s"
  "se_ReceiveSequence (bind_field s l d) = se_ReceiveSequence s" "se_MaxAccept (bind_field s l d) = se_MaxAccept s"
  "se_ReplayAccepted (bind_field s l d) = se_ReplayAccepted s" "se_ProductMutation (bind_field s l d) = se_ProductMutation s"
  by (simp_all add: bind_field_def split: option.split sum.split)

lemma bindVersions_bind [simp]: "bindVersions s l vs = bind_field s l vs"
  by (simp add: bindVersions_def)

lemma sess_emit_fields [simp]:
  "se_State (sess_emit s i c m v) = se_State s" "se_Offered (sess_emit s i c m v) = se_Offered s"
  "se_Selected (sess_emit s i c m v) = se_Selected s"
  "se_PeerAuthenticated (sess_emit s i c m v) = se_PeerAuthenticated s" "se_AuthI2R (sess_emit s i c m v) = se_AuthI2R s"
  "se_AuthR2I (sess_emit s i c m v) = se_AuthR2I s" "se_ArchiveAuthorized (sess_emit s i c m v) = se_ArchiveAuthorized s"
  "se_ReceiveSequence (sess_emit s i c m v) = se_ReceiveSequence s" "se_MaxAccept (sess_emit s i c m v) = se_MaxAccept s"
  "se_ReplayAccepted (sess_emit s i c m v) = se_ReplayAccepted s" "se_ProductMutation (sess_emit s i c m v) = se_ProductMutation s"
  by (simp_all add: sess_emit_def split: option.split)

lemma freezeAuthBase_fields [simp]:
  "se_State (freezeAuthBase s) = se_State s" "se_Offered (freezeAuthBase s) = se_Offered s"
  "se_Selected (freezeAuthBase s) = se_Selected s"
  "se_PeerAuthenticated (freezeAuthBase s) = se_PeerAuthenticated s" "se_AuthI2R (freezeAuthBase s) = se_AuthI2R s"
  "se_AuthR2I (freezeAuthBase s) = se_AuthR2I s" "se_ArchiveAuthorized (freezeAuthBase s) = se_ArchiveAuthorized s"
  "se_ReceiveSequence (freezeAuthBase s) = se_ReceiveSequence s" "se_MaxAccept (freezeAuthBase s) = se_MaxAccept s"
  "se_ReplayAccepted (freezeAuthBase s) = se_ReplayAccepted s" "se_ProductMutation (freezeAuthBase s) = se_ProductMutation s"
  by (simp_all add: freezeAuthBase_def split: option.split)

lemma freezeArchiveBase_fields [simp]:
  "se_State (freezeArchiveBase s) = se_State s" "se_Offered (freezeArchiveBase s) = se_Offered s"
  "se_Selected (freezeArchiveBase s) = se_Selected s"
  "se_PeerAuthenticated (freezeArchiveBase s) = se_PeerAuthenticated s" "se_AuthI2R (freezeArchiveBase s) = se_AuthI2R s"
  "se_AuthR2I (freezeArchiveBase s) = se_AuthR2I s" "se_ArchiveAuthorized (freezeArchiveBase s) = se_ArchiveAuthorized s"
  "se_ReceiveSequence (freezeArchiveBase s) = se_ReceiveSequence s" "se_MaxAccept (freezeArchiveBase s) = se_MaxAccept s"
  "se_ReplayAccepted (freezeArchiveBase s) = se_ReplayAccepted s" "se_ProductMutation (freezeArchiveBase s) = se_ProductMutation s"
  by (simp_all add: freezeArchiveBase_def split: option.split)

subsection \<open>Everything that can happen to a session\<close>

text \<open>
  The methods with arbitrary arguments and outcomes, and the two assignments the protocol
  driver makes to the fields of a session: the peer's offer while the session is new, and
  FAILED on a failure frame.
\<close>

inductive sess_step :: "session \<Rightarrow> session \<Rightarrow> bool" where
  st_Negotiate: "Negotiate s = (t, e) \<Longrightarrow> sess_step s t"
| st_ConfirmAccept: "ConfirmAccept s v suite = (t, e) \<Longrightarrow> sess_step s t"
| st_Authenticate: "Authenticate s = (t, e) \<Longrightarrow> sess_step s t"
| st_AuthenticateProof: "AuthenticateProof s k i d p = (t, e) \<Longrightarrow> sess_step s t"
| st_AuthorizeArchive: "AuthorizeArchive s = (t, e) \<Longrightarrow> sess_step s t"
| st_AuthorizeArchiveProof: "AuthorizeArchiveProof s k i p = (t, e) \<Longrightarrow> sess_step s t"
| st_Activate: "Activate s = (t, e) \<Longrightarrow> sess_step s t"
| st_AcceptNext: "AcceptNext s = (t, e) \<Longrightarrow> sess_step s t"
| st_RejectReplay: "RejectReplay s = (t, e) \<Longrightarrow> sess_step s t"
| st_Close: "CloseSession s = (t, e) \<Longrightarrow> sess_step s t"
| st_Offer: "se_State s = SessNew \<Longrightarrow> sess_step s (s\<lparr>se_Offered := vs, se_OfferedSuites := ss\<rparr>)"
| st_Failure: "sess_step s (s\<lparr>se_State := SessFailed\<rparr>)"

definition sess_init :: "session \<Rightarrow> bool" where
  "sess_init s \<longleftrightarrow> (\<exists>offered suites req lim evs tr.
     s = (NewSession offered)\<lparr>se_OfferedSuites := suites, se_RequireSuite := req, se_MaxAccept := lim,
           se_Events := evs, se_Transcript := tr\<rparr>)"

subsection \<open>The abstract session model\<close>

record sess_vars =
  sv_state :: sess_state
  sv_offered :: "nat set"
  sv_selected :: nat
  sv_peerAuthenticated :: bool
  sv_archiveAuthorized :: bool
  sv_receiveSequence :: nat
  sv_replayAccepted :: bool
  sv_productMutation :: bool
  sv_authI2R :: bool
  sv_authR2I :: bool

definition sv_Candidates :: "sess_vars \<Rightarrow> nat set" where
  "sv_Candidates v = sv_offered v \<inter> {2, 3}"

definition sv_Init :: "sess_vars \<Rightarrow> bool" where
  "sv_Init v \<longleftrightarrow> sv_state v = SessNew \<and> sv_offered v \<subseteq> {1..3} \<and> sv_selected v = 0 \<and> \<not> sv_peerAuthenticated v \<and>
     \<not> sv_archiveAuthorized v \<and> sv_receiveSequence v = 0 \<and> \<not> sv_replayAccepted v \<and> \<not> sv_productMutation v \<and>
     \<not> sv_authI2R v \<and> \<not> sv_authR2I v"

text \<open>The bound on messages is a parameter here; the module fixes it at \<open>MaxMessages\<close> for model checking.\<close>

inductive sv_Next :: "nat \<Rightarrow> sess_vars \<Rightarrow> sess_vars \<Rightarrow> bool" for m :: nat where
  sv_Negotiate: "sv_state v = SessNew \<Longrightarrow> sv_Candidates v \<noteq> {} \<Longrightarrow>
     sv_Next m v (v\<lparr>sv_state := SessNegotiated, sv_selected := Max (sv_Candidates v)\<rparr>)"
| sv_NoCommonVersion: "sv_state v = SessNew \<Longrightarrow> sv_Candidates v = {} \<Longrightarrow> sv_Next m v (v\<lparr>sv_state := SessFailed\<rparr>)"
| sv_AuthenticateI2R: "sv_state v = SessNegotiated \<Longrightarrow> \<not> sv_authI2R v \<Longrightarrow> sv_selected v = Max (sv_Candidates v) \<Longrightarrow>
     sv_Next m v (if sv_authR2I v then v\<lparr>sv_authI2R := True, sv_state := SessPeerAuthenticated, sv_peerAuthenticated := True\<rparr>
                  else v\<lparr>sv_authI2R := True\<rparr>)"
| sv_AuthenticateR2I: "sv_state v = SessNegotiated \<Longrightarrow> \<not> sv_authR2I v \<Longrightarrow> sv_selected v = Max (sv_Candidates v) \<Longrightarrow>
     sv_Next m v (if sv_authI2R v then v\<lparr>sv_authR2I := True, sv_state := SessPeerAuthenticated, sv_peerAuthenticated := True\<rparr>
                  else v\<lparr>sv_authR2I := True\<rparr>)"
| sv_AuthorizeArchive: "sv_state v = SessPeerAuthenticated \<Longrightarrow> sv_peerAuthenticated v \<Longrightarrow>
     sv_Next m v (v\<lparr>sv_state := SessArchiveAuthorized, sv_archiveAuthorized := True\<rparr>)"
| sv_Activate: "sv_state v = SessArchiveAuthorized \<Longrightarrow> sv_peerAuthenticated v \<Longrightarrow> sv_archiveAuthorized v \<Longrightarrow>
     sv_selected v = Max (sv_Candidates v) \<Longrightarrow> sv_Next m v (v\<lparr>sv_state := SessActive\<rparr>)"
| sv_AcceptNext: "sv_state v = SessActive \<Longrightarrow> sv_receiveSequence v < m \<Longrightarrow>
     sv_Next m v (v\<lparr>sv_receiveSequence := sv_receiveSequence v + 1, sv_productMutation := True\<rparr>)"
| sv_RejectReplay: "sv_state v = SessActive \<Longrightarrow> sv_Next m v (v\<lparr>sv_state := SessFailed, sv_replayAccepted := False\<rparr>)"
| sv_Close: "sv_state v = SessActive \<Longrightarrow> sv_Next m v (v\<lparr>sv_state := SessClosed\<rparr>)"

definition ActiveIsAuthorized :: "sess_vars \<Rightarrow> bool" where
  "ActiveIsAuthorized v \<longleftrightarrow> (sv_state v = SessActive \<longrightarrow> sv_peerAuthenticated v \<and> sv_archiveAuthorized v)"

definition ActiveIsNotDowngraded :: "sess_vars \<Rightarrow> bool" where
  "ActiveIsNotDowngraded v \<longleftrightarrow> (sv_state v = SessActive \<longrightarrow> sv_selected v = Max (sv_Candidates v))"

definition ReplayNeverAccepted :: "sess_vars \<Rightarrow> bool" where
  "ReplayNeverAccepted v \<longleftrightarrow> \<not> sv_replayAccepted v"

definition MutationIsAuthorized :: "sess_vars \<Rightarrow> bool" where
  "MutationIsAuthorized v \<longleftrightarrow> (sv_productMutation v \<longrightarrow> sv_peerAuthenticated v \<and> sv_archiveAuthorized v)"

definition PeerAuthIsMutual :: "sess_vars \<Rightarrow> bool" where
  "PeerAuthIsMutual v \<longleftrightarrow> (sv_state v = SessPeerAuthenticated \<longrightarrow> sv_authI2R v \<and> sv_authR2I v)"

text \<open>The implementation may also fail closed at any point: the state becomes FAILED and nothing else changes.\<close>

definition sv_Step :: "nat \<Rightarrow> sess_vars \<Rightarrow> sess_vars \<Rightarrow> bool" where
  "sv_Step m v w \<longleftrightarrow> sv_Next m v w \<or> w = v\<lparr>sv_state := SessFailed\<rparr>"

definition abs_session :: "session \<Rightarrow> sess_vars" where
  "abs_session s = \<lparr>sv_state = se_State s, sv_offered = unat ` set (se_Offered s) \<inter> {1..3},
     sv_selected = unat (se_Selected s), sv_peerAuthenticated = se_PeerAuthenticated s,
     sv_archiveAuthorized = se_ArchiveAuthorized s, sv_receiveSequence = unat (se_ReceiveSequence s),
     sv_replayAccepted = se_ReplayAccepted s, sv_productMutation = se_ProductMutation s,
     sv_authI2R = se_AuthI2R s, sv_authR2I = se_AuthR2I s\<rparr>"

subsection \<open>Version selection\<close>

lemma highestLoop_Max: "highestLoop h vs = Max (insert h (set vs))"
proof (induction vs arbitrary: h)
  case (Cons v vs)
  have "Max (insert (if v > h then v else h) (set vs)) = Max (insert h (insert v (set vs)))"
    by (cases "vs = []") (auto simp: max_def)
  then show ?case
    using Cons.IH by simp
qed simp

lemma highest_Max: "cs \<noteq> [] \<Longrightarrow> highest cs = (Max (set cs), True)"
  by (cases cs) (simp_all add: highestLoop_Max)

lemma candidates_set: "set (candidates vs) = set vs \<inter> {2, 3}"
  by (auto simp: candidates_def LocalAllowed_def)

lemma abs_candidates: "sv_Candidates (abs_session s) = unat ` set (candidates (se_Offered s))"
proof -
  have 23: "unat v \<in> {2, 3} \<longleftrightarrow> v \<in> {2, 3}" for v :: version
  proof -
    have "unat v = 2 \<longleftrightarrow> v = 2" "unat v = 3 \<longleftrightarrow> v = 3"
      by (auto simp: word_unat_eq_iff)
    then show ?thesis by simp
  qed
  have "unat ` set (se_Offered s) \<inter> {1..3} \<inter> {2, 3} = unat ` (set (se_Offered s) \<inter> {2, 3})"
  proof (intro set_eqI iffI)
    fix n
    assume "n \<in> unat ` set (se_Offered s) \<inter> {1..3} \<inter> {2, 3}"
    then obtain v where "v \<in> set (se_Offered s)" "n = unat v" "unat v \<in> {2, 3}"
      by blast
    then show "n \<in> unat ` (set (se_Offered s) \<inter> {2, 3})"
      using 23 by blast
  next
    fix n
    assume "n \<in> unat ` (set (se_Offered s) \<inter> {2, 3})"
    then obtain v where "v \<in> set (se_Offered s)" "n = unat v" "v \<in> {2, 3}"
      by blast
    then show "n \<in> unat ` set (se_Offered s) \<inter> {1..3} \<inter> {2, 3}"
      by auto
  qed
  then show ?thesis
    by (simp add: sv_Candidates_def abs_session_def candidates_set)
qed

lemma unat_Max: "finite A \<Longrightarrow> A \<noteq> {} \<Longrightarrow> unat (Max A) = Max (unat ` A)" for A :: "version set"
  by (rule mono_Max_commute) (auto simp: mono_def word_le_nat_alt)

lemma downgraded_iff:
  "downgraded s \<longleftrightarrow> candidates (se_Offered s) = [] \<or> se_Selected s \<noteq> Max (set (candidates (se_Offered s)))"
  by (cases "candidates (se_Offered s) = []") (auto simp: downgraded_def highest_Max)

lemma not_downgraded_abs:
  "\<not> downgraded s \<Longrightarrow> sv_selected (abs_session s) = Max (sv_Candidates (abs_session s))"
  unfolding abs_candidates by (simp add: downgraded_iff unat_Max [symmetric]) (simp add: abs_session_def)

subsection \<open>Invariant and simulation\<close>

definition past_negotiation :: "sess_state \<Rightarrow> bool" where
  "past_negotiation st \<longleftrightarrow> st \<in> {SessNegotiated, SessPeerAuthenticated, SessArchiveAuthorized, SessActive, SessClosed}"

definition sess_inv :: "session \<Rightarrow> bool" where
  "sess_inv s \<longleftrightarrow>
     (se_State s = SessNew \<longrightarrow> se_Selected s = 0 \<and> \<not> se_AuthI2R s \<and> \<not> se_AuthR2I s \<and> \<not> se_PeerAuthenticated s \<and>
        \<not> se_ArchiveAuthorized s \<and> se_ReceiveSequence s = 0 \<and> \<not> se_ProductMutation s) \<and>
     (past_negotiation (se_State s) \<longrightarrow> \<not> downgraded s) \<and>
     (se_State s = SessNegotiated \<longrightarrow> \<not> (se_AuthI2R s \<and> se_AuthR2I s) \<and> \<not> se_ArchiveAuthorized s) \<and>
     (se_PeerAuthenticated s \<longrightarrow> se_AuthI2R s \<and> se_AuthR2I s) \<and>
     (se_State s \<in> {SessPeerAuthenticated, SessArchiveAuthorized, SessActive, SessClosed} \<longrightarrow> se_PeerAuthenticated s) \<and>
     (se_State s \<in> {SessArchiveAuthorized, SessActive, SessClosed} \<longrightarrow> se_ArchiveAuthorized s) \<and>
     (se_ArchiveAuthorized s \<longrightarrow> se_PeerAuthenticated s) \<and>
     (se_ProductMutation s \<longrightarrow> se_ArchiveAuthorized s) \<and>
     \<not> se_ReplayAccepted s"

text \<open>A session reduced to what the invariant and the model look at.\<close>

definition same_core :: "session \<Rightarrow> session \<Rightarrow> bool" where
  "same_core s t \<longleftrightarrow> se_State s = se_State t \<and> se_Offered s = se_Offered t \<and> se_Selected s = se_Selected t \<and>
     se_PeerAuthenticated s = se_PeerAuthenticated t \<and> se_AuthI2R s = se_AuthI2R t \<and> se_AuthR2I s = se_AuthR2I t \<and>
     se_ArchiveAuthorized s = se_ArchiveAuthorized t \<and> se_ReceiveSequence s = se_ReceiveSequence t \<and>
     se_MaxAccept s = se_MaxAccept t \<and> se_ReplayAccepted s = se_ReplayAccepted t \<and> se_ProductMutation s = se_ProductMutation t"

lemma same_core_downgraded: "same_core s t \<Longrightarrow> downgraded s = downgraded t"
  by (simp add: same_core_def downgraded_def)

lemma same_core_inv: "same_core s t \<Longrightarrow> sess_inv s = sess_inv t"
  using same_core_downgraded [of s t] by (simp add: same_core_def sess_inv_def)

lemma same_core_abs: "same_core s t \<Longrightarrow> abs_session s = abs_session t \<and> accept_limit s = accept_limit t"
  by (simp add: same_core_def abs_session_def accept_limit_def)

text \<open>Every step, up to transcript, events and suites, is one of these changes.\<close>

datatype sess_change =
  Chg_None | Chg_Fail | Chg_Offer "version list" | Chg_Negotiate | Chg_NoSuite | Chg_I2R | Chg_R2I | Chg_Both | Chg_Archive
| Chg_Activate | Chg_Accept | Chg_Close

fun enabled :: "session \<Rightarrow> sess_change \<Rightarrow> bool" where
  "enabled s Chg_None = True"
| "enabled s Chg_Fail = True"
| "enabled s (Chg_Offer vs) = (se_State s = SessNew)"
| "enabled s Chg_Negotiate = (se_State s = SessNew \<and> candidates (se_Offered s) \<noteq> [])"
| "enabled s Chg_NoSuite = (se_State s = SessNew \<and> candidates (se_Offered s) \<noteq> [])"
| "enabled s Chg_I2R = (se_State s = SessNegotiated \<and> \<not> downgraded s \<and> \<not> se_AuthI2R s)"
| "enabled s Chg_R2I = (se_State s = SessNegotiated \<and> \<not> downgraded s \<and> \<not> se_AuthR2I s)"
| "enabled s Chg_Both = (se_State s = SessNegotiated \<and> \<not> downgraded s)"
| "enabled s Chg_Archive = (se_State s = SessPeerAuthenticated \<and> se_PeerAuthenticated s)"
| "enabled s Chg_Activate = (se_State s = SessArchiveAuthorized \<and> se_PeerAuthenticated s \<and> se_ArchiveAuthorized s \<and> \<not> downgraded s)"
| "enabled s Chg_Accept = (se_State s = SessActive \<and> se_ReceiveSequence s < accept_limit s)"
| "enabled s Chg_Close = (se_State s = SessActive)"

definition mutual :: "session \<Rightarrow> session" where
  "mutual s = (if se_AuthI2R s \<and> se_AuthR2I s then s\<lparr>se_PeerAuthenticated := True, se_State := SessPeerAuthenticated\<rparr> else s)"

fun change :: "session \<Rightarrow> sess_change \<Rightarrow> session" where
  "change s Chg_None = s"
| "change s Chg_Fail = s\<lparr>se_State := SessFailed\<rparr>"
| "change s (Chg_Offer vs) = s\<lparr>se_Offered := vs\<rparr>"
| "change s Chg_Negotiate = s\<lparr>se_Selected := Max (set (candidates (se_Offered s))), se_State := SessNegotiated\<rparr>"
| "change s Chg_NoSuite = s\<lparr>se_Selected := Max (set (candidates (se_Offered s))), se_State := SessFailed\<rparr>"
| "change s Chg_I2R = mutual (s\<lparr>se_AuthI2R := True\<rparr>)"
| "change s Chg_R2I = mutual (s\<lparr>se_AuthR2I := True\<rparr>)"
| "change s Chg_Both = s\<lparr>se_AuthI2R := True, se_AuthR2I := True, se_PeerAuthenticated := True, se_State := SessPeerAuthenticated\<rparr>"
| "change s Chg_Archive = s\<lparr>se_ArchiveAuthorized := True, se_State := SessArchiveAuthorized\<rparr>"
| "change s Chg_Activate = s\<lparr>se_State := SessActive\<rparr>"
| "change s Chg_Accept = s\<lparr>se_ReceiveSequence := se_ReceiveSequence s + 1, se_ProductMutation := True\<rparr>"
| "change s Chg_Close = s\<lparr>se_State := SessClosed\<rparr>"

lemma changeI: "enabled s c \<Longrightarrow> same_core t (change s c) \<Longrightarrow> \<exists>c. enabled s c \<and> same_core t (change s c)"
  by blast

lemma change_failI: "fail_session s c m e = (t, e') \<Longrightarrow> \<exists>c. enabled s c \<and> same_core t (change s c)"
  by (rule changeI [of _ Chg_Fail]) (auto simp: fail_session_def same_core_def)

lemma change_noneI: "\<exists>c. enabled s c \<and> same_core s (change s c)"
  by (rule changeI [of _ Chg_None]) (simp_all add: same_core_def)

lemma same_core_decor [simp]:
  "same_core (bind_field s l d) t = same_core s t" "same_core (freezeAuthBase s) t = same_core s t"
  "same_core (freezeArchiveBase s) t = same_core s t" "same_core (s\<lparr>se_SelectedSuite := x\<rparr>) t = same_core s t"
  "same_core (sess_emit s i c m v) t = same_core s t"
  by (simp_all add: same_core_def)

lemma same_core_refl [simp]: "same_core s s"
  by (simp add: same_core_def)

lemma same_core_failed:
  "same_core s t \<Longrightarrow> same_core (s\<lparr>se_State := SessFailed\<rparr>) (t\<lparr>se_State := SessFailed\<rparr>)"
  by (simp add: same_core_def)

lemma Negotiate_tail:
  assumes "se_State s = SessNew" "candidates (se_Offered s) \<noteq> []"
  obtains n where "same_core n (change s Chg_Negotiate)"
    "Negotiate s =
       (if se_RequireSuite n \<or> length (se_OfferedSuites n) > 0 then
          let (suite, ok) = SelectSuite LocalSuites (se_OfferedSuites n) in
          if \<not> ok then fail_session n ''suite'' ''no common crypto suite'' (sess_fail ''suite'' ''no common crypto suite'')
          else (freezeAuthBase (bind_field (n\<lparr>se_SelectedSuite := suite\<rparr>) ''suite'' (bytes_of suite)), None)
        else (freezeAuthBase n, None))"
proof -
  define h where "h = Max (set (candidates (se_Offered s)))"
  define s1 where "s1 = s\<lparr>se_Selected := h, se_State := SessNegotiated\<rparr>"
  define n where "n = bindVersions (bindVersions (bind_field s1 ''negotiate'' [h]) ''offered'' (se_Offered (bind_field s1 ''negotiate'' [h])))
    ''local_allowed'' LocalAllowed"
  have hi: "highest (candidates (se_Offered s)) = (h, True)"
    using assms by (simp add: highest_Max h_def)
  have core: "same_core n (change s Chg_Negotiate)"
    by (simp add: n_def s1_def h_def)
  show thesis
    by (rule that [OF core])
      (simp only: Negotiate_def Let_def assms hi prod.case s1_def [symmetric] n_def [symmetric] if_False not_True_eq_False simp_thms)
qed

lemma Negotiate_change:
  assumes eq: "Negotiate s = (t, e)"
  shows "\<exists>c. enabled s c \<and> same_core t (change s c)"
proof -
  consider "se_State s \<noteq> SessNew" | "se_State s = SessNew" "candidates (se_Offered s) = []"
    | "se_State s = SessNew" "candidates (se_Offered s) \<noteq> []"
    by blast
  then show ?thesis
  proof cases
    case 1
    then have "t = s"
      using eq by (simp add: Negotiate_def)
    then show ?thesis
      using change_noneI by blast
  next
    case 2
    then have "fail_session s ''version'' ''no common version'' (sess_fail ''version'' ''no common version'') = (t, e)"
      using eq by (simp add: Negotiate_def)
    then show ?thesis
      by (rule change_failI)
  next
    case 3
    then obtain n where n: "same_core n (change s Chg_Negotiate)" and tail: "Negotiate s =
       (if se_RequireSuite n \<or> length (se_OfferedSuites n) > 0 then
          let (suite, ok) = SelectSuite LocalSuites (se_OfferedSuites n) in
          if \<not> ok then fail_session n ''suite'' ''no common crypto suite'' (sess_fail ''suite'' ''no common crypto suite'')
          else (freezeAuthBase (bind_field (n\<lparr>se_SelectedSuite := suite\<rparr>) ''suite'' (bytes_of suite)), None)
        else (freezeAuthBase n, None))"
      by (rule Negotiate_tail)
    obtain suite ok where sel: "SelectSuite LocalSuites (se_OfferedSuites n) = (suite, ok)"
      by fastforce
    have "same_core t (change s Chg_Negotiate) \<or> same_core t (change s Chg_NoSuite)"
      using eq n same_core_failed [OF n] unfolding tail sel Let_def prod.case
      by (auto simp: fail_session_def split: if_splits)
    then show ?thesis
      using 3 changeI [of s Chg_Negotiate t] changeI [of s Chg_NoSuite t] by auto
  qed
qed

lemma AuthenticateProof_accepted:
  assumes "se_State s = SessNegotiated" "\<not> downgraded s" "se_AuthBaseSet s"
    "d = ''i2r'' \<and> \<not> se_AuthI2R s \<or> d = ''r2i'' \<and> \<not> se_AuthR2I s"
    "VerifyPeerAuthProof k (se_AuthBaseDigest s) i d p = None"
  obtains n where "same_core n s"
    "AuthenticateProof s k i d p =
       (let s = (if d = ''i2r'' then n\<lparr>se_AuthI2R := True\<rparr> else n\<lparr>se_AuthR2I := True\<rparr>) in
        if se_AuthI2R s \<and> se_AuthR2I s
          then (freezeArchiveBase (s\<lparr>se_PeerAuthenticated := True, se_State := SessPeerAuthenticated\<rparr>), None)
        else (s, None))"
proof -
  have d: "\<not> (d = ''i2r'' \<and> se_AuthI2R s)" "\<not> (d = ''r2i'' \<and> se_AuthR2I s)" "\<not> (d \<noteq> ''i2r'' \<and> d \<noteq> ''r2i'')"
    using assms(4) by auto
  define n where "n = bind_field (bind_field s ''peer_auth'' (HMACSHA256 k (bytes_of ''proof-tag:'' @ p))) ''peer_auth_dir'' (bytes_of d)"
  have core: "same_core n s"
    by (simp add: n_def)
  show thesis
    by (rule that [OF core])
      (simp only: AuthenticateProof_def assms(1-3,5) d Let_def n_def [symmetric] option.case if_False not_True_eq_False simp_thms)
qed

lemma AuthenticateProof_change:
  assumes eq: "AuthenticateProof s k i d p = (t, e)"
  shows "\<exists>c. enabled s c \<and> same_core t (change s c)"
proof (cases "se_State s = SessNegotiated \<and> \<not> downgraded s \<and> se_AuthBaseSet s \<and>
    (d = ''i2r'' \<and> \<not> se_AuthI2R s \<or> d = ''r2i'' \<and> \<not> se_AuthR2I s) \<and>
    VerifyPeerAuthProof k (se_AuthBaseDigest s) i d p = None")
  case True
  then obtain n where n: "same_core n s" "AuthenticateProof s k i d p =
       (let s = (if d = ''i2r'' then n\<lparr>se_AuthI2R := True\<rparr> else n\<lparr>se_AuthR2I := True\<rparr>) in
        if se_AuthI2R s \<and> se_AuthR2I s
          then (freezeArchiveBase (s\<lparr>se_PeerAuthenticated := True, se_State := SessPeerAuthenticated\<rparr>), None)
        else (s, None))"
    by (elim conjE AuthenticateProof_accepted)
  consider (i2r) "d = ''i2r''" "\<not> se_AuthI2R s" | (r2i) "d = ''r2i''" "\<not> se_AuthR2I s"
    using True by blast
  then show ?thesis
  proof cases
    case i2r
    with eq n have "same_core t (change s Chg_I2R)"
      by (auto simp: same_core_def mutual_def Let_def split: if_splits)
    then show ?thesis
      using True i2r changeI [of s Chg_I2R t] by simp
  next
    case r2i
    with eq n have "same_core t (change s Chg_R2I)"
      by (auto simp: same_core_def mutual_def Let_def split: if_splits)
    then show ?thesis
      using True r2i changeI [of s Chg_R2I t] by simp
  qed
next
  case False
  have "t = s \<or> (\<exists>c m e'. fail_session s c m e' = (t, e))"
  proof (cases "VerifyPeerAuthProof k (se_AuthBaseDigest s) i d p")
    case None
    with False eq show ?thesis
      unfolding AuthenticateProof_def
      by (cases "se_State s = SessNegotiated"; cases "se_AuthBaseSet s"; cases "downgraded s") (auto split: if_split_asm)
  next
    case (Some err)
    with eq show ?thesis
      unfolding AuthenticateProof_def by (auto split: if_split_asm)
  qed
  then show ?thesis
    using change_noneI change_failI by blast
qed

lemma ConfirmAccept_change: "ConfirmAccept s v suite = (t, e) \<Longrightarrow> \<exists>c. enabled s c \<and> same_core t (change s c)"
  by (auto simp: ConfirmAccept_def intro: change_noneI split: if_splits dest: change_failI)

lemma Authenticate_change: "Authenticate s = (t, e) \<Longrightarrow> \<exists>c. enabled s c \<and> same_core t (change s c)"
proof (cases "enabled s Chg_Both")
  case True
  assume "Authenticate s = (t, e)"
  with True have "same_core t (change s Chg_Both)"
    by (auto simp: Authenticate_def same_core_def Let_def)
  with True show ?thesis
    by (rule changeI)
qed (auto simp: Authenticate_def intro: change_noneI split: if_splits dest: change_failI)

lemma AuthorizeArchive_change: "AuthorizeArchive s = (t, e) \<Longrightarrow> \<exists>c. enabled s c \<and> same_core t (change s c)"
proof (cases "enabled s Chg_Archive")
  case True
  assume "AuthorizeArchive s = (t, e)"
  with True have "same_core t (change s Chg_Archive)"
    by (auto simp: AuthorizeArchive_def same_core_def Let_def)
  with True show ?thesis
    by (rule changeI)
qed (auto simp: AuthorizeArchive_def intro: change_noneI split: if_splits)

lemma Activate_change: "Activate s = (t, e) \<Longrightarrow> \<exists>c. enabled s c \<and> same_core t (change s c)"
proof (cases "enabled s Chg_Activate")
  case True
  assume "Activate s = (t, e)"
  with True have "same_core t (change s Chg_Activate)"
    by (cases "se_SelectedSuite s = []") (auto simp: Activate_def same_core_def Let_def)
  with True show ?thesis
    by (rule changeI)
qed (auto simp: Activate_def intro: change_noneI split: if_splits dest: change_failI)

lemma AcceptNext_change: "AcceptNext s = (t, e) \<Longrightarrow> \<exists>c. enabled s c \<and> same_core t (change s c)"
proof (cases "enabled s Chg_Accept")
  case True
  assume "AcceptNext s = (t, e)"
  with True have "same_core t (change s Chg_Accept)"
    by (auto simp: AcceptNext_def same_core_def Let_def not_le [symmetric])
  with True show ?thesis
    by (rule changeI)
qed (auto simp: AcceptNext_def Let_def intro: change_noneI split: if_splits)

lemma RejectReplay_change:
  assumes "RejectReplay s = (t, e)" and "\<not> se_ReplayAccepted s"
  shows "\<exists>c. enabled s c \<and> same_core t (change s c)"
proof (cases "se_State s = SessActive")
  case True
  then have "same_core t (change s Chg_Fail)"
    using assms by (auto simp: RejectReplay_def same_core_def)
  then show ?thesis
    by (rule changeI [rotated]) simp
qed (use assms in \<open>auto simp: RejectReplay_def intro: change_noneI\<close>)

lemma Close_change: "CloseSession s = (t, e) \<Longrightarrow> \<exists>c. enabled s c \<and> same_core t (change s c)"
proof (cases "enabled s Chg_Close")
  case True
  assume "CloseSession s = (t, e)"
  with True have "same_core t (change s Chg_Close)"
    by (auto simp: CloseSession_def same_core_def)
  with True show ?thesis
    by (rule changeI)
qed (auto simp: CloseSession_def intro: change_noneI)

lemma AuthorizeArchiveProof_change:
  assumes eq: "AuthorizeArchiveProof s k i p = (t, e)"
  shows "\<exists>c. enabled s c \<and> same_core t (change s c)"
proof (cases "enabled s Chg_Archive \<and> se_ArchiveBaseSet s \<and> VerifyArchiveAuthProof k (se_ArchiveBaseDigest s) i p = None")
  case True
  with eq have "same_core t (change s Chg_Archive)"
    by (auto simp: AuthorizeArchiveProof_def same_core_def Let_def)
  then show ?thesis
    using True changeI by blast
next
  case False
  then have "t = s \<or> (\<exists>c m e'. fail_session s c m e' = (t, e))"
    using eq unfolding AuthorizeArchiveProof_def
    by (cases "VerifyArchiveAuthProof k (se_ArchiveBaseDigest s) i p") (auto split: if_splits)
  then show ?thesis
    using change_noneI change_failI by blast
qed

lemmas operation_changes =
  Negotiate_change ConfirmAccept_change Authenticate_change AuthenticateProof_change AuthorizeArchive_change
  AuthorizeArchiveProof_change Activate_change AcceptNext_change Close_change

lemma step_change:
  assumes "sess_step s t" and "sess_inv s"
  shows "\<exists>c. enabled s c \<and> same_core t (change s c)"
  using assms
proof cases
  case (st_RejectReplay e)
  then show ?thesis
    using assms(2) by (intro RejectReplay_change) (auto simp: sess_inv_def)
next
  case (st_Offer ss vs)
  then show ?thesis
    by (intro changeI [of _ "Chg_Offer vs"]) (simp_all add: same_core_def)
next
  case st_Failure
  then show ?thesis
    by (intro changeI [of _ Chg_Fail]) (simp_all add: same_core_def)
qed (rule operation_changes, assumption)+

lemma change_inv: "sess_inv s \<Longrightarrow> enabled s c \<Longrightarrow> sess_inv (change s c)"
  by (cases c)
    (auto simp: sess_inv_def past_negotiation_def mutual_def downgraded_iff)

lemma step_inv: "sess_step s t \<Longrightarrow> sess_inv s \<Longrightarrow> sess_inv t"
  using step_change [of s t] change_inv [of s] same_core_inv [of t] by metis

lemma init_inv: "sess_init s \<Longrightarrow> sess_inv s"
  by (auto simp: sess_init_def NewSession_def sess_inv_def past_negotiation_def)

interpretation sess: inductive_invariant sess_init sess_step sess_inv
  using init_inv step_inv by unfold_locales blast+

lemma change_progress: "sess_inv s \<Longrightarrow> enabled s c \<Longrightarrow> se_State s \<le> se_State (change s c)"
  by (cases c; cases "se_State s") (auto simp: less_eq_sess_state_def mutual_def)

lemma new_is_initial: "sess_inv s \<Longrightarrow> se_State s = SessNew \<Longrightarrow> sv_Init (abs_session s)"
  by (auto simp: sess_inv_def sv_Init_def abs_session_def)

lemma change_limit: "accept_limit (change s c) = accept_limit s"
  by (cases c) (simp_all add: accept_limit_def mutual_def)

lemma negotiate_abs:
  assumes "se_State s = SessNew" "candidates (se_Offered s) \<noteq> []"
  shows "sv_Next m (abs_session s) (abs_session (change s Chg_Negotiate))"
proof -
  have "sv_Candidates (abs_session s) \<noteq> {}"
    using assms(2) by (simp add: abs_candidates)
  moreover have "abs_session (change s Chg_Negotiate) =
      (abs_session s)\<lparr>sv_state := SessNegotiated, sv_selected := Max (sv_Candidates (abs_session s))\<rparr>"
    unfolding abs_candidates using assms(2) by (simp add: unat_Max [symmetric]) (simp add: abs_session_def)
  ultimately show ?thesis
    using sv_Negotiate [of "abs_session s" m] assms(1) by (simp add: abs_session_def)
qed

lemma accept_abs:
  assumes "enabled s Chg_Accept"
  shows "sv_Next (unat (accept_limit s)) (abs_session s) (abs_session (change s Chg_Accept))"
proof -
  have lt: "se_ReceiveSequence s < accept_limit s"
    using assms by simp
  then have "unat (se_ReceiveSequence s) + 1 < 2 ^ 64"
    using unsigned_less [of "accept_limit s", where ?'a = nat] by (simp add: word_less_nat_alt)
  then have "unat (se_ReceiveSequence s + 1) = unat (se_ReceiveSequence s) + 1"
    by (simp add: unat_word_ariths)
  then have "abs_session (change s Chg_Accept) =
      (abs_session s)\<lparr>sv_receiveSequence := sv_receiveSequence (abs_session s) + 1, sv_productMutation := True\<rparr>"
    by (simp add: abs_session_def)
  then show ?thesis
    using sv_AcceptNext [of "abs_session s" "unat (accept_limit s)"] lt assms
    by (simp add: abs_session_def word_less_nat_alt)
qed

lemma i2r_abs:
  assumes "enabled s Chg_I2R" "sess_inv s"
  shows "sv_Next m (abs_session s) (abs_session (change s Chg_I2R))"
  using sv_AuthenticateI2R [of "abs_session s" m] not_downgraded_abs [of s] assms
  by (cases "se_AuthR2I s") (simp_all add: abs_session_def mutual_def sv_Candidates_def)

lemma r2i_abs:
  assumes "enabled s Chg_R2I" "sess_inv s"
  shows "sv_Next m (abs_session s) (abs_session (change s Chg_R2I))"
  using sv_AuthenticateR2I [of "abs_session s" m] not_downgraded_abs [of s] assms
  by (cases "se_AuthI2R s") (simp_all add: abs_session_def mutual_def sv_Candidates_def)

lemma both_abs:
  assumes "enabled s Chg_Both" "sess_inv s"
  shows "(sv_Next m)\<^sup>*\<^sup>* (abs_session s) (abs_session (change s Chg_Both))"
proof -
  have "\<not> (se_AuthI2R s \<and> se_AuthR2I s)"
    using assms by (auto simp: sess_inv_def)
  then consider "se_AuthI2R s" "\<not> se_AuthR2I s" | "\<not> se_AuthI2R s" "se_AuthR2I s" | "\<not> se_AuthI2R s" "\<not> se_AuthR2I s"
    by blast
  then show ?thesis
  proof cases
    case 1
    then show ?thesis
      using r2i_abs [of s m] assms by (simp add: mutual_def abs_session_def r_into_rtranclp)
  next
    case 2
    then show ?thesis
      using i2r_abs [of s m] assms by (simp add: mutual_def abs_session_def r_into_rtranclp)
  next
    case 3
    let ?s = "change s Chg_I2R"
    have "sess_inv ?s"
      using assms 3 by (intro change_inv) simp_all
    then have "sv_Next m (abs_session s) (abs_session ?s)" "sv_Next m (abs_session ?s) (abs_session (change ?s Chg_R2I))"
      using i2r_abs [of s m] r2i_abs [of ?s m] assms 3 by (simp_all add: mutual_def downgraded_iff)
    moreover have "abs_session (change ?s Chg_R2I) = abs_session (change s Chg_Both)"
      using 3 by (simp add: mutual_def abs_session_def)
    ultimately show ?thesis
      by (metis rtranclp.simps)
  qed
qed

lemma change_sim:
  assumes "sess_inv s" "enabled s c" "\<And>vs. c \<noteq> Chg_Offer vs"
  shows "(sv_Step (unat (accept_limit s)))\<^sup>*\<^sup>* (abs_session s) (abs_session (change s c))"
proof -
  let ?m = "unat (accept_limit s)"
  have step: "sv_Next ?m (abs_session s) (abs_session (change s c)) \<Longrightarrow> ?thesis"
    by (rule r_into_rtranclp) (simp add: sv_Step_def)
  have many: "(sv_Next ?m)\<^sup>*\<^sup>* (abs_session s) (abs_session (change s c)) \<Longrightarrow> ?thesis"
    by (erule rtranclp_mono [THEN predicate2D, rotated]) (auto simp: sv_Step_def)
  have failing: "sv_Step ?m (abs_session t) (abs_session (t\<lparr>se_State := SessFailed\<rparr>))" for t
    by (simp add: sv_Step_def abs_session_def)
  show ?thesis
  proof (cases c)
    case Chg_NoSuite
    have "sv_Step ?m (abs_session s) (abs_session (change s Chg_Negotiate))"
      using negotiate_abs [of s ?m] assms(2) Chg_NoSuite by (simp add: sv_Step_def)
    moreover have "sv_Step ?m (abs_session (change s Chg_Negotiate)) (abs_session (change s c))"
      using failing [of "change s Chg_Negotiate"] Chg_NoSuite by simp
    ultimately show ?thesis
      by (rule converse_rtranclp_into_rtranclp [OF _ r_into_rtranclp])
  next
    case Chg_Archive
    then show ?thesis
      using step sv_AuthorizeArchive [of "abs_session s" ?m] assms(2) by (simp add: abs_session_def)
  next
    case Chg_Activate
    then show ?thesis
      using step sv_Activate [of "abs_session s" ?m] not_downgraded_abs [of s] assms(2)
      by (simp add: abs_session_def sv_Candidates_def)
  next
    case Chg_Close
    then show ?thesis
      using step sv_Close [of "abs_session s" ?m] assms(2) by (simp add: abs_session_def)
  qed (use assms failing step many negotiate_abs [of s ?m] accept_abs [of s] i2r_abs [of s ?m] r2i_abs [of s ?m] both_abs [of s ?m]
       in \<open>auto intro: r_into_rtranclp\<close>)
qed

lemma reach_steps: "reach i st a \<Longrightarrow> st\<^sup>*\<^sup>* a b \<Longrightarrow> reach i st b"
  by (rotate_tac, induction rule: rtranclp_induct) (blast intro: reach.intros)+

lemma reach_abs_session:
  assumes "reach sess_init sess_step s"
  shows "reach sv_Init (sv_Step (unat (accept_limit s))) (abs_session s)"
  using assms
proof (induction rule: reach.induct)
  case (reach_init s)
  then have "sv_Init (abs_session s)"
    by (intro new_is_initial init_inv) (auto simp: sess_init_def NewSession_def)
  then show ?case
    by (rule reach.intros)
next
  case (reach_step s t)
  have inv: "sess_inv s"
    using reach_step.hyps(1) by (rule sess.reach_inv)
  obtain c where c: "enabled s c" "same_core t (change s c)"
    using step_change [OF reach_step.hyps(2) inv] by blast
  have inv': "sess_inv (change s c)"
    using change_inv [OF inv c(1)] .
  have eq: "abs_session t = abs_session (change s c)" "accept_limit t = accept_limit s"
    using same_core_abs [OF c(2)] change_limit by simp_all
  show ?case
  proof (cases "\<exists>vs. c = Chg_Offer vs")
    case True
    then have "sv_Init (abs_session (change s c))"
      using inv' c(1) by (intro new_is_initial) auto
    then show ?thesis
      unfolding eq by (rule reach.intros)
  next
    case False
    then have "(sv_Step (unat (accept_limit s)))\<^sup>*\<^sup>* (abs_session s) (abs_session (change s c))"
      by (intro change_sim [OF inv c(1)]) blast
    then show ?thesis
      unfolding eq by (rule reach_steps [OF reach_step.IH])
  qed
qed

lemma sess_init_New: "sess_init (NewSession vs)"
  unfolding sess_init_def
  by (rule exI [of _ vs], rule exI [of _ "[]"], rule exI [of _ False], rule exI [of _ 0], rule exI [of _ None], rule exI [of _ None])
    (simp add: NewSession_def)

text \<open>
  C4: A session, whatever methods are called on it in whatever order, with whatever arguments,
  proofs, transcripts and event sinks, and with the protocol driver's two assignments in
  between, stays within the abstract session model: its state is the image of a state that
  the actions of \<open>Session.tla\<close> reach from an initial state, given that the implementation may
  also fail closed (the state becomes FAILED, nothing else changes).  The bound on accepted
  messages is the session's own \<open>MaxAccept\<close>.
\<close>

theorem session_refines_model:
  assumes "reach sess_init sess_step s"
  shows "reach sv_Init (sv_Step (unat (accept_limit s))) (abs_session s)"
  using assms by (rule reach_abs_session)

theorem session_refines_model_witness:
  "reach sv_Init (sv_Step 2) (abs_session ((NewSession [1, 3])\<lparr>se_MaxAccept := 2, se_Selected := 3, se_State := SessNegotiated\<rparr>))"
proof -
  define s where "s = (NewSession [1, 3])\<lparr>se_MaxAccept := 2\<rparr>"
  have "sess_init s"
    unfolding sess_init_def s_def
    by (rule exI [of _ "[1, 3]"], rule exI [of _ "[]"], rule exI [of _ False], rule exI [of _ 2], rule exI [of _ None], rule exI [of _ None])
      (simp add: NewSession_def)
  moreover have "sess_step s (fst (Negotiate s))"
    using st_Negotiate [of s "fst (Negotiate s)" "snd (Negotiate s)"] by simp
  ultimately have "reach sess_init sess_step (fst (Negotiate s))"
    by (blast intro: reach.intros)
  moreover have "fst (Negotiate s) = (NewSession [1, 3])\<lparr>se_MaxAccept := 2, se_Selected := 3, se_State := SessNegotiated\<rparr>"
    by (simp add: Negotiate_def s_def NewSession_def candidates_def LocalAllowed_def bind_field_def freezeAuthBase_def)
  ultimately have "reach sess_init sess_step ((NewSession [1, 3])\<lparr>se_MaxAccept := 2, se_Selected := 3, se_State := SessNegotiated\<rparr>)"
    by simp
  from session_refines_model [OF this] show ?thesis
    by (simp add: accept_limit_def)
qed

lemma sess_inv_Invariants: "sess_inv s \<Longrightarrow> Invariants s = None"
  by (cases "se_State s") (auto simp: Invariants_def sess_inv_def past_negotiation_def)

text \<open>
  C35: In every state a session can reach, the package's own checker \<open>Invariants\<close> returns no
  error, so an active session is mutually authenticated, authorised for its archive and not
  downgraded, no product mutation precedes both authentications, and no replay is accepted;
  and every further step moves the session forward in the order NEW, NEGOTIATED,
  PEER_AUTHENTICATED, ARCHIVE_AUTHORIZED, ACTIVE, CLOSED, FAILED or leaves its state as it is.
\<close>

theorem session_invariants_hold:
  assumes "reach sess_init sess_step s"
  shows "Invariants s = None \<and> (\<forall>t. sess_step s t \<longrightarrow> se_State s \<le> se_State t)"
proof -
  have inv: "sess_inv s"
    using assms by (rule sess.reach_inv)
  then have "Invariants s = None"
    by (rule sess_inv_Invariants)
  moreover have "se_State s \<le> se_State t" if step: "sess_step s t" for t
  proof -
    obtain c where "enabled s c" "same_core t (change s c)"
      using step_change [OF step inv] by blast
    then show ?thesis
      using change_progress [OF inv, of c] by (simp add: same_core_def)
  qed
  ultimately show ?thesis
    by blast
qed

theorem session_invariants_hold_witness:
  "Invariants (fst (Negotiate (NewSession [2]))) = None \<and>
   SessNegotiated \<le> se_State (fst (Authenticate (fst (Negotiate (NewSession [2])))))"
proof -
  define s where "s = fst (Negotiate (NewSession [2]))"
  have "sess_init (NewSession [2])"
    by (rule sess_init_New)
  moreover have "sess_step (NewSession [2]) s"
    using st_Negotiate [of "NewSession [2]" s "snd (Negotiate (NewSession [2]))"] by (simp add: s_def)
  ultimately have "reach sess_init sess_step s"
    by (blast intro: reach.intros)
  moreover have "sess_step s (fst (Authenticate s))"
    using st_Authenticate [of s "fst (Authenticate s)" "snd (Authenticate s)"] by simp
  moreover have "se_State s = SessNegotiated"
    by (simp add: s_def Negotiate_def NewSession_def candidates_def LocalAllowed_def)
  ultimately show ?thesis
    using session_invariants_hold [of s] unfolding s_def [symmetric] by simp
qed

subsection \<open>Invariants of the abstract model\<close>

definition sv_TypeOK :: "nat \<Rightarrow> sess_vars \<Rightarrow> bool" where
  "sv_TypeOK m v \<longleftrightarrow> sv_offered v \<subseteq> {1..3} \<and> sv_selected v \<in> {0..3} \<and> sv_receiveSequence v \<in> {0..m}"

definition sv_inv :: "nat \<Rightarrow> sess_vars \<Rightarrow> bool" where
  "sv_inv m v \<longleftrightarrow> sv_TypeOK m v \<and> \<not> sv_replayAccepted v \<and>
     (sv_state v \<in> {SessPeerAuthenticated, SessArchiveAuthorized, SessActive} \<longrightarrow> sv_peerAuthenticated v) \<and>
     (sv_state v \<in> {SessArchiveAuthorized, SessActive} \<longrightarrow> sv_archiveAuthorized v) \<and>
     (sv_state v = SessActive \<longrightarrow> sv_selected v = Max (sv_Candidates v)) \<and>
     (sv_productMutation v \<longrightarrow> sv_peerAuthenticated v \<and> sv_archiveAuthorized v) \<and>
     (sv_state v = SessPeerAuthenticated \<longrightarrow> sv_authI2R v \<and> sv_authR2I v)"

lemma sv_Candidates_fields [simp]:
  "sv_Candidates (v\<lparr>sv_state := x\<rparr>) = sv_Candidates v" "sv_Candidates (v\<lparr>sv_selected := n\<rparr>) = sv_Candidates v"
  "sv_Candidates (v\<lparr>sv_peerAuthenticated := b\<rparr>) = sv_Candidates v" "sv_Candidates (v\<lparr>sv_archiveAuthorized := b\<rparr>) = sv_Candidates v"
  "sv_Candidates (v\<lparr>sv_receiveSequence := n\<rparr>) = sv_Candidates v" "sv_Candidates (v\<lparr>sv_productMutation := b\<rparr>) = sv_Candidates v"
  "sv_Candidates (v\<lparr>sv_replayAccepted := b\<rparr>) = sv_Candidates v"
  "sv_Candidates (v\<lparr>sv_authI2R := b\<rparr>) = sv_Candidates v" "sv_Candidates (v\<lparr>sv_authR2I := b\<rparr>) = sv_Candidates v"
  by (simp_all add: sv_Candidates_def)

lemma Max_Candidates_le: "sv_Candidates v \<noteq> {} \<Longrightarrow> Max (sv_Candidates v) \<le> 3"
  by (subst Max_le_iff) (auto simp: sv_Candidates_def)

lemma sv_Next_inv: "sv_Next m v w \<Longrightarrow> sv_inv m v \<Longrightarrow> sv_inv m w"
  by (induction rule: sv_Next.induct) (auto simp: sv_inv_def sv_TypeOK_def Max_Candidates_le)

lemma sv_Step_inv: "sv_inv m v \<Longrightarrow> sv_Step m v w \<Longrightarrow> sv_inv m w"
  using sv_Next_inv by (auto simp: sv_Step_def) (auto simp: sv_inv_def sv_TypeOK_def)

lemma sv_Init_inv: "sv_Init v \<Longrightarrow> sv_inv m v"
  by (auto simp: sv_Init_def sv_inv_def sv_TypeOK_def)

interpretation sv: inductive_invariant sv_Init "sv_Step m" "sv_inv m" for m
  using sv_Init_inv sv_Step_inv by unfold_locales blast+

text \<open>So the invariants of \<open>Session.tla\<close> hold of every reachable session.\<close>

lemma session_model_invariants:
  assumes "reach sess_init sess_step s"
  shows "sv_TypeOK (unat (accept_limit s)) (abs_session s) \<and> ActiveIsAuthorized (abs_session s) \<and>
    ActiveIsNotDowngraded (abs_session s) \<and> ReplayNeverAccepted (abs_session s) \<and>
    MutationIsAuthorized (abs_session s) \<and> PeerAuthIsMutual (abs_session s)"
  using sv.reach_inv [OF reach_abs_session [OF assms]]
  by (simp add: sv_inv_def ActiveIsAuthorized_def ActiveIsNotDowngraded_def ReplayNeverAccepted_def
      MutationIsAuthorized_def PeerAuthIsMutual_def)

end
