(* ===== verification/Protocol.thy ===== *)
theory Protocol
  imports Session
begin

text \<open>
  The wire protocol: \<open>internal/protocol\<close> (\<open>protocol.go\<close>, \<open>negotiate.go\<close>, \<open>data_chunk.go\<close>,
  \<open>peerauth.go\<close>).  The frame codec with its authenticator and the bodies of the negotiation,
  data and authentication frames.  An index into a slice is a position in a byte list; what is
  appended to a buffer is appended to a list.
\<close>

subsection \<open>Frames\<close>

definition ProtocolVersion :: u16 where "ProtocolVersion = 1"
definition HeaderBytes :: nat where "HeaderBytes = 42"
definition AuthBytes :: nat where "AuthBytes = 32"
definition MaxBodyBytes :: nat where "MaxBodyBytes = 1048576"

definition FrameMagic :: bytes where
  "FrameMagic = bytes_of ''INTPRO01''"

type_synonym message_type = u16

definition TypeNegotiateOffer :: message_type where "TypeNegotiateOffer = 1"
definition TypeNegotiateAccept :: message_type where "TypeNegotiateAccept = 2"
definition TypePeerAuth :: message_type where "TypePeerAuth = 3"
definition TypeArchiveAuth :: message_type where "TypeArchiveAuth = 4"
definition TypeActivate :: message_type where "TypeActivate = 5"
definition TypeData :: message_type where "TypeData = 6"
definition TypeClose :: message_type where "TypeClose = 7"
definition TypeFailure :: message_type where "TypeFailure = 8"

definition FlagRequiresMAC :: u16 where "FlagRequiresMAC = 1"

record frame =
  fr_Version :: u16
  fr_Type :: message_type
  fr_Flags :: u16
  fr_SessionID :: bytes
  fr_Sequence :: u64
  fr_Body :: bytes

record proto_error =
  px_Code :: string
  px_Message :: string

definition proto_error_text :: "proto_error \<Rightarrow> string" where
  "proto_error_text e = px_Code e @ '': '' @ px_Message e"

definition proto_fail :: "string \<Rightarrow> string \<Rightarrow> proto_error" where
  "proto_fail code msg = \<lparr>px_Code = code, px_Message = msg\<rparr>"

definition known :: "message_type \<Rightarrow> bool" where
  "known t \<longleftrightarrow> t \<ge> TypeNegotiateOffer \<and> t \<le> TypeFailure"

definition CriticalUnknown :: "message_type \<Rightarrow> bool" where
  "CriticalUnknown t \<longleftrightarrow> \<not> known t"

definition macSHA256 :: "bytes \<Rightarrow> bytes \<Rightarrow> bytes" where
  "macSHA256 key body = hmac_sha256 key body"

definition frame_limits :: limits where
  "frame_limits = \<lparr>MaxBytes = word_of_nat (MaxBodyBytes + HeaderBytes + AuthBytes), MaxCount = 1, MaxNesting = 1,
     MaxQueueDepth = 1, MaxConcurrent = 1, MaxRetries = 1\<rparr>"

definition Encode :: "frame \<Rightarrow> bytes \<Rightarrow> proto_error + bytes" where
  "Encode f macKey =
     (let f = (if fr_Version f = 0 then f\<lparr>fr_Version := ProtocolVersion\<rparr> else f) in
      if fr_Version f \<noteq> ProtocolVersion then Inl (proto_fail ''version'' ''unsupported protocol version'')
      else if \<not> known (fr_Type f) then Inl (proto_fail ''type'' ''unknown message type'')
      else if fr_Flags f AND NOT FlagRequiresMAC \<noteq> 0 then Inl (proto_fail ''flags'' ''reserved flags must be zero'')
      else if length (fr_Body f) > MaxBodyBytes then Inl (proto_fail ''limit'' ''body exceeds MaxBodyBytes'')
      else
        let needMAC = (fr_Flags f AND FlagRequiresMAC \<noteq> 0 \<or> length macKey > 0);
            f = (if needMAC then f\<lparr>fr_Flags := fr_Flags f OR FlagRequiresMAC\<rparr> else f) in
        if needMAC \<and> length macKey < 16 then Inl (proto_fail ''mac'' ''MAC key required (min 16 bytes)'')
        else
          let total = HeaderBytes + length (fr_Body f);
              total = (if needMAC then total + AuthBytes else total) in
          case AdmitBytes frame_limits (word_of_nat total) of
            Some err \<Rightarrow> Inl (proto_fail ''limit'' (res_error_text err))
          | None \<Rightarrow>
              let buf = FrameMagic;
                  buf = buf @ PutU16LE (fr_Version f);
                  buf = buf @ PutU16LE (fr_Type f);
                  buf = buf @ PutU16LE (fr_Flags f);
                  buf = buf @ PutU32LE (len32 (fr_Body f));
                  buf = buf @ fr_SessionID f;
                  buf = buf @ PutU64LE (fr_Sequence f);
                  buf = buf @ fr_Body f;
                  buf = (if needMAC then buf @ macSHA256 macKey buf else buf)
              in Inr buf)"

definition Decode :: "bytes \<Rightarrow> bytes \<Rightarrow> bool \<Rightarrow> proto_error + frame" where
  "Decode raw macKey requireMAC =
     (let least = (if requireMAC \<or> length macKey > 0 then HeaderBytes + AuthBytes else HeaderBytes) in
      if length raw < least then Inl (proto_fail ''trunc'' ''frame too short'')
      else if slice 0 8 raw \<noteq> FrameMagic then Inl (proto_fail ''magic'' ''not INTPRO01'')
      else
        let ver = U16LE (slice 8 10 raw) in
        if ver \<noteq> ProtocolVersion then Inl (proto_fail ''version'' (''unsupported '' @ itoa (unat ver)))
        else
          let typ = U16LE (slice 10 12 raw);
              flags = U16LE (slice 12 14 raw) in
          if flags AND NOT FlagRequiresMAC \<noteq> 0 then Inl (proto_fail ''flags'' ''reserved flags must be zero'')
          else
            let bodyLen = U32LE (slice 14 18 raw) in
            if unat bodyLen > MaxBodyBytes then Inl (proto_fail ''limit'' ''body_length exceeds MaxBodyBytes'')
            else
              let needMAC = (requireMAC \<or> flags AND FlagRequiresMAC \<noteq> 0 \<or> length macKey > 0);
                  expect = HeaderBytes + unat bodyLen;
                  expect = (if needMAC then expect + AuthBytes else expect) in
              if length raw \<noteq> expect then Inl (proto_fail ''length'' ''frame length mismatch'')
              else if \<not> known typ then Inl (proto_fail ''critical'' ''unknown critical message type'')
              else if needMAC \<and> length macKey < 16 then Inl (proto_fail ''mac'' ''MAC key required'')
              else if needMAC \<and>
                  drop (length raw - AuthBytes) raw \<noteq> macSHA256 macKey (take (HeaderBytes + unat bodyLen) raw)
                then Inl (proto_fail ''mac'' ''authenticator mismatch'')
              else
                let sid = slice 18 34 raw;
                    seq = U64LE (slice 34 42 raw);
                    body = slice 42 (42 + unat bodyLen) raw
                in Inr \<lparr>fr_Version = ver, fr_Type = typ, fr_Flags = flags, fr_SessionID = sid,
                        fr_Sequence = seq, fr_Body = body\<rparr>)"

subsection \<open>Bodies\<close>

definition maxNegotiateVersions :: nat where "maxNegotiateVersions = 8"
definition maxNegotiateSuites :: nat where "maxNegotiateSuites = 8"
definition maxSuiteIDLen :: nat where "maxSuiteIDLen = 96"

text \<open>The first loop of the offer encoder checks the suites, the second writes them.\<close>

fun offerSuiteCheck :: "string list \<Rightarrow> proto_error option" where
  "offerSuiteCheck [] = None"
| "offerSuiteCheck (s # suites) =
     (if s = [] then Some (proto_fail ''negotiate'' ''empty suite id'')
      else if length s > maxSuiteIDLen then Some (proto_fail ''negotiate'' ''suite id too long'')
      else offerSuiteCheck suites)"

fun offerSuiteBytes :: "bytes \<Rightarrow> string list \<Rightarrow> bytes" where
  "offerSuiteBytes out [] = out"
| "offerSuiteBytes out (s # suites) = offerSuiteBytes ((out @ [word_of_nat (length s)]) @ bytes_of s) suites"

definition EncodeNegotiateOfferBody :: "version list \<Rightarrow> string list \<Rightarrow> proto_error + bytes" where
  "EncodeNegotiateOfferBody vers suites =
     (if length vers = 0 \<or> length vers > maxNegotiateVersions
        then Inl (proto_fail ''negotiate'' (''version count '' @ itoa (length vers) @ '' out of range''))
      else if length suites > maxNegotiateSuites
        then Inl (proto_fail ''negotiate'' (''suite count '' @ itoa (length suites) @ '' exceeds max''))
      else
        case offerSuiteCheck suites of
          Some e \<Rightarrow> Inl e
        | None \<Rightarrow>
            let out = [word_of_nat (length vers)];
                out = out @ vers;
                out = out @ [word_of_nat (length suites)]
            in Inr (offerSuiteBytes out suites))"

text \<open>The loop over the suites: body, position, how many are left, what was read.\<close>

fun parseSuites :: "bytes \<Rightarrow> nat \<Rightarrow> nat \<Rightarrow> string list \<Rightarrow> proto_error + string list \<times> nat" where
  "parseSuites body off 0 suites = Inr (suites, off)"
| "parseSuites body off (Suc i) suites =
     (if off \<ge> length body then Inl (proto_fail ''negotiate'' ''truncated suite length'')
      else
        let n = unat (body ! off);
            off = off + 1 in
        if n = 0 \<or> n > maxSuiteIDLen then Inl (proto_fail ''negotiate'' ''bad suite id length'')
        else if off + n > length body then Inl (proto_fail ''negotiate'' ''truncated suite id'')
        else parseSuites body (off + n) i (suites @ [string_of (slice off (off + n) body)]))"

definition ParseNegotiateOfferBody :: "bytes \<Rightarrow> proto_error + version list \<times> string list" where
  "ParseNegotiateOfferBody body =
     (if length body < 2 then Inl (proto_fail ''negotiate'' ''offer body too short'')
      else
        let nV = unat (body ! 0) in
        if nV = 0 \<or> nV > maxNegotiateVersions then Inl (proto_fail ''negotiate'' ''bad version count'')
        else if length body < 1 + nV + 1 then Inl (proto_fail ''negotiate'' ''truncated versions'')
        else
          let vers = slice 1 (1 + nV) body;
              off = 1 + nV;
              nS = unat (body ! off);
              off = off + 1 in
          if nS > maxNegotiateSuites then Inl (proto_fail ''negotiate'' ''bad suite count'')
          else
            case parseSuites body off nS [] of
              Inl e \<Rightarrow> Inl e
            | Inr (suites, off) \<Rightarrow>
                if off \<noteq> length body then Inl (proto_fail ''negotiate'' ''trailing offer bytes'')
                else Inr (vers, suites))"

definition EncodeNegotiateAcceptBody :: "version \<Rightarrow> string \<Rightarrow> proto_error + bytes" where
  "EncodeNegotiateAcceptBody vers suite =
     (if vers = 0 then Inl (proto_fail ''negotiate'' ''selected version required'')
      else if length suite > maxSuiteIDLen then Inl (proto_fail ''negotiate'' ''suite id too long'')
      else Inr ([vers, word_of_nat (length suite)] @ bytes_of suite))"

definition ParseNegotiateAcceptBody :: "bytes \<Rightarrow> proto_error + version \<times> string" where
  "ParseNegotiateAcceptBody body =
     (if length body < 2 then Inl (proto_fail ''negotiate'' ''accept body too short'')
      else
        let vers = body ! 0 in
        if vers = 0 then Inl (proto_fail ''negotiate'' ''bad selected version'')
        else
          let n = unat (body ! 1) in
          if n > maxSuiteIDLen then Inl (proto_fail ''negotiate'' ''bad suite id length'')
          else if length body \<noteq> 2 + n then Inl (proto_fail ''negotiate'' ''bad accept body length'')
          else
            let suite = (if n > 0 then string_of (drop 2 body) else [])
            in Inr (vers, suite))"

definition DataChunkHeaderBytes :: nat where "DataChunkHeaderBytes = 12"
definition MaxDataChunkBytes :: nat where "MaxDataChunkBytes = MaxBodyBytes - DataChunkHeaderBytes"

text \<open>The largest 64-bit number is \<open>- 1\<close>, the complement of zero.\<close>

definition EncodeDataChunkBody :: "u64 \<Rightarrow> bytes \<Rightarrow> proto_error + bytes" where
  "EncodeDataChunkBody offset data =
     (if length data > MaxDataChunkBytes
        then Inl (proto_fail ''chunk'' (''chunk length '' @ itoa (length data) @ '' exceeds max''))
      else if offset > NOT 0 - len64 data then Inl (proto_fail ''chunk'' ''offset+length overflow'')
      else
        let out = make_bytes (DataChunkHeaderBytes + length data);
            out = copy_at 0 (PutU64LE offset) out;
            out = copy_at 8 (PutU32LE (len32 data)) out;
            out = copy_at DataChunkHeaderBytes data out
        in Inr out)"

definition ParseDataChunkBody :: "bytes \<Rightarrow> proto_error + u64 \<times> bytes" where
  "ParseDataChunkBody body =
     (if length body < DataChunkHeaderBytes then Inl (proto_fail ''chunk'' ''truncated data chunk'')
      else
        let offset = U64LE (slice 0 8 body);
            n = U32LE (slice 8 12 body) in
        if DataChunkHeaderBytes + unat n \<noteq> length body then Inl (proto_fail ''chunk'' ''length mismatch'')
        else if unat n > MaxDataChunkBytes then Inl (proto_fail ''chunk'' ''chunk length exceeds max'')
        else if offset > NOT 0 - ucast n then Inl (proto_fail ''chunk'' ''offset+length overflow'')
        else Inr (offset, drop DataChunkHeaderBytes body))"

definition peerAuthDirLen :: nat where "peerAuthDirLen = 3"

definition EncodePeerAuthBody :: "string \<Rightarrow> bytes \<Rightarrow> bytes" where
  "EncodePeerAuthBody direction proof = bytes_of direction @ proof"

definition ParsePeerAuthBody :: "bytes \<Rightarrow> proto_error + string \<times> bytes" where
  "ParsePeerAuthBody body =
     (if length body < peerAuthDirLen + 16
        then Inl (proto_fail ''auth'' (''peer auth body too short ('' @ itoa (length body) @ '')''))
      else
        let direction = string_of (take peerAuthDirLen body) in
        if direction \<noteq> ''i2r'' \<and> direction \<noteq> ''r2i'' then Inl (proto_fail ''auth'' ''invalid peer auth direction'')
        else Inr (direction, drop peerAuthDirLen body))"

subsection \<open>The frame layout\<close>

lemmas frame_const_defs =
  ProtocolVersion_def HeaderBytes_def AuthBytes_def MaxBodyBytes_def FlagRequiresMAC_def frame_limits_def

lemmas message_type_defs =
  TypeNegotiateOffer_def TypeNegotiateAccept_def TypePeerAuth_def TypeArchiveAuth_def TypeActivate_def
  TypeData_def TypeClose_def TypeFailure_def

lemma length_FrameMagic [simp, wire_simps]: "length FrameMagic = 8"
  by (simp add: FrameMagic_def)

lemma length_macSHA256 [simp, wire_simps]: "length (macSHA256 k b) = 32"
  by (simp add: macSHA256_def)

definition frame_head :: "frame \<Rightarrow> bytes" where
  "frame_head f = FrameMagic @ PutU16LE (fr_Version f) @ PutU16LE (fr_Type f) @ PutU16LE (fr_Flags f) @
     PutU32LE (len32 (fr_Body f)) @ fr_SessionID f @ PutU64LE (fr_Sequence f)"

definition frame_wire :: "bytes \<Rightarrow> frame \<Rightarrow> bytes" where
  "frame_wire k f = frame_head f @ fr_Body f @ (if k = [] then [] else macSHA256 k (frame_head f @ fr_Body f))"

text \<open>A frame as the encoder leaves it under a key: version and flags filled in.\<close>

definition canonical_frame :: "bytes \<Rightarrow> frame \<Rightarrow> bool" where
  "canonical_frame k f \<longleftrightarrow> fr_Version f = ProtocolVersion \<and> length (fr_SessionID f) = 16 \<and>
     fr_Flags f = (if k = [] then 0 else FlagRequiresMAC)"

definition sendable :: "bytes \<Rightarrow> frame \<Rightarrow> bool" where
  "sendable k f \<longleftrightarrow> known (fr_Type f) \<and> length (fr_Body f) \<le> MaxBodyBytes \<and> (k \<noteq> [] \<longrightarrow> 16 \<le> length k)"

lemma length_frame_head: "length (fr_SessionID f) = 16 \<Longrightarrow> length (frame_head f) = HeaderBytes"
  by (simp add: frame_head_def HeaderBytes_def)

lemma frame_admitted: "n \<le> MaxBodyBytes + HeaderBytes + AuthBytes \<Longrightarrow> AdmitBytes frame_limits (word_of_nat n) = None"
  by (simp add: AdmitBytes_def frame_const_defs word_less_nat_alt unat_of_nat_small)

lemma Encode_sendable:
  assumes "canonical_frame k f" "sendable k f"
  shows "Encode f k = Inr (frame_wire k f)"
proof -
  have "AdmitBytes frame_limits (word_of_nat (HeaderBytes + length (fr_Body f))) = None"
    "AdmitBytes frame_limits (word_of_nat (HeaderBytes + length (fr_Body f) + AuthBytes)) = None"
    using assms(2) by (simp_all add: frame_admitted sendable_def del: of_nat_add)
  moreover have "FlagRequiresMAC AND NOT FlagRequiresMAC = 0" "FlagRequiresMAC OR FlagRequiresMAC = FlagRequiresMAC"
    "ProtocolVersion \<noteq> 0"
    by (simp_all add: frame_const_defs)
  ultimately show ?thesis
    using assms
    by (cases "k = []") (simp_all add: Encode_def Let_def canonical_frame_def sendable_def frame_wire_def frame_head_def del: of_nat_add)
qed

lemma Encode_refused:
  assumes "canonical_frame k f" "\<not> sendable k f"
  shows "\<exists>e. Encode f k = Inl e"
  using assms by (auto simp: Encode_def Let_def canonical_frame_def sendable_def)

lemma Encode_Inr_iff:
  assumes "canonical_frame k f"
  shows "Encode f k = Inr raw \<longleftrightarrow> sendable k f \<and> raw = frame_wire k f"
  using Encode_sendable [OF assms] Encode_refused [OF assms] by (cases "sendable k f") auto

lemma frame_wire_slices:
  assumes "length (fr_SessionID f) = 16"
  shows "slice 0 8 (frame_wire k f @ rest) = FrameMagic"
    and "slice 8 10 (frame_wire k f @ rest) = PutU16LE (fr_Version f)"
    and "slice 10 12 (frame_wire k f @ rest) = PutU16LE (fr_Type f)"
    and "slice 12 14 (frame_wire k f @ rest) = PutU16LE (fr_Flags f)"
    and "slice 14 18 (frame_wire k f @ rest) = PutU32LE (len32 (fr_Body f))"
    and "slice 18 34 (frame_wire k f @ rest) = fr_SessionID f"
    and "slice 34 42 (frame_wire k f @ rest) = PutU64LE (fr_Sequence f)"
    and "slice 42 (42 + length (fr_Body f)) (frame_wire k f @ rest) = fr_Body f"
  using assms by (simp_all add: frame_wire_def frame_head_def slice_def)

lemma length_frame_wire:
  "length (fr_SessionID f) = 16 \<Longrightarrow>
   length (frame_wire k f) = HeaderBytes + length (fr_Body f) + (if k = [] then 0 else AuthBytes)"
  by (simp add: frame_wire_def length_frame_head AuthBytes_def)

lemma body_len_small: "length b \<le> MaxBodyBytes \<Longrightarrow> unat (len32 b :: u32) = length b"
  by (simp add: unat_of_nat_small MaxBodyBytes_def)

lemma Decode_frame_wire:
  assumes c: "canonical_frame k f" and s: "sendable k f" and r: "r \<longrightarrow> k \<noteq> []"
  shows "Decode (frame_wire k f) k r = Inr f"
proof -
  have sid: "length (fr_SessionID f) = 16" and len: "unat (len32 (fr_Body f) :: u32) = length (fr_Body f)"
    using c s by (simp_all add: canonical_frame_def sendable_def body_len_small)
  note sl = frame_wire_slices [OF sid, where rest = "[]", simplified]
  have mac: "drop (length (frame_wire k f) - AuthBytes) (frame_wire k f) =
      macSHA256 k (take (HeaderBytes + length (fr_Body f)) (frame_wire k f))" if "k \<noteq> []"
    using that sid by (simp add: length_frame_wire) (simp add: frame_wire_def length_frame_head AuthBytes_def)
  have flags: "FlagRequiresMAC AND NOT FlagRequiresMAC = 0"
    by (simp add: FlagRequiresMAC_def)
  show ?thesis
    using c s r mac flags
    by (cases "k = []")
      (simp_all add: Decode_def Let_def sl len length_frame_wire [OF sid] canonical_frame_def sendable_def frame_const_defs)
qed

lemma Decode_Inr_D:
  assumes "Decode raw k r = Inr f"
  shows "length raw = HeaderBytes + length (fr_Body f) + (if r \<or> fr_Flags f AND FlagRequiresMAC \<noteq> 0 \<or> k \<noteq> [] then AuthBytes else 0)"
    and "slice 0 8 raw = FrameMagic" and "fr_Version f = ProtocolVersion" and "known (fr_Type f)"
    and "length (fr_Body f) \<le> MaxBodyBytes" and "k \<noteq> [] \<longrightarrow> 16 \<le> length k"
    and "k \<noteq> [] \<longrightarrow> drop (length raw - AuthBytes) raw = macSHA256 k (take (HeaderBytes + length (fr_Body f)) raw)"
    and "U32LE (slice 14 18 raw) = len32 (fr_Body f)"
    and "f = \<lparr>fr_Version = U16LE (slice 8 10 raw), fr_Type = U16LE (slice 10 12 raw), fr_Flags = U16LE (slice 12 14 raw),
         fr_SessionID = slice 18 34 raw, fr_Sequence = U64LE (slice 34 42 raw), fr_Body = slice 42 (42 + length (fr_Body f)) raw\<rparr>"
proof -
  let ?n = "unat (U32LE (slice 14 18 raw))"
  have f: "f = \<lparr>fr_Version = U16LE (slice 8 10 raw), fr_Type = U16LE (slice 10 12 raw), fr_Flags = U16LE (slice 12 14 raw),
      fr_SessionID = slice 18 34 raw, fr_Sequence = U64LE (slice 34 42 raw), fr_Body = slice 42 (42 + ?n) raw\<rparr>"
    and len: "length raw = HeaderBytes + ?n + (if r \<or> fr_Flags f AND FlagRequiresMAC \<noteq> 0 \<or> k \<noteq> [] then AuthBytes else 0)"
    using assms by (auto simp: Decode_def Let_def split: if_splits)
  have n: "length (fr_Body f) = ?n"
    using len by (simp add: f HeaderBytes_def)
  show "length raw = HeaderBytes + length (fr_Body f) + (if r \<or> fr_Flags f AND FlagRequiresMAC \<noteq> 0 \<or> k \<noteq> [] then AuthBytes else 0)"
    using len n by simp
  show "U32LE (slice 14 18 raw) = len32 (fr_Body f)"
    unfolding n by simp
  show "slice 0 8 raw = FrameMagic" "fr_Version f = ProtocolVersion" "known (fr_Type f)"
    using assms f by (auto simp: Decode_def Let_def split: if_splits)
  show "length (fr_Body f) \<le> MaxBodyBytes" "k \<noteq> [] \<longrightarrow> 16 \<le> length k"
    unfolding n using assms by (auto simp: Decode_def Let_def split: if_splits)
  show "k \<noteq> [] \<longrightarrow> drop (length raw - AuthBytes) raw = macSHA256 k (take (HeaderBytes + length (fr_Body f)) raw)"
    unfolding n using assms by (auto simp: Decode_def Let_def split: if_splits)
  show "f = \<lparr>fr_Version = U16LE (slice 8 10 raw), fr_Type = U16LE (slice 10 12 raw), fr_Flags = U16LE (slice 12 14 raw),
      fr_SessionID = slice 18 34 raw, fr_Sequence = U64LE (slice 34 42 raw), fr_Body = slice 42 (42 + length (fr_Body f)) raw\<rparr>"
    unfolding n by (rule f)
qed

lemma Decode_layout:
  assumes dec: "Decode raw k r = Inr f" and c: "canonical_frame k f" and r: "r \<longrightarrow> k \<noteq> []"
  shows "sendable k f \<and> raw = frame_wire k f"
proof -
  note d = Decode_Inr_D [OF dec]
  let ?n = "length (fr_Body f)"
  have len: "length raw = HeaderBytes + ?n + (if k = [] then 0 else AuthBytes)"
    using d(1) c r by (auto simp: canonical_frame_def)
  have head: "frame_head f = take HeaderBytes raw"
  proof -
    have "frame_head f = slice 0 8 raw @ slice 8 10 raw @ slice 10 12 raw @ slice 12 14 raw @ slice 14 18 raw @ slice 18 34 raw @ slice 34 42 raw"
      unfolding frame_head_def d(2) [symmetric] d(8) [symmetric] using len
      by (subst (1 2 3 4 5) d(9)) (simp add: HeaderBytes_def PutU16LE_U16LE PutU32LE_U32LE PutU64LE_U64LE)
    then show ?thesis
      by (simp add: slice_join take_eq_slice HeaderBytes_def)
  qed
  have body: "fr_Body f = slice 42 (42 + ?n) raw"
    by (subst d(9)) simp
  have front: "frame_head f @ fr_Body f = take (HeaderBytes + ?n) raw"
    unfolding head by (subst body) (simp add: HeaderBytes_def take_eq_slice slice_join)
  have "raw = take (HeaderBytes + ?n) raw @ drop (HeaderBytes + ?n) raw"
    by simp
  also have "drop (HeaderBytes + ?n) raw = (if k = [] then [] else macSHA256 k (take (HeaderBytes + ?n) raw))"
    using len d(7) by (auto simp: frame_const_defs)
  finally have "raw = frame_wire k f"
    unfolding frame_wire_def front [symmetric] by simp
  then show ?thesis
    using d(4,5,6) by (simp add: sendable_def)
qed

subsection \<open>The bodies\<close>

lemmas body_const_defs =
  maxNegotiateVersions_def maxNegotiateSuites_def maxSuiteIDLen_def DataChunkHeaderBytes_def MaxDataChunkBytes_def
  MaxBodyBytes_def

definition suite_bytes :: "string \<Rightarrow> bytes" where
  "suite_bytes s = word_of_nat (length s) # bytes_of s"

definition suite_ok :: "string \<Rightarrow> bool" where
  "suite_ok s \<longleftrightarrow> s \<noteq> [] \<and> length s \<le> maxSuiteIDLen"

definition suites_bytes :: "string list \<Rightarrow> bytes" where
  "suites_bytes ss = concat (map suite_bytes ss)"

lemma slice_one: "i < length b \<Longrightarrow> slice i (Suc i) b = [b ! i]"
  by (simp add: slice_def take_Suc hd_drop_conv_nth)

lemma unat_byte_small: "n < 256 \<Longrightarrow> unat (word_of_nat n :: byte) = n"
  by (simp add: unat_of_nat_small)

lemma offerSuiteBytes_layout: "offerSuiteBytes out ss = out @ suites_bytes ss"
  by (induction ss arbitrary: out) (simp_all add: suites_bytes_def suite_bytes_def)

lemma offerSuiteCheck_ok: "offerSuiteCheck ss = None \<longleftrightarrow> list_all suite_ok ss"
  by (induction ss) (simp_all add: suite_ok_def)

lemma parseSuites_bytes:
  assumes "list_all suite_ok ss"
  shows "parseSuites (pre @ suites_bytes ss @ rest) (length pre) (length ss) acc =
    Inr (acc @ ss, length pre + length (suites_bytes ss))"
  using assms
proof (induction ss arbitrary: pre acc)
  case (Cons s ss)
  let ?body = "pre @ suites_bytes (s # ss) @ rest"
  have s: "s \<noteq> []" "length s \<le> 96" and ss: "list_all suite_ok ss"
    using Cons.prems by (simp_all, simp_all add: suite_ok_def maxSuiteIDLen_def)
  have body: "?body = (pre @ suite_bytes s) @ suites_bytes ss @ rest"
    by (simp add: suites_bytes_def)
  have len: "unat (?body ! length pre) = length s"
    using s by (simp add: suites_bytes_def suite_bytes_def nth_append unat_byte_small)
  have sl: "slice (Suc (length pre)) (Suc (length pre + length s)) ?body = bytes_of s"
    by (simp add: suites_bytes_def suite_bytes_def slice_def)
  have "parseSuites ?body (length pre) (length (s # ss)) acc =
      parseSuites ?body (length (pre @ suite_bytes s)) (length ss) (acc @ [s])"
    using s len sl by (simp add: Let_def maxSuiteIDLen_def) (simp add: suites_bytes_def suite_bytes_def)
  also have "\<dots> = Inr ((acc @ [s]) @ ss, length (pre @ suite_bytes s) + length (suites_bytes ss))"
    unfolding body by (rule Cons.IH [OF ss])
  finally show ?case
    by (simp add: suites_bytes_def)
qed (simp add: suites_bytes_def)

lemma parseSuites_sound:
  assumes "parseSuites body off n acc = Inr (out, off')" and "off \<le> length body"
  shows "\<exists>ss. out = acc @ ss \<and> length ss = n \<and> list_all suite_ok ss \<and> off' \<le> length body \<and> off \<le> off' \<and>
    slice off off' body = suites_bytes ss"
  using assms
proof (induction body off n acc rule: parseSuites.induct)
  case (1 body off acc)
  then show ?case
    by (simp add: suites_bytes_def slice_def)
next
  case (2 body off i acc)
  let ?n = "unat (body ! off)"
  have c: "off < length body" "?n \<noteq> 0" "?n \<le> maxSuiteIDLen" "Suc (off + ?n) \<le> length body"
    and rec: "parseSuites body (Suc (off + ?n)) i (acc @ [string_of (slice (Suc off) (Suc (off + ?n)) body)]) = Inr (out, off')"
    using 2(2) by (auto simp: Let_def not_le not_less split: if_splits)
  let ?s = "string_of (slice (Suc off) (Suc (off + ?n)) body)"
  have "\<exists>ss. out = (acc @ [?s]) @ ss \<and> length ss = i \<and> list_all suite_ok ss \<and> off' \<le> length body \<and>
      Suc (off + ?n) \<le> off' \<and> slice (Suc (off + ?n)) off' body = suites_bytes ss"
    using 2(1) c rec by simp
  then obtain ss where ss: "out = (acc @ [?s]) @ ss" "length ss = i" "list_all suite_ok ss" "off' \<le> length body"
      "Suc (off + ?n) \<le> off'" "slice (Suc (off + ?n)) off' body = suites_bytes ss"
    by blast
  have len: "length ?s = ?n"
    using c(4) by simp
  have s: "suite_ok ?s"
    using c by (auto simp: suite_ok_def simp flip: length_0_conv)
  have "slice off off' body = slice off (Suc off) body @ slice (Suc off) (Suc (off + ?n)) body @ slice (Suc (off + ?n)) off' body"
    using ss(5) by (simp add: slice_join)
  also have "slice off (Suc off) body = [body ! off]"
    using c(1) by (rule slice_one)
  finally have "slice off off' body = suites_bytes (?s # ss)"
    using ss(6) len by (simp add: suites_bytes_def suite_bytes_def)
  then show ?case
    using ss s by (intro exI [of _ "?s # ss"]) simp
qed

lemma offer_body_iff:
  "EncodeNegotiateOfferBody vs ss = Inr b \<longleftrightarrow>
   vs \<noteq> [] \<and> length vs \<le> 8 \<and> length ss \<le> 8 \<and> list_all suite_ok ss \<and>
   b = (word_of_nat (length vs) # vs @ [word_of_nat (length ss)]) @ suites_bytes ss"
  using offerSuiteCheck_ok [of ss]
  by (auto simp: EncodeNegotiateOfferBody_def body_const_defs offerSuiteBytes_layout Let_def split: option.splits if_splits)

lemma offer_body_parses:
  assumes "vs \<noteq> []" "length vs \<le> 8" "length ss \<le> 8" "list_all suite_ok ss"
  shows "ParseNegotiateOfferBody ((word_of_nat (length vs) # vs @ [word_of_nat (length ss)]) @ suites_bytes ss) = Inr (vs, ss)"
proof -
  let ?pre = "word_of_nat (length vs) # vs @ [word_of_nat (length ss)]"
  have p: "parseSuites (?pre @ suites_bytes ss) (length ?pre) (length ss) [] = Inr (ss, length (?pre @ suites_bytes ss))"
    using parseSuites_bytes [OF assms(4), of ?pre "[]" "[]"] by simp
  have n: "unat ((?pre @ suites_bytes ss) ! 0) = length vs" "unat ((?pre @ suites_bytes ss) ! Suc (length vs)) = length ss"
    using assms by (simp_all add: unat_byte_small nth_append)
  have sl: "slice (Suc 0) (Suc (length vs)) (?pre @ suites_bytes ss) = vs"
    by (simp add: slice_def)
  show ?thesis
    using assms p n sl by (simp add: ParseNegotiateOfferBody_def Let_def body_const_defs)
qed

lemma offer_body_sound:
  assumes "ParseNegotiateOfferBody b = Inr (vs, ss)"
  shows "vs \<noteq> []" "length vs \<le> 8" "length ss \<le> 8" "list_all suite_ok ss"
    "b = (word_of_nat (length vs) # vs @ [word_of_nat (length ss)]) @ suites_bytes ss"
proof -
  let ?v = "unat (b ! 0)" and ?s = "unat (b ! Suc (unat (b ! 0)))"
  have c: "?v \<noteq> 0" "?v \<le> 8" "Suc (Suc ?v) \<le> length b" "?s \<le> 8" "vs = slice 1 (Suc ?v) b"
    "parseSuites b (Suc (Suc ?v)) ?s [] = Inr (ss, length b)"
    using assms by (auto simp: ParseNegotiateOfferBody_def Let_def body_const_defs not_less split: if_splits sum.splits)
  obtain ss' where "ss = ss'" "length ss' = ?s" "list_all suite_ok ss'" "slice (Suc (Suc ?v)) (length b) b = suites_bytes ss'"
    using parseSuites_sound [OF c(6,3)] by auto
  then have ss: "length ss = ?s" "list_all suite_ok ss" "slice (Suc (Suc ?v)) (length b) b = suites_bytes ss"
    by simp_all
  have vs: "length vs = ?v"
    using c by simp
  show "vs \<noteq> []" "length vs \<le> 8" "length ss \<le> 8" "list_all suite_ok ss"
    using c(1,2,4) ss vs by (auto simp del: length_slice)
  have "b = slice 0 1 b @ slice 1 (Suc ?v) b @ slice (Suc ?v) (Suc (Suc ?v)) b @ slice (Suc (Suc ?v)) (length b) b"
    using c(3) by (simp add: slice_join)
  moreover have "0 < length b" "Suc ?v < length b"
    using c(3) by linarith+
  then have "slice 0 1 b = [b ! 0]" "slice (Suc ?v) (Suc (Suc ?v)) b = [b ! Suc ?v]"
    using slice_one [of 0 b] slice_one [of "Suc ?v" b] by simp_all
  ultimately show "b = (word_of_nat (length vs) # vs @ [word_of_nat (length ss)]) @ suites_bytes ss"
    unfolding vs ss(1) ss(3) [symmetric] c(5) [symmetric] by simp
qed

lemma offer_body_canonical: "EncodeNegotiateOfferBody vs ss = Inr b \<longleftrightarrow> ParseNegotiateOfferBody b = Inr (vs, ss)"
proof
  assume "EncodeNegotiateOfferBody vs ss = Inr b"
  then show "ParseNegotiateOfferBody b = Inr (vs, ss)"
    unfolding offer_body_iff using offer_body_parses [of vs ss] by (elim conjE) simp
next
  assume "ParseNegotiateOfferBody b = Inr (vs, ss)"
  from offer_body_sound [OF this] show "EncodeNegotiateOfferBody vs ss = Inr b"
    unfolding offer_body_iff by (intro conjI)
qed

lemma accept_body_canonical: "EncodeNegotiateAcceptBody v s = Inr b \<longleftrightarrow> ParseNegotiateAcceptBody b = Inr (v, s)"
proof
  assume "EncodeNegotiateAcceptBody v s = Inr b"
  then have "v \<noteq> 0" "length s \<le> 96" "b = [v, word_of_nat (length s)] @ bytes_of s"
    by (auto simp: EncodeNegotiateAcceptBody_def body_const_defs not_less split: if_splits)
  then show "ParseNegotiateAcceptBody b = Inr (v, s)"
    by (simp add: ParseNegotiateAcceptBody_def body_const_defs Let_def unat_byte_small)
next
  assume parse: "ParseNegotiateAcceptBody b = Inr (v, s)"
  then obtain x y bs where b: "b = x # y # bs"
    by (cases b; cases "tl b") (auto simp: ParseNegotiateAcceptBody_def)
  then have "v = x" "x \<noteq> 0" "unat y \<le> 96" "length bs = unat y" "s = string_of bs"
    using parse by (auto simp: ParseNegotiateAcceptBody_def body_const_defs Let_def not_less split: if_splits)
  then show "EncodeNegotiateAcceptBody v s = Inr b"
    by (simp add: EncodeNegotiateAcceptBody_def body_const_defs b)
qed

lemma chunk_body_layout:
  "EncodeDataChunkBody off d = Inr b \<longleftrightarrow>
   length d \<le> MaxDataChunkBytes \<and> \<not> off > NOT 0 - len64 d \<and> b = PutU64LE off @ PutU32LE (len32 d) @ d"
  by (auto simp: EncodeDataChunkBody_def Let_def copy_at_make copy_at_fill DataChunkHeaderBytes_def simp flip: append_assoc)

lemma chunk_body_canonical: "EncodeDataChunkBody off d = Inr b \<longleftrightarrow> ParseDataChunkBody b = Inr (off, d)"
proof -
  have len: "ucast (len32 d :: u32) = (len64 d :: u64)" if "length d \<le> MaxDataChunkBytes"
    using that by (simp add: word_unat_eq_iff unat_ucast_u64 unat_of_nat_small body_const_defs)
  have unat: "unat (len32 d :: u32) = length d" if "length d \<le> MaxDataChunkBytes"
    using that by (simp add: unat_of_nat_small body_const_defs)
  have enc: "ParseDataChunkBody (PutU64LE off @ PutU32LE (len32 d) @ d) = Inr (off, d)"
    if "length d \<le> MaxDataChunkBytes" "\<not> off > NOT 0 - len64 d"
    using that unat len by (simp add: ParseDataChunkBody_def Let_def DataChunkHeaderBytes_def slice_def)
  have dec: "length d \<le> MaxDataChunkBytes \<and> \<not> off > NOT 0 - len64 d \<and> b = PutU64LE off @ PutU32LE (len32 d) @ d"
    if p: "ParseDataChunkBody b = Inr (off, d)"
  proof -
    let ?n = "U32LE (slice 8 12 b)"
    have c: "12 \<le> length b" "12 + unat ?n = length b" "unat ?n \<le> MaxDataChunkBytes" "\<not> off > NOT 0 - ucast ?n"
      "off = U64LE (slice 0 8 b)" "d = drop 12 b"
      using p by (auto simp: ParseDataChunkBody_def Let_def DataChunkHeaderBytes_def not_less split: if_splits)
    have ld: "length d = unat ?n"
      using c(2,6) by simp
    then have n: "?n = len32 d"
      by simp
    have d: "length d \<le> MaxDataChunkBytes"
      using c(3) ld by simp
    have "b = take 12 b @ drop 12 b"
      by simp
    also have "take 12 b = slice 0 8 b @ slice 8 12 b"
      by (simp add: slice_join take_eq_slice)
    also have "slice 0 8 b @ slice 8 12 b = PutU64LE off @ PutU32LE (len32 d)"
      using c(1) unfolding c(5) n [symmetric] by (simp add: PutU64LE_U64LE PutU32LE_U32LE)
    finally have "b = PutU64LE off @ PutU32LE (len32 d) @ d"
      using c(6) by simp
    moreover have "\<not> off > NOT 0 - len64 d"
      using c(4) len [OF d] unfolding n by simp
    ultimately show ?thesis
      using d by blast
  qed
  show ?thesis
    unfolding chunk_body_layout
  proof
    assume "length d \<le> MaxDataChunkBytes \<and> \<not> off > NOT 0 - len64 d \<and> b = PutU64LE off @ PutU32LE (len32 d) @ d"
    then show "ParseDataChunkBody b = Inr (off, d)"
      using enc by (elim conjE) (simp only: simp_thms)
  qed (rule dec)
qed

lemma peer_auth_body:
  assumes "d = ''i2r'' \<or> d = ''r2i''" and "16 \<le> length p"
  shows "ParsePeerAuthBody (EncodePeerAuthBody d p) = Inr (d, p)"
proof -
  have "length d = 3"
    using assms(1) by auto
  then show ?thesis
    using assms by (auto simp: ParsePeerAuthBody_def EncodePeerAuthBody_def peerAuthDirLen_def)
qed

subsection \<open>Properties\<close>

text \<open>
  C37: On frames with the protocol's version, a 16-byte session id and the flag that says
  whether a key is in use, \<open>Encode\<close> and \<open>Decode\<close> under the same key are inverse to each other:
  a byte string is what the encoder produces for a frame exactly when the decoder returns that
  frame for it.  So every encoded frame is accepted and read back, and an accepted byte string
  has no second frame, no second spelling and carries a valid authenticator when there is a key.
\<close>

theorem frame_roundtrip:
  assumes "canonical_frame k f" and "r \<longrightarrow> k \<noteq> []"
  shows "Encode f k = Inr raw \<longleftrightarrow> Decode raw k r = Inr f"
  using Encode_Inr_iff [OF assms(1)] Decode_frame_wire [OF assms(1) _ assms(2)] Decode_layout [OF _ assms]
  by metis

theorem frame_roundtrip_witness:
  "\<exists>raw. Encode \<lparr>fr_Version = 1, fr_Type = 6, fr_Flags = 0, fr_SessionID = replicate 16 7, fr_Sequence = 5, fr_Body = [1, 2]\<rparr> [] = Inr raw \<and>
     Decode raw [] False =
       Inr \<lparr>fr_Version = 1, fr_Type = 6, fr_Flags = 0, fr_SessionID = replicate 16 7, fr_Sequence = 5, fr_Body = [1, 2]\<rparr>"
proof -
  define f where "f = \<lparr>fr_Version = 1, fr_Type = 6, fr_Flags = 0, fr_SessionID = replicate 16 7, fr_Sequence = 5, fr_Body = [1, 2]\<rparr>"
  have c: "canonical_frame [] f" and s: "sendable [] f"
    by (simp_all add: f_def canonical_frame_def sendable_def known_def frame_const_defs message_type_defs)
  have "Encode f [] = Inr (frame_wire [] f)"
    using c s by (rule Encode_sendable)
  then show ?thesis
    using frame_roundtrip [OF c, of False "frame_wire [] f"] unfolding f_def by blast
qed

text \<open>
  C38: The bodies of the negotiation offer, the negotiation accept and the data chunk are
  canonical: for each, a byte string is the encoding of a value exactly when the parser returns
  that value for it.  In particular a data chunk is accepted only when offset plus length stays
  below \<open>2^64\<close>, and an offer only with one to eight versions and at most eight suite names of
  1 to 96 bytes with nothing behind them.
\<close>

theorem bodies_canonical:
  "(EncodeNegotiateOfferBody vs ss = Inr b \<longleftrightarrow> ParseNegotiateOfferBody b = Inr (vs, ss)) \<and>
   (EncodeNegotiateAcceptBody v s = Inr b \<longleftrightarrow> ParseNegotiateAcceptBody b = Inr (v, s)) \<and>
   (EncodeDataChunkBody off d = Inr b \<longleftrightarrow> ParseDataChunkBody b = Inr (off, d))"
  using offer_body_canonical accept_body_canonical chunk_body_canonical by simp

end
