(* ===== verification/Driver.thy ===== *)
theory Driver
  imports Protocol
begin

text \<open>
  The protocol driver: \<open>internal/protocol/driver.go\<close>.  It maps inbound frames onto the session
  and builds the outbound ones.  A method returns the driver it leaves behind and the error; the
  receiver is a driver, not nil.  The session cipher is the parameter \<open>A\<close>.
\<close>

subsection \<open>The driver and its operations\<close>

record driver =
  dr_Session :: session
  dr_SessionID :: bytes
  dr_SendSeq :: u64
  dr_RecvSeq :: u64
  dr_MACKey :: bytes
  dr_AEADKey :: bytes
  dr_AuthKey :: bytes
  dr_AuthDir :: string
  dr_ArchiveKey :: bytes
  dr_RequireMAC :: bool
  dr_LastPlaintext :: bytes
  dr_TrackDataChunks :: bool
  dr_NextDataOffset :: u64
  dr_NextSendOffset :: u64

text \<open>Errors of the protocol, session and crypto packages pass through unchanged.\<close>

datatype drv_error = DrvProto proto_error | DrvSession sess_error | DrvCrypto crypto_error

definition drv_fail :: "string \<Rightarrow> string \<Rightarrow> drv_error" where
  "drv_fail code msg = DrvProto (proto_fail code msg)"

fun drv_proof_error :: "proof_error \<Rightarrow> drv_error" where
  "drv_proof_error (ProofSession e) = DrvSession e"
| "drv_proof_error (ProofCrypto e) = DrvCrypto e"

definition NewDriver :: "version list \<Rightarrow> bytes \<Rightarrow> bytes \<Rightarrow> bool \<Rightarrow> driver" where
  "NewDriver offered sessionID macKey requireMAC =
     \<lparr>dr_Session = NewSession offered, dr_SessionID = sessionID, dr_SendSeq = 1, dr_RecvSeq = 1,
      dr_MACKey = macKey, dr_AEADKey = [], dr_AuthKey = [], dr_AuthDir = [], dr_ArchiveKey = [],
      dr_RequireMAC = requireMAC, dr_LastPlaintext = [], dr_TrackDataChunks = False,
      dr_NextDataOffset = 0, dr_NextSendOffset = 0\<rparr>"

definition NewDriverWithSuites :: "version list \<Rightarrow> string list \<Rightarrow> bytes \<Rightarrow> bytes \<Rightarrow> bool \<Rightarrow> driver" where
  "NewDriverWithSuites offered suites sessionID macKey requireMAC =
     (let d = NewDriver offered sessionID macKey requireMAC;
          d = d\<lparr>dr_Session := NewWithSuites offered suites\<rparr>
      in d\<lparr>dr_Session := (dr_Session d)\<lparr>se_Transcript := Some NewTranscript\<rparr>\<rparr>)"

definition SetAEADKey :: "driver \<Rightarrow> bytes \<Rightarrow> driver \<times> drv_error option" where
  "SetAEADKey d key =
     (if length key \<noteq> AEADKeySize
        then (d, Some (drv_fail ''aead'' (''key must be '' @ itoa AEADKeySize @ '' bytes'')))
      else (d\<lparr>dr_AEADKey := key\<rparr>, None))"

definition InstallTrafficKey :: "driver \<Rightarrow> bytes \<Rightarrow> driver \<times> drv_error option" where
  "InstallTrafficKey d rootKey =
     (if se_State (dr_Session d) \<noteq> SessActive then (d, Some (drv_fail ''state'' ''InstallTrafficKey requires ACTIVE''))
      else
        case se_Transcript (dr_Session d) of
          None \<Rightarrow> (d, Some (drv_fail ''transcript'' ''transcript required''))
        | Some t \<Rightarrow>
            if se_SelectedSuite (dr_Session d) = [] then (d, Some (drv_fail ''suite'' ''no selected suite''))
            else
              (case TrafficKey rootKey (TranscriptDigest t) (dr_SessionID d) (se_SelectedSuite (dr_Session d)) of
                 Inl err \<Rightarrow> (d, Some (drv_fail ''aead'' (crypto_error_text err)))
               | Inr key \<Rightarrow> SetAEADKey d key))"

definition dataAAD :: "driver \<Rightarrow> message_type \<Rightarrow> u64 \<Rightarrow> bytes" where
  "dataAAD d typ seq =
     (let buf = FrameMagic;
          buf = buf @ PutU16LE typ;
          buf = buf @ dr_SessionID d
      in buf @ PutU64LE seq)"

text \<open>A method of the session run on the driver's session.\<close>

definition on_session :: "driver \<Rightarrow> session \<times> sess_error option \<Rightarrow> driver \<times> drv_error option" where
  "on_session d r = (d\<lparr>dr_Session := fst r\<rparr>, map_option DrvSession (snd r))"

text \<open>The cases of the switch in \<open>Handle\<close>, up to the final increment.\<close>

definition handleOffer :: "driver \<Rightarrow> frame \<Rightarrow> driver \<times> drv_error option" where
  "handleOffer d f =
     (if se_State (dr_Session d) = SessNew then
        if length (fr_Body f) > 0 then
          (case ParseNegotiateOfferBody (fr_Body f) of
             Inl err \<Rightarrow> (d, Some (DrvProto err))
           | Inr (vers, suites) \<Rightarrow>
               let s = (dr_Session d)\<lparr>se_Offered := vers\<rparr>;
                   s = (if length suites > 0 then s\<lparr>se_OfferedSuites := suites\<rparr> else s)
               in on_session d (Negotiate s))
        else on_session d (Negotiate (dr_Session d))
      else (d, None))"

definition handleAccept :: "driver \<Rightarrow> frame \<Rightarrow> driver \<times> drv_error option" where
  "handleAccept d f =
     (let hasBody = (length (fr_Body f) > 0) in
      case (if hasBody then ParseNegotiateAcceptBody (fr_Body f) else Inr (0, [])) of
        Inl err \<Rightarrow> (d, Some (DrvProto err))
      | Inr (wireVers, wireSuite) \<Rightarrow>
          let (d, err) = (if se_State (dr_Session d) = SessNew then on_session d (Negotiate (dr_Session d)) else (d, None)) in
          if err \<noteq> None then (d, err)
          else if hasBody then on_session d (ConfirmAccept (dr_Session d) wireVers wireSuite)
          else (d, None))"

definition handlePeerAuth :: "driver \<Rightarrow> frame \<Rightarrow> driver \<times> drv_error option" where
  "handlePeerAuth d f =
     (if length (dr_AuthKey d) > 0 then
        (case ParsePeerAuthBody (fr_Body f) of
           Inl err \<Rightarrow> (d, Some (DrvProto err))
         | Inr (dir, proof) \<Rightarrow> on_session d (AuthenticateProof (dr_Session d) (dr_AuthKey d) (dr_SessionID d) dir proof))
      else on_session d (Authenticate (dr_Session d)))"

definition handleArchiveAuth :: "driver \<Rightarrow> frame \<Rightarrow> driver \<times> drv_error option" where
  "handleArchiveAuth d f =
     (if length (dr_ArchiveKey d) > 0
      then on_session d (AuthorizeArchiveProof (dr_Session d) (dr_ArchiveKey d) (dr_SessionID d) (fr_Body f))
      else on_session d (AuthorizeArchive (dr_Session d)))"

definition handleData :: "aead \<Rightarrow> driver \<Rightarrow> frame \<Rightarrow> driver \<times> drv_error option" where
  "handleData A d f =
     (case (if length (dr_AEADKey d) > 0
            then Open A (dr_AEADKey d) (SequenceNonce (fr_Sequence f)) (dataAAD d TypeData (fr_Sequence f)) (fr_Body f)
            else Inr (fr_Body f)) of
        Inl err \<Rightarrow> (d, Some (drv_fail ''aead'' (crypto_error_text err)))
      | Inr body \<Rightarrow>
          if dr_TrackDataChunks d then
            (case ParseDataChunkBody body of
               Inl err \<Rightarrow> (d, Some (DrvProto err))
             | Inr (off, data) \<Rightarrow>
                 if off \<noteq> dr_NextDataOffset d then
                   if off < dr_NextDataOffset d
                     then (d, Some (drv_fail ''chunk'' (''replay/overlap offset '' @ itoa (unat off) @ '' want '' @ itoa (unat (dr_NextDataOffset d)))))
                   else (d, Some (drv_fail ''chunk'' (''gap offset '' @ itoa (unat off) @ '' want '' @ itoa (unat (dr_NextDataOffset d)))))
                 else
                   let d = d\<lparr>dr_LastPlaintext := data, dr_NextDataOffset := off + len64 data\<rparr>
                   in on_session d (AcceptNext (dr_Session d)))
          else
            let d = d\<lparr>dr_LastPlaintext := body\<rparr>
            in on_session d (AcceptNext (dr_Session d)))"

definition handleSwitch :: "aead \<Rightarrow> driver \<Rightarrow> frame \<Rightarrow> driver \<times> drv_error option" where
  "handleSwitch A d f =
     (if fr_Type f = TypeNegotiateOffer then handleOffer d f
      else if fr_Type f = TypeNegotiateAccept then handleAccept d f
      else if fr_Type f = TypePeerAuth then handlePeerAuth d f
      else if fr_Type f = TypeArchiveAuth then handleArchiveAuth d f
      else if fr_Type f = TypeActivate then on_session d (Activate (dr_Session d))
      else if fr_Type f = TypeData then handleData A d f
      else if fr_Type f = TypeClose then on_session d (CloseSession (dr_Session d))
      else if fr_Type f = TypeFailure
        then (d\<lparr>dr_Session := (dr_Session d)\<lparr>se_State := SessFailed\<rparr>\<rparr>, Some (drv_fail ''peer'' ''peer failure frame''))
      else (d, Some (drv_fail ''type'' ''unhandled message type'')))"

definition Handle :: "aead \<Rightarrow> driver \<Rightarrow> frame \<Rightarrow> driver \<times> drv_error option" where
  "Handle A d f =
     (if fr_SessionID f \<noteq> dr_SessionID d then (d, Some (drv_fail ''session'' ''session id mismatch''))
      else if fr_Sequence f \<noteq> dr_RecvSeq d
        then (d, Some (drv_fail ''sequence'' (''expected recv '' @ itoa (unat (dr_RecvSeq d)) @ '' got '' @ itoa (unat (fr_Sequence f)))))
      else if CriticalUnknown (fr_Type f) then (d, Some (drv_fail ''critical'' ''unknown message type''))
      else
        case handleSwitch A d f of
          (d, Some err) \<Rightarrow> (d, Some err)
        | (d, None) \<Rightarrow> (d\<lparr>dr_RecvSeq := dr_RecvSeq d + 1\<rparr>, None))"

definition EncodeFrame :: "aead \<Rightarrow> driver \<Rightarrow> message_type \<Rightarrow> bytes \<Rightarrow> driver \<times> (drv_error + bytes)" where
  "EncodeFrame A d typ body =
     (let seq = dr_SendSeq d in
      case (if typ = TypeData \<and> length (dr_AEADKey d) > 0
            then Seal A (dr_AEADKey d) (SequenceNonce seq) (dataAAD d TypeData seq) body
            else Inr body) of
        Inl err \<Rightarrow> (d, Inl (drv_fail ''aead'' (crypto_error_text err)))
      | Inr body \<Rightarrow>
          let f = \<lparr>fr_Version = 0, fr_Type = typ, fr_Flags = 0, fr_SessionID = dr_SessionID d, fr_Sequence = seq, fr_Body = body\<rparr>;
              f = (if dr_RequireMAC d \<or> length (dr_MACKey d) > 0 then f\<lparr>fr_Flags := FlagRequiresMAC\<rparr> else f) in
          case Encode f (dr_MACKey d) of
            Inl err \<Rightarrow> (d, Inl (DrvProto err))
          | Inr raw \<Rightarrow> (d\<lparr>dr_SendSeq := dr_SendSeq d + 1\<rparr>, Inr raw))"

definition EncodeNegotiateOffer :: "aead \<Rightarrow> driver \<Rightarrow> version list \<Rightarrow> driver \<times> (drv_error + bytes)" where
  "EncodeNegotiateOffer A d vers =
     (let suites = se_OfferedSuites (dr_Session d);
          suites = (if length suites = 0 then LocalSuites else suites) in
      case EncodeNegotiateOfferBody vers suites of
        Inl err \<Rightarrow> (d, Inl (DrvProto err))
      | Inr body \<Rightarrow> EncodeFrame A d TypeNegotiateOffer body)"

definition EncodeNegotiateAccept :: "aead \<Rightarrow> driver \<Rightarrow> driver \<times> (drv_error + bytes)" where
  "EncodeNegotiateAccept A d =
     (let (d, err) = (if se_State (dr_Session d) = SessNew then on_session d (Negotiate (dr_Session d)) else (d, None)) in
      case err of
        Some e \<Rightarrow> (d, Inl e)
      | None \<Rightarrow>
          if se_State (dr_Session d) \<noteq> SessNegotiated
            then (d, Inl (drv_fail ''state'' ''EncodeNegotiateAccept requires NEGOTIATED''))
          else
            (case EncodeNegotiateAcceptBody (se_Selected (dr_Session d)) (se_SelectedSuite (dr_Session d)) of
               Inl err \<Rightarrow> (d, Inl (DrvProto err))
             | Inr body \<Rightarrow> EncodeFrame A d TypeNegotiateAccept body))"

definition EncodeDataChunk :: "aead \<Rightarrow> driver \<Rightarrow> bytes \<Rightarrow> driver \<times> (drv_error + bytes)" where
  "EncodeDataChunk A d data =
     (case EncodeDataChunkBody (dr_NextSendOffset d) data of
        Inl err \<Rightarrow> (d, Inl (DrvProto err))
      | Inr body \<Rightarrow>
          (case EncodeFrame A d TypeData body of
             (d, Inl err) \<Rightarrow> (d, Inl err)
           | (d, Inr raw) \<Rightarrow> (d\<lparr>dr_NextSendOffset := dr_NextSendOffset d + len64 data\<rparr>, Inr raw)))"

text \<open>Send a proof, then apply it to the own session.\<close>

definition EncodePeerAuth :: "aead \<Rightarrow> driver \<Rightarrow> driver \<times> (drv_error + bytes)" where
  "EncodePeerAuth A d =
     (if length (dr_AuthKey d) = 0 then (d, Inl (drv_fail ''auth'' ''AuthKey required''))
      else
        let dir = (if dr_AuthDir d = [] then ''i2r'' else dr_AuthDir d) in
        case MakeAuthProof (dr_Session d) (dr_AuthKey d) (dr_SessionID d) dir of
          Inl err \<Rightarrow> (d, Inl (drv_proof_error err))
        | Inr proof \<Rightarrow>
            (case EncodeFrame A d TypePeerAuth (EncodePeerAuthBody dir proof) of
               (d, Inl err) \<Rightarrow> (d, Inl err)
             | (d, Inr raw) \<Rightarrow>
                 (case on_session d (AuthenticateProof (dr_Session d) (dr_AuthKey d) (dr_SessionID d) dir proof) of
                    (d, Some err) \<Rightarrow> (d, Inl err)
                  | (d, None) \<Rightarrow> (d, Inr raw))))"

definition EncodeArchiveAuth :: "aead \<Rightarrow> driver \<Rightarrow> driver \<times> (drv_error + bytes)" where
  "EncodeArchiveAuth A d =
     (if length (dr_ArchiveKey d) = 0 then (d, Inl (drv_fail ''archive'' ''ArchiveKey required''))
      else
        case MakeArchiveProof (dr_Session d) (dr_ArchiveKey d) (dr_SessionID d) of
          Inl err \<Rightarrow> (d, Inl (drv_proof_error err))
        | Inr proof \<Rightarrow>
            (case EncodeFrame A d TypeArchiveAuth proof of
               (d, Inl err) \<Rightarrow> (d, Inl err)
             | (d, Inr raw) \<Rightarrow>
                 (case on_session d (AuthorizeArchiveProof (dr_Session d) (dr_ArchiveKey d) (dr_SessionID d) proof) of
                    (d, Some err) \<Rightarrow> (d, Inl err)
                  | (d, None) \<Rightarrow> (d, Inr raw))))"

text \<open>The frame is returned also when it could be decoded but not handled.\<close>

definition DecodeAndHandle :: "aead \<Rightarrow> driver \<Rightarrow> bytes \<Rightarrow> driver \<times> frame option \<times> drv_error option" where
  "DecodeAndHandle A d raw =
     (case Decode raw (dr_MACKey d) (dr_RequireMAC d) of
        Inl err \<Rightarrow> (d, None, Some (DrvProto err))
      | Inr f \<Rightarrow> let (d, err) = Handle A d f in (d, Some f, err))"

subsection \<open>The driver only takes steps of the session\<close>

lemma on_session_fields [simp]:
  "dr_Session (fst (on_session d r)) = fst r" "snd (on_session d r) = map_option DrvSession (snd r)"
  "dr_SessionID (fst (on_session d r)) = dr_SessionID d" "dr_RecvSeq (fst (on_session d r)) = dr_RecvSeq d"
  "dr_MACKey (fst (on_session d r)) = dr_MACKey d" "dr_SendSeq (fst (on_session d r)) = dr_SendSeq d" "dr_RequireMAC (fst (on_session d r)) = dr_RequireMAC d"
  by (simp_all add: on_session_def)

lemma session_moves [intro]:
  "sess_step s (fst (Negotiate s))" "sess_step s (fst (ConfirmAccept s v suite))" "sess_step s (fst (Authenticate s))"
  "sess_step s (fst (AuthenticateProof s k i dir p))" "sess_step s (fst (AuthorizeArchive s))"
  "sess_step s (fst (AuthorizeArchiveProof s k i p))" "sess_step s (fst (Activate s))" "sess_step s (fst (AcceptNext s))"
  "sess_step s (fst (CloseSession s))"
  by (metis prod.collapse sess_step.intros)+

definition sess_moved :: "session \<Rightarrow> session \<Rightarrow> bool" where
  "sess_moved = sess_step\<^sup>*\<^sup>*"

lemma sess_moved_refl [simp, intro]: "sess_moved s s"
  by (simp add: sess_moved_def)

lemma sess_moved_step: "sess_step s t \<Longrightarrow> sess_moved s t"
  by (simp add: sess_moved_def r_into_rtranclp)

lemma sess_moved_trans: "sess_moved s t \<Longrightarrow> sess_moved t u \<Longrightarrow> sess_moved s u"
  by (simp add: sess_moved_def)

lemma sess_moved_reach: "reach i sess_step s \<Longrightarrow> sess_moved s t \<Longrightarrow> reach i sess_step t"
  unfolding sess_moved_def by (rule reach_steps)

text \<open>What handling a frame leaves alone.\<close>

definition same_ends :: "driver \<Rightarrow> driver \<Rightarrow> bool" where
  "same_ends d e \<longleftrightarrow> dr_SendSeq e = dr_SendSeq d \<and> dr_SessionID e = dr_SessionID d \<and> dr_RecvSeq e = dr_RecvSeq d \<and> dr_MACKey e = dr_MACKey d \<and>
     dr_RequireMAC e = dr_RequireMAC d"

definition handled :: "driver \<Rightarrow> driver \<times> drv_error option \<Rightarrow> bool" where
  "handled d r \<longleftrightarrow> same_ends d (fst r) \<and> sess_moved (dr_Session d) (dr_Session (fst r))"

lemma handled_same [simp]: "handled d (d, e)"
  by (simp add: handled_def same_ends_def)

lemma handled_session: "sess_step (dr_Session d) (fst r) \<Longrightarrow> handled d (on_session d r)"
  by (simp add: handled_def same_ends_def sess_moved_step)

lemma handleOffer_handled: "handled d (handleOffer d f)"
proof (cases "se_State (dr_Session d) = SessNew \<and> fr_Body f \<noteq> []")
  case True
  show ?thesis
  proof (cases "ParseNegotiateOfferBody (fr_Body f)")
    case (Inr p)
    obtain vers suites where p: "p = (vers, suites)"
      by fastforce
    let ?s = "(dr_Session d)\<lparr>se_Offered := vers, se_OfferedSuites := (if length suites > 0 then suites else se_OfferedSuites (dr_Session d))\<rparr>"
    have "sess_moved (dr_Session d) (fst (Negotiate ?s))"
      using True sess_moved_trans [OF sess_moved_step [OF st_Offer] sess_moved_step [OF session_moves(1)]] by blast
    moreover have "handleOffer d f = on_session d (Negotiate ?s)"
      using True Inr p by (simp add: handleOffer_def Let_def)
    ultimately show ?thesis
      by (simp add: handled_def same_ends_def)
  qed (use True in \<open>simp add: handleOffer_def\<close>)
qed (auto simp: handleOffer_def intro!: handled_session)

lemma handleAccept_handled: "handled d (handleAccept d f)"
proof -
  define d1 where "d1 = (if se_State (dr_Session d) = SessNew then on_session d (Negotiate (dr_Session d)) else (d, None))"
  have d1: "handled d d1"
    by (auto simp: d1_def intro: handled_session)
  have "handled d (on_session (fst d1) (ConfirmAccept (dr_Session (fst d1)) v suite))" for v suite
    using d1 sess_moved_trans [OF _ sess_moved_step [OF session_moves(2)]] by (simp add: handled_def same_ends_def)
  then show ?thesis
    using d1 unfolding handleAccept_def Let_def d1_def [symmetric]
    by (cases d1) (auto simp: split: sum.split)
qed

lemma handlePeerAuth_handled: "handled d (handlePeerAuth d f)"
  by (auto simp: handlePeerAuth_def intro!: handled_session split: sum.split)

lemma handleArchiveAuth_handled: "handled d (handleArchiveAuth d f)"
  by (auto simp: handleArchiveAuth_def intro!: handled_session)

lemma handled_update:
  "sess_step (dr_Session d) (fst r) \<Longrightarrow> handled d (on_session (d\<lparr>dr_LastPlaintext := x, dr_NextDataOffset := o'\<rparr>) r)"
  "sess_step (dr_Session d) (fst r) \<Longrightarrow> handled d (on_session (d\<lparr>dr_LastPlaintext := x\<rparr>) r)"
  by (simp_all add: handled_def same_ends_def sess_moved_step)

lemma handleData_handled: "handled d (handleData A d f)"
  by (auto simp: handleData_def Let_def intro!: handled_update split: sum.split prod.split)

lemma handleSwitch_handled: "handled d (handleSwitch A d f)"
proof -
  have "handled d (d\<lparr>dr_Session := (dr_Session d)\<lparr>se_State := SessFailed\<rparr>\<rparr>, e)" for e
    by (simp add: handled_def same_ends_def sess_moved_step st_Failure)
  then show ?thesis
    unfolding handleSwitch_def
    by (simp add: handleOffer_handled handleAccept_handled handlePeerAuth_handled handleArchiveAuth_handled handleData_handled
        handled_session session_moves)
qed

lemma Handle_moves:
  assumes "Handle A d f = (e, r)"
  shows "dr_SessionID e = dr_SessionID d" "dr_MACKey e = dr_MACKey d" "dr_RequireMAC e = dr_RequireMAC d"
    "sess_moved (dr_Session d) (dr_Session e)" "r = None \<Longrightarrow> fr_Sequence f = dr_RecvSeq d \<and> fr_SessionID f = dr_SessionID d"
    "dr_RecvSeq e = (if r = None then dr_RecvSeq d + 1 else dr_RecvSeq d)"
  using assms handleSwitch_handled [of d A f]
  by (auto simp: Handle_def handled_def same_ends_def split: if_splits prod.splits option.splits)

lemma Handle_send: "Handle A d f = (e, r) \<Longrightarrow> dr_SendSeq e = dr_SendSeq d"
  using handleSwitch_handled [of d A f]
  by (auto simp: Handle_def handled_def same_ends_def split: if_splits prod.splits option.splits)

subsection \<open>What the driver sends\<close>

text \<open>The frame as it goes out: version and flag filled in.\<close>

definition drv_frame :: "driver \<Rightarrow> message_type \<Rightarrow> bytes \<Rightarrow> frame" where
  "drv_frame d typ body = \<lparr>fr_Version = ProtocolVersion, fr_Type = typ,
     fr_Flags = (if dr_MACKey d = [] then 0 else FlagRequiresMAC), fr_SessionID = dr_SessionID d,
     fr_Sequence = dr_SendSeq d, fr_Body = body\<rparr>"

definition drv_ok :: "driver \<Rightarrow> bool" where
  "drv_ok d \<longleftrightarrow> length (dr_SessionID d) = 16 \<and> (dr_RequireMAC d \<longrightarrow> dr_MACKey d \<noteq> []) \<and>
     (dr_MACKey d \<noteq> [] \<longrightarrow> 16 \<le> length (dr_MACKey d))"

lemma drv_frame_canonical: "length (dr_SessionID d) = 16 \<Longrightarrow> canonical_frame (dr_MACKey d) (drv_frame d typ body)"
  by (simp add: drv_frame_def canonical_frame_def)

text \<open>The body that goes out: sealed for a data frame once there is a traffic key.\<close>

definition wire_body :: "aead \<Rightarrow> driver \<Rightarrow> message_type \<Rightarrow> bytes \<Rightarrow> bytes" where
  "wire_body A d typ body =
     (if typ = TypeData \<and> dr_AEADKey d \<noteq> []
      then aead_seal A (dr_AEADKey d) (SequenceNonce (dr_SendSeq d)) body (dataAAD d TypeData (dr_SendSeq d)) else body)"

lemma length_SequenceNonce [simp]: "length (SequenceNonce n) = AEADNonceSize"
  by (simp add: SequenceNonce_def AEADNonceSize_def)

lemma Encode_default_version: "fr_Version f = 0 \<Longrightarrow> Encode f k = Encode (f\<lparr>fr_Version := ProtocolVersion\<rparr>) k"
  unfolding Encode_def by (simp add: ProtocolVersion_def)

lemma Encode_driver_frame:
  assumes sid: "length (fr_SessionID f) = 16" and v: "fr_Version f = 0"
    and fl: "fr_Flags f = (if r \<or> k \<noteq> [] then FlagRequiresMAC else 0)" and enc: "Encode f k = Inr raw"
  shows "sendable k (f\<lparr>fr_Version := ProtocolVersion, fr_Flags := (if k = [] then 0 else FlagRequiresMAC)\<rparr>)"
    "raw = frame_wire k (f\<lparr>fr_Version := ProtocolVersion, fr_Flags := (if k = [] then 0 else FlagRequiresMAC)\<rparr>)"
proof -
  let ?f = "f\<lparr>fr_Version := ProtocolVersion, fr_Flags := (if k = [] then 0 else FlagRequiresMAC)\<rparr>"
  have c: "canonical_frame k ?f"
    using sid by (simp add: canonical_frame_def)
  have "k = [] \<Longrightarrow> \<not> r"
    using enc v fl by (auto simp: Encode_def Let_def frame_const_defs split: if_splits)
  then have "?f = f\<lparr>fr_Version := ProtocolVersion\<rparr>"
    using fl by (cases f) auto
  then have "Encode ?f k = Encode f k"
    using Encode_default_version [OF v] by simp
  then show "sendable k ?f" "raw = frame_wire k ?f"
    using Encode_Inr_iff [OF c] enc by simp_all
qed

lemma EncodeFrame_sent:
  assumes "EncodeFrame A d typ body = (e, Inr raw)" and sid: "length (dr_SessionID d) = 16"
  shows "e = d\<lparr>dr_SendSeq := dr_SendSeq d + 1\<rparr>"
    and "raw = frame_wire (dr_MACKey d) (drv_frame d typ (wire_body A d typ body))"
    and "sendable (dr_MACKey d) (drv_frame d typ (wire_body A d typ body))"
proof -
  let ?b = "wire_body A d typ body"
  let ?f = "\<lparr>fr_Version = 0, fr_Type = typ, fr_Flags = (if dr_RequireMAC d \<or> dr_MACKey d \<noteq> [] then FlagRequiresMAC else 0),
    fr_SessionID = dr_SessionID d, fr_Sequence = dr_SendSeq d, fr_Body = ?b\<rparr>"
  have "e = d\<lparr>dr_SendSeq := dr_SendSeq d + 1\<rparr>" and enc: "Encode ?f (dr_MACKey d) = Inr raw"
    using assms(1)
    by (auto simp: EncodeFrame_def wire_body_def Let_def Seal_def split: if_splits sum.splits option.splits)
  then show "e = d\<lparr>dr_SendSeq := dr_SendSeq d + 1\<rparr>"
    by simp
  have "?f\<lparr>fr_Version := ProtocolVersion, fr_Flags := (if dr_MACKey d = [] then 0 else FlagRequiresMAC)\<rparr> = drv_frame d typ ?b"
    by (simp add: drv_frame_def)
  then show "raw = frame_wire (dr_MACKey d) (drv_frame d typ ?b)" "sendable (dr_MACKey d) (drv_frame d typ ?b)"
    using Encode_driver_frame [OF _ _ _ enc, of "dr_RequireMAC d"] sid by simp_all
qed

lemma EncodeFrame_error: "EncodeFrame A d typ body = (e, Inl err) \<Longrightarrow> e = d"
  by (auto simp: EncodeFrame_def Let_def split: sum.splits)

lemma Encode_without_key: "fr_Version f = 0 \<Longrightarrow> fr_Flags f = FlagRequiresMAC \<Longrightarrow> \<exists>e. Encode f [] = Inl e"
  by (auto simp: Encode_def Let_def frame_const_defs)

lemma EncodeFrame_sends:
  assumes ok: "drv_ok d" and b: "length (wire_body A d typ body) \<le> MaxBodyBytes" "known typ"
    and key: "typ = TypeData \<longrightarrow> dr_AEADKey d \<noteq> [] \<longrightarrow> length (dr_AEADKey d) = 32 \<and> length body \<le> MaxBodyBytes"
  shows "EncodeFrame A d typ body =
    (d\<lparr>dr_SendSeq := dr_SendSeq d + 1\<rparr>, Inr (frame_wire (dr_MACKey d) (drv_frame d typ (wire_body A d typ body))))"
proof -
  let ?b = "wire_body A d typ body"
  let ?f = "\<lparr>fr_Version = 0, fr_Type = typ, fr_Flags = (if dr_RequireMAC d \<or> dr_MACKey d \<noteq> [] then FlagRequiresMAC else 0),
    fr_SessionID = dr_SessionID d, fr_Sequence = dr_SendSeq d, fr_Body = ?b\<rparr>"
  have "sendable (dr_MACKey d) (drv_frame d typ ?b)"
    using ok b by (simp add: sendable_def drv_frame_def drv_ok_def)
  then have "Encode (drv_frame d typ ?b) (dr_MACKey d) = Inr (frame_wire (dr_MACKey d) (drv_frame d typ ?b))"
    using ok by (intro Encode_sendable drv_frame_canonical) (simp_all add: drv_ok_def)
  moreover have "Encode ?f (dr_MACKey d) = Encode (drv_frame d typ ?b) (dr_MACKey d)"
    using ok by (subst Encode_default_version) (auto simp: drv_frame_def drv_ok_def)
  ultimately have enc: "Encode ?f (dr_MACKey d) = Inr (frame_wire (dr_MACKey d) (drv_frame d typ ?b))"
    by simp
  have body: "(if typ = TypeData \<and> length (dr_AEADKey d) > 0
      then Seal A (dr_AEADKey d) (SequenceNonce (dr_SendSeq d)) (dataAAD d TypeData (dr_SendSeq d)) body else Inr body) = Inr ?b"
    using key by (auto simp: wire_body_def Seal_def newAEAD_def AEADKeySize_def MaxBodyBytes_def)
  show ?thesis
    unfolding EncodeFrame_def Let_def body using enc
    by (cases "dr_RequireMAC d \<or> dr_MACKey d \<noteq> []") (auto split: if_splits)
qed

lemma frame_wire_sequence:
  "length (fr_SessionID f) = 16 \<Longrightarrow> U64LE (slice 34 42 (frame_wire k f)) = fr_Sequence f"
  using frame_wire_slices(7) [of f k "[]"] by simp

subsection \<open>Runs of a driver\<close>

text \<open>
  Everything a process does with a driver: inbound bytes, each kind of outbound frame, keys,
  and the two session methods the handshake calls directly.
\<close>

datatype drv_event =
  EvReceive bytes | EvFrame message_type bytes | EvOffer "version list" | EvAccept | EvChunk bytes | EvPeerAuth
| EvArchiveAuth | EvAEADKey bytes | EvTrafficKey bytes | EvKeys bytes bytes string | EvNegotiate | EvActivate

definition sent_only :: "driver \<times> (drv_error + bytes) \<Rightarrow> driver \<times> frame list \<times> bytes list" where
  "sent_only r = (fst r, [], case snd r of Inl _ \<Rightarrow> [] | Inr raw \<Rightarrow> [raw])"

fun drv_event_step :: "aead \<Rightarrow> driver \<Rightarrow> drv_event \<Rightarrow> driver \<times> frame list \<times> bytes list" where
  "drv_event_step A d (EvReceive raw) =
     (case DecodeAndHandle A d raw of
        (d, Some f, None) \<Rightarrow> (d, [f], [])
      | (d, _, _) \<Rightarrow> (d, [], []))"
| "drv_event_step A d (EvFrame typ body) = sent_only (EncodeFrame A d typ body)"
| "drv_event_step A d (EvOffer vers) = sent_only (EncodeNegotiateOffer A d vers)"
| "drv_event_step A d EvAccept = sent_only (EncodeNegotiateAccept A d)"
| "drv_event_step A d (EvChunk data) = sent_only (EncodeDataChunk A d data)"
| "drv_event_step A d EvPeerAuth = sent_only (EncodePeerAuth A d)"
| "drv_event_step A d EvArchiveAuth = sent_only (EncodeArchiveAuth A d)"
| "drv_event_step A d (EvAEADKey key) = (fst (SetAEADKey d key), [], [])"
| "drv_event_step A d (EvTrafficKey root) = (fst (InstallTrafficKey d root), [], [])"
| "drv_event_step A d (EvKeys auth arch dir) = (d\<lparr>dr_AuthKey := auth, dr_ArchiveKey := arch, dr_AuthDir := dir\<rparr>, [], [])"
| "drv_event_step A d EvNegotiate = (fst (on_session d (Negotiate (dr_Session d))), [], [])"
| "drv_event_step A d EvActivate = (fst (on_session d (Activate (dr_Session d))), [], [])"

fun drv_run :: "aead \<Rightarrow> driver \<Rightarrow> drv_event list \<Rightarrow> driver \<times> frame list \<times> bytes list" where
  "drv_run A d [] = (d, [], [])"
| "drv_run A d (ev # evs) =
     (let (d, fs, raws) = drv_event_step A d ev;
          (d, fs', raws') = drv_run A d evs
      in (d, fs @ fs', raws @ raws'))"

definition raw_sequence :: "bytes \<Rightarrow> u64" where
  "raw_sequence raw = U64LE (slice 34 42 raw)"

text \<open>What one sending operation does to the driver and puts on the wire.\<close>

definition send_step :: "driver \<Rightarrow> driver \<times> frame list \<times> bytes list \<Rightarrow> bool" where
  "send_step d r \<longleftrightarrow> (case r of (e, fs, raws) \<Rightarrow>
     fs = [] \<and> dr_SessionID e = dr_SessionID d \<and> dr_MACKey e = dr_MACKey d \<and> dr_RequireMAC e = dr_RequireMAC d \<and>
     dr_RecvSeq e = dr_RecvSeq d \<and> sess_moved (dr_Session d) (dr_Session e) \<and>
     (raws = [] \<and> (dr_SendSeq e = dr_SendSeq d \<or> dr_SendSeq e = dr_SendSeq d + 1) \<or>
      (\<exists>raw. raws = [raw] \<and> raw_sequence raw = dr_SendSeq d \<and> dr_SendSeq e = dr_SendSeq d + 1)))"

lemma send_step_EncodeFrame:
  assumes "length (dr_SessionID d) = 16"
  shows "send_step d (sent_only (EncodeFrame A d typ body))"
proof (cases "snd (EncodeFrame A d typ body)")
  case (Inl err)
  then have "fst (EncodeFrame A d typ body) = d"
    by (metis EncodeFrame_error prod.collapse)
  then show ?thesis
    using Inl by (simp add: sent_only_def send_step_def)
next
  case (Inr raw)
  then obtain e where "EncodeFrame A d typ body = (e, Inr raw)"
    by (metis prod.collapse)
  note sent = EncodeFrame_sent [OF this assms]
  have "raw_sequence raw = dr_SendSeq d"
    unfolding raw_sequence_def sent(2) using assms by (subst frame_wire_sequence) (simp_all add: drv_frame_def)
  then show ?thesis
    using \<open>EncodeFrame A d typ body = (e, Inr raw)\<close> sent(1) by (simp add: sent_only_def send_step_def)
qed

lemma EncodeFrame_session: "EncodeFrame A d typ body = (e, r) \<Longrightarrow> dr_Session e = dr_Session d \<and> dr_AuthKey e = dr_AuthKey d \<and>
    dr_ArchiveKey e = dr_ArchiveKey d \<and> dr_SessionID e = dr_SessionID d"
  by (auto simp: EncodeFrame_def Let_def split: sum.splits)

lemma send_step_session: "send_step (d\<lparr>dr_Session := s\<rparr>) r \<Longrightarrow> sess_step (dr_Session d) s \<Longrightarrow> send_step d r"
  by (auto simp: send_step_def intro: sess_moved_trans [OF sess_moved_step])

lemma send_step_then_session:
  assumes "send_step d (e, [], raws)" and "sess_step (dr_Session e) (fst r)"
  shows "send_step d (fst (on_session e r), [], if snd r = None then raws else [])"
  using assms sess_moved_trans [OF _ sess_moved_step] by (auto simp: send_step_def on_session_def)

lemma send_step_none: "send_step d (e, [], []) \<longleftrightarrow>
    dr_SessionID e = dr_SessionID d \<and> dr_MACKey e = dr_MACKey d \<and> dr_RequireMAC e = dr_RequireMAC d \<and>
    dr_RecvSeq e = dr_RecvSeq d \<and> sess_moved (dr_Session d) (dr_Session e) \<and>
    (dr_SendSeq e = dr_SendSeq d \<or> dr_SendSeq e = dr_SendSeq d + 1)"
  by (auto simp: send_step_def)

lemma send_step_Inl: "send_step d (d, [], [])"
  by (simp add: send_step_none)

lemma send_step_error [simp]: "send_step d (sent_only (d, Inl err))"
  by (simp add: sent_only_def send_step_none)

lemma send_step_EncodeNegotiateOffer:
  "length (dr_SessionID d) = 16 \<Longrightarrow> send_step d (sent_only (EncodeNegotiateOffer A d vers))"
  by (simp add: EncodeNegotiateOffer_def Let_def send_step_EncodeFrame split: sum.split)

lemma send_step_EncodeNegotiateAccept:
  assumes sid: "length (dr_SessionID d) = 16"
  shows "send_step d (sent_only (EncodeNegotiateAccept A d))"
proof -
  define d1 where "d1 = (if se_State (dr_Session d) = SessNew then on_session d (Negotiate (dr_Session d)) else (d, None))"
  obtain e err where d1': "d1 = (e, err)"
    by fastforce
  have e: "e = d \<or> e = d\<lparr>dr_Session := fst (Negotiate (dr_Session d))\<rparr>"
    using d1_def d1' by (auto simp: on_session_def split: if_splits)
  have step: "send_step d r" if "send_step e r" for r
    using e that send_step_session [OF _ session_moves(1)] by blast
  have "send_step e (sent_only (EncodeFrame A e x y))" for x y
    using e sid by (intro send_step_EncodeFrame) auto
  then have "send_step e (sent_only (EncodeNegotiateAccept A d))"
    unfolding EncodeNegotiateAccept_def d1_def [symmetric] d1'
    by (simp split: option.split sum.split)
  then show ?thesis
    by (rule step)
qed

lemma send_step_EncodeDataChunk:
  assumes sid: "length (dr_SessionID d) = 16"
  shows "send_step d (sent_only (EncodeDataChunk A d data))"
proof (cases "EncodeDataChunkBody (dr_NextSendOffset d) data")
  case (Inr body)
  obtain e r where ef: "EncodeFrame A d TypeData body = (e, r)"
    by fastforce
  have "send_step d (sent_only (e, r))"
    using send_step_EncodeFrame [OF sid, of A TypeData body] ef by simp
  then show ?thesis
    using Inr ef by (cases r) (auto simp: EncodeDataChunk_def sent_only_def send_step_def)
qed (simp add: EncodeDataChunk_def sent_only_def send_step_Inl)

lemma send_step_prove:
  assumes "send_step d (sent_only (e, Inr raw))" "sess_step (dr_Session e) (fst q)"
  shows "send_step d (sent_only (case on_session e q of (d, Some err) \<Rightarrow> (d, Inl err) | (d, None) \<Rightarrow> (d, Inr raw)))"
  using send_step_then_session [OF assms(1) [unfolded sent_only_def, simplified] assms(2)]
  by (cases "snd q") (simp_all add: sent_only_def on_session_def)

lemma send_step_EncodePeerAuth:
  assumes sid: "length (dr_SessionID d) = 16"
  shows "send_step d (sent_only (EncodePeerAuth A d))"
proof -
  define dir where "dir = (if dr_AuthDir d = [] then ''i2r'' else dr_AuthDir d)"
  show ?thesis
  proof (cases "MakeAuthProof (dr_Session d) (dr_AuthKey d) (dr_SessionID d) dir")
    case (Inr p)
    obtain e r where ef: "EncodeFrame A d TypePeerAuth (EncodePeerAuthBody dir p) = (e, r)"
      by fastforce
    have s: "send_step d (sent_only (e, r))"
      using send_step_EncodeFrame [OF sid, of A TypePeerAuth] ef by metis
    show ?thesis
    proof (cases r)
      case (Inr raw)
      then show ?thesis
        using \<open>MakeAuthProof _ _ _ _ = Inr p\<close> ef s send_step_Inl
          send_step_prove [of d e raw "AuthenticateProof (dr_Session e) (dr_AuthKey e) (dr_SessionID e) dir p"]
        by (auto simp: EncodePeerAuth_def sent_only_def dir_def [symmetric] session_moves)
    qed (use \<open>MakeAuthProof _ _ _ _ = Inr p\<close> ef s send_step_Inl in \<open>auto simp: EncodePeerAuth_def sent_only_def dir_def [symmetric]\<close>)
  qed (auto simp: EncodePeerAuth_def sent_only_def send_step_Inl dir_def [symmetric])
qed

lemma send_step_EncodeArchiveAuth:
  assumes sid: "length (dr_SessionID d) = 16"
  shows "send_step d (sent_only (EncodeArchiveAuth A d))"
proof (cases "MakeArchiveProof (dr_Session d) (dr_ArchiveKey d) (dr_SessionID d)")
  case (Inr p)
  obtain e r where ef: "EncodeFrame A d TypeArchiveAuth p = (e, r)"
    by fastforce
  have s: "send_step d (sent_only (e, r))"
    using send_step_EncodeFrame [OF sid, of A TypeArchiveAuth p] ef by simp
  show ?thesis
  proof (cases r)
    case (Inr raw)
    then show ?thesis
      using \<open>MakeArchiveProof _ _ _ = Inr p\<close> ef s send_step_Inl
        send_step_prove [of d e raw "AuthorizeArchiveProof (dr_Session e) (dr_ArchiveKey e) (dr_SessionID e) p"]
      by (auto simp: EncodeArchiveAuth_def sent_only_def session_moves)
  qed (use \<open>MakeArchiveProof _ _ _ = Inr p\<close> ef s send_step_Inl in \<open>auto simp: EncodeArchiveAuth_def sent_only_def\<close>)
qed (simp add: EncodeArchiveAuth_def sent_only_def send_step_Inl)

lemma send_step_event:
  assumes "length (dr_SessionID d) = 16" and "\<And>raw. ev \<noteq> EvReceive raw"
  shows "send_step d (drv_event_step A d ev)"
proof (cases ev)
  case (EvTrafficKey root)
  then show ?thesis
    by (auto simp: send_step_none InstallTrafficKey_def SetAEADKey_def split: option.split sum.split)
next
  case EvNegotiate
  then show ?thesis
    by (auto simp: send_step_none on_session_def intro: sess_moved_step)
next
  case EvActivate
  then show ?thesis
    by (auto simp: send_step_none on_session_def intro: sess_moved_step)
qed (use assms in \<open>auto simp: send_step_EncodeFrame send_step_EncodeNegotiateOffer send_step_EncodeNegotiateAccept
  send_step_EncodeDataChunk send_step_EncodePeerAuth send_step_EncodeArchiveAuth send_step_none SetAEADKey_def\<close>)

lemma DecodeAndHandle_event:
  assumes "drv_event_step A d (EvReceive raw) = (e, fs, raws)"
  shows "raws = [] \<and> dr_SendSeq e = dr_SendSeq d \<and> dr_SessionID e = dr_SessionID d \<and> dr_MACKey e = dr_MACKey d \<and>
    dr_RequireMAC e = dr_RequireMAC d \<and> sess_moved (dr_Session d) (dr_Session e) \<and>
    (fs = [] \<and> dr_RecvSeq e = dr_RecvSeq d \<or>
     (\<exists>f. fs = [f] \<and> Decode raw (dr_MACKey d) (dr_RequireMAC d) = Inr f \<and> fr_Sequence f = dr_RecvSeq d \<and>
       fr_SessionID f = dr_SessionID d \<and> dr_RecvSeq e = dr_RecvSeq d + 1))"
proof (cases "Decode raw (dr_MACKey d) (dr_RequireMAC d)")
  case (Inr f)
  obtain e' r where h: "Handle A d f = (e', r)"
    by fastforce
  have "e = e'" "raws = []" "fs = (if r = None then [f] else [])"
    using assms Inr h by (auto simp: DecodeAndHandle_def split: option.splits)
  then show ?thesis
    using Handle_moves [OF h] Handle_send [OF h] Inr by auto
qed (use assms in \<open>simp add: DecodeAndHandle_def\<close>)

definition run_post :: "driver \<Rightarrow> drv_event list \<Rightarrow> driver \<Rightarrow> frame list \<Rightarrow> bytes list \<Rightarrow> bool" where
  "run_post d evs e fs raws \<longleftrightarrow>
     dr_SessionID e = dr_SessionID d \<and> dr_MACKey e = dr_MACKey d \<and> dr_RequireMAC e = dr_RequireMAC d \<and>
     sess_moved (dr_Session d) (dr_Session e) \<and>
     map fr_Sequence fs = map (\<lambda>i. dr_RecvSeq d + word_of_nat i) [0..<length fs] \<and>
     dr_RecvSeq e = dr_RecvSeq d + word_of_nat (length fs) \<and>
     (\<forall>f\<in>set fs. fr_SessionID f = dr_SessionID d \<and> (\<exists>raw. EvReceive raw \<in> set evs \<and> Decode raw (dr_MACKey d) (dr_RequireMAC d) = Inr f)) \<and>
     (\<exists>ns k. sorted_wrt (<) ns \<and> (\<forall>n\<in>set ns. n < k) \<and> k \<le> length evs \<and>
        map raw_sequence raws = map (\<lambda>n. dr_SendSeq d + word_of_nat n) ns \<and> dr_SendSeq e = dr_SendSeq d + word_of_nat k)"

lemma run_post_Nil: "run_post d [] d [] []"
  by (simp add: run_post_def)

lemma run_post_receive:
  assumes "drv_event_step A d (EvReceive raw) = (d1, fs1, raws1)" and "run_post d1 evs e fs raws"
  shows "run_post d (EvReceive raw # evs) e (fs1 @ fs) (raws1 @ raws)"
proof -
  note ev = DecodeAndHandle_event [OF assms(1)]
  obtain ns k where ns: "sorted_wrt (<) ns" "\<forall>n\<in>set ns. n < k" "k \<le> length evs"
      "map raw_sequence raws = map (\<lambda>n. dr_SendSeq d1 + word_of_nat n) ns" "dr_SendSeq e = dr_SendSeq d1 + word_of_nat k"
    using assms(2) by (auto simp: run_post_def)
  have sent: "\<exists>ns k. sorted_wrt (<) ns \<and> (\<forall>n\<in>set ns. n < k) \<and> k \<le> length (EvReceive raw # evs) \<and>
      map raw_sequence (raws1 @ raws) = map (\<lambda>n. dr_SendSeq d + word_of_nat n) ns \<and> dr_SendSeq e = dr_SendSeq d + word_of_nat k"
    using ns ev by (intro exI [of _ ns] exI [of _ k]) simp
  have moved: "sess_moved (dr_Session d) (dr_Session e)"
    using ev assms(2) sess_moved_trans by (auto simp: run_post_def)
  have seqs: "map fr_Sequence (fs1 @ fs) = map (\<lambda>i. dr_RecvSeq d + word_of_nat i) [0..<length (fs1 @ fs)]"
    using ev assms(2) by (auto simp: run_post_def upt_conv_Cons map_Suc_upt [symmetric] comp_def add.assoc simp del: upt_Suc map_Suc_upt)
  show ?thesis
    unfolding run_post_def using ev assms(2) sent moved seqs
    by (intro conjI) (auto simp: run_post_def)
qed

lemma run_post_send:
  assumes "send_step d (d1, fs1, raws1)" and "run_post d1 evs e fs raws"
  shows "run_post d (ev # evs) e (fs1 @ fs) (raws1 @ raws)"
proof -
  obtain ns k where ns: "sorted_wrt (<) ns" "\<forall>n\<in>set ns. n < k" "k \<le> length evs"
      "map raw_sequence raws = map (\<lambda>n. dr_SendSeq d1 + word_of_nat n) ns" "dr_SendSeq e = dr_SendSeq d1 + word_of_nat k"
    using assms(2) by (auto simp: run_post_def)
  define j where "j = (if dr_SendSeq d1 = dr_SendSeq d then 0 else 1 :: nat)"
  have j: "dr_SendSeq d1 = dr_SendSeq d + word_of_nat j" "j \<le> 1"
    using assms(1) by (auto simp: send_step_def j_def)
  have shift: "map (\<lambda>n. dr_SendSeq d1 + word_of_nat n) ns = map (\<lambda>n. dr_SendSeq d + word_of_nat n) (map ((+) j) ns)"
    by (simp add: j(1) add.assoc)
  have sorted: "sorted_wrt (<) (map ((+) j) ns)"
    using ns(1) by (simp add: sorted_wrt_map)
  have end_seq: "dr_SendSeq e = dr_SendSeq d + word_of_nat (j + k)"
    using ns(5) j(1) by (simp add: add.assoc)
  have sent: "\<exists>ns k. sorted_wrt (<) ns \<and> (\<forall>n\<in>set ns. n < k) \<and> k \<le> length (ev # evs) \<and>
      map raw_sequence (raws1 @ raws) = map (\<lambda>n. dr_SendSeq d + word_of_nat n) ns \<and> dr_SendSeq e = dr_SendSeq d + word_of_nat k"
  proof (cases "raws1 = []")
    case True
    then show ?thesis
      using ns shift sorted end_seq j(2) by (intro exI [of _ "map ((+) j) ns"] exI [of _ "j + k"]) auto
  next
    case False
    then obtain raw where raw: "raws1 = [raw]" "raw_sequence raw = dr_SendSeq d" "dr_SendSeq d1 = dr_SendSeq d + 1"
      using assms(1) by (auto simp: send_step_def)
    then have j1: "j = 1"
      by (simp add: j_def)
    show ?thesis
      using ns shift sorted end_seq raw(1,2) j1
      by (intro exI [of _ "0 # map ((+) j) ns"] exI [of _ "j + k"]) auto
  qed
  have moved: "sess_moved (dr_Session d) (dr_Session e)"
    using assms sess_moved_trans by (auto simp: run_post_def send_step_def)
  show ?thesis
    unfolding run_post_def using assms sent moved
    by (intro conjI) (auto simp: run_post_def send_step_def)
qed

lemma drv_run_post:
  assumes "drv_run A d evs = (e, fs, raws)" and "length (dr_SessionID d) = 16"
  shows "run_post d evs e fs raws"
  using assms
proof (induction evs arbitrary: d e fs raws)
  case (Cons ev evs)
  obtain d1 fs1 raws1 where s: "drv_event_step A d ev = (d1, fs1, raws1)"
    by (metis prod_cases3)
  obtain e' fs2 raws2 where r: "drv_run A d1 evs = (e', fs2, raws2)"
    by (metis prod_cases3)
  have eq: "e' = e" "fs = fs1 @ fs2" "raws = raws1 @ raws2"
    using Cons.prems(1) s r by simp_all
  show ?case
  proof (cases "\<exists>raw. ev = EvReceive raw")
    case True
    then obtain raw where ev: "ev = EvReceive raw"
      by blast
    then have "length (dr_SessionID d1) = 16"
      using DecodeAndHandle_event [OF s [unfolded ev]] Cons.prems(2) by simp
    from Cons.IH [OF r this] show ?thesis
      unfolding ev eq [symmetric] using run_post_receive [OF s [unfolded ev]] eq by simp
  next
    case False
    then have st: "send_step d (d1, fs1, raws1)"
      using send_step_event [OF Cons.prems(2), of ev A] s by auto
    then have "length (dr_SessionID d1) = 16"
      using Cons.prems(2) by (simp add: send_step_def)
    from Cons.IH [OF r this] show ?thesis
      using run_post_send [OF st] eq by simp
  qed
qed (simp add: run_post_Nil)

lemma distinct_sequences:
  assumes "sorted_wrt (<) ns" "\<forall>n\<in>set ns. n < k" "k \<le> 2 ^ 64"
  shows "distinct (map (\<lambda>n. c + word_of_nat n :: u64) ns)"
proof -
  have "inj_on (\<lambda>n. c + word_of_nat n :: u64) (set ns)"
  proof (rule inj_onI)
    fix m n
    assume "m \<in> set ns" "n \<in> set ns" "c + word_of_nat m = c + (word_of_nat n :: u64)"
    then have "unat (word_of_nat m :: u64) = unat (word_of_nat n :: u64)" "m < 2 ^ 64" "n < 2 ^ 64"
      using assms(2,3) by force+
    then show "m = n"
      by (simp add: unat_of_nat_small)
  qed
  then show ?thesis
    using assms(1) by (simp add: distinct_map strict_sorted_iff)
qed

lemma sess_init_driver:
  "sess_init (dr_Session (NewDriver vs sid k r))" "sess_init (dr_Session (NewDriverWithSuites vs ss sid k r))"
proof -
  show "sess_init (dr_Session (NewDriver vs sid k r))"
    by (simp add: NewDriver_def sess_init_New)
  show "sess_init (dr_Session (NewDriverWithSuites vs ss sid k r))"
    unfolding sess_init_def
    by (rule exI [of _ vs], rule exI [of _ ss], rule exI [of _ True], rule exI [of _ 0], rule exI [of _ None],
        rule exI [of _ "Some NewTranscript"])
      (simp add: NewDriverWithSuites_def NewDriver_def NewWithSuites_def NewSession_def Let_def)
qed

subsection \<open>Properties\<close>

text \<open>
  C7: Over any interleaving of inbound bytes, outbound frames, key changes and local session
  calls on a new driver: the frames it accepts carry its session id and the sequence numbers
  1, 2, 3, ... without gap or repetition, and each was decoded, authenticator included, from
  bytes that were received; the frames it hands out for sending carry pairwise distinct
  sequence numbers for up to \<open>2^64\<close> events; and its session never violates the session
  invariants.
\<close>

theorem driver_runs_in_order:
  assumes "d = NewDriver offered sid key req \<or> d = NewDriverWithSuites offered suites sid key req"
    and "length sid = 16" and "length evs \<le> 2 ^ 64" and "drv_run A d evs = (e, fs, raws)"
  shows "map fr_Sequence fs = map (\<lambda>i. word_of_nat (Suc i)) [0..<length fs] \<and>
    (\<forall>f\<in>set fs. fr_SessionID f = sid \<and> (\<exists>raw. EvReceive raw \<in> set evs \<and> Decode raw key req = Inr f)) \<and>
    distinct (map raw_sequence raws) \<and> Invariants (dr_Session e) = None"
proof -
  have d: "dr_SessionID d = sid" "dr_MACKey d = key" "dr_RequireMAC d = req" "dr_RecvSeq d = 1" "sess_init (dr_Session d)"
    using assms(1) sess_init_driver by (auto simp: NewDriver_def NewDriverWithSuites_def Let_def)
  have post: "run_post d evs e fs raws"
    using drv_run_post [OF assms(4)] assms(2) d(1) by simp
  obtain ns k where ns: "sorted_wrt (<) ns" "\<forall>n\<in>set ns. n < k" "k \<le> length evs"
      "map raw_sequence raws = map (\<lambda>n. dr_SendSeq d + word_of_nat n) ns"
    using post unfolding run_post_def by blast
  have "distinct (map raw_sequence raws)"
    unfolding ns(4) using distinct_sequences [OF ns(1,2)] ns(3) assms(3) by simp
  moreover have "sess_inv (dr_Session e)"
    using post d(5) sess_moved_reach [OF reach_init] by (intro sess.reach_inv) (auto simp: run_post_def)
  then have "Invariants (dr_Session e) = None"
    by (rule sess_inv_Invariants)
  moreover have "map fr_Sequence fs = map (\<lambda>i. word_of_nat (Suc i)) [0..<length fs]"
    using post d(4) by (simp add: run_post_def)
  ultimately show ?thesis
    using post d(1-3) by (simp add: run_post_def)
qed

text \<open>A cipher that leaves the text alone, for concrete runs.\<close>

definition plain_aead :: aead where
  "plain_aead = \<lparr>aead_seal = (\<lambda>k n p a. p), aead_open = (\<lambda>k n c a. Some c)\<rparr>"

definition sample_offer :: frame where
  "sample_offer = \<lparr>fr_Version = 1, fr_Type = 1, fr_Flags = 0, fr_SessionID = replicate 16 0, fr_Sequence = 1, fr_Body = []\<rparr>"

lemma sample_offer_decodes: "Decode (frame_wire [] sample_offer) [] False = Inr sample_offer"
  by (rule Decode_frame_wire)
    (simp_all add: sample_offer_def canonical_frame_def sendable_def known_def frame_const_defs message_type_defs)

lemma sample_offer_handled:
  "\<exists>e. Handle A (NewDriver [2] (replicate 16 0) [] False) sample_offer = (e, None)"
  by (simp add: Handle_def handleSwitch_def handleOffer_def sample_offer_def NewDriver_def message_type_defs CriticalUnknown_def known_def
      on_session_def Negotiate_def NewSession_def candidates_def LocalAllowed_def)

theorem driver_runs_in_order_witness:
  "\<exists>e raws. drv_run plain_aead (NewDriver [2] (replicate 16 0) [] False) [EvReceive (frame_wire [] sample_offer), EvFrame 7 [], EvFrame 8 []]
       = (e, [sample_offer], raws) \<and> distinct (map raw_sequence raws) \<and> Invariants (dr_Session e) = None"
proof -
  obtain e where h: "Handle plain_aead (NewDriver [2] (replicate 16 0) [] False) sample_offer = (e, None)"
    using sample_offer_handled by blast
  obtain e' raws where r: "drv_run plain_aead e [EvFrame 7 [], EvFrame 8 []] = (e', [], raws)"
    by (simp add: sent_only_def)
  have "dr_MACKey (NewDriver [2] (replicate 16 0) [] False) = []" "\<not> dr_RequireMAC (NewDriver [2] (replicate 16 0) [] False)"
    by (simp_all add: NewDriver_def)
  then have run: "drv_run plain_aead (NewDriver [2] (replicate 16 0) [] False) [EvReceive (frame_wire [] sample_offer), EvFrame 7 [], EvFrame 8 []]
      = (e', [sample_offer], raws)"
    using h r sample_offer_decodes by (simp add: DecodeAndHandle_def)
  show ?thesis
    using driver_runs_in_order [OF _ _ _ run, of "[2]" "replicate 16 0" "[]" False "[]"] run by auto
qed

end
