(* ===== verification/Connection.thy ===== *)
theory Connection
  imports Prelude
begin

text \<open>
  Code that talks to a byte stream.  Such code is a program over two requests, a write and a full
  read; the answer, success or error, comes from outside.  Two programs joined by a reliable stream
  in each direction form a network whose steps commute, so that every interleaving reaches the same
  end in the same number of steps.
\<close>

subsection \<open>Programs on a connection\<close>

text \<open>The text of an error of the operating system.\<close>

type_synonym io_error = string

datatype 'a conn =
  Finish 'a
| Put bytes "io_error + nat \<Rightarrow> 'a conn"
| Get nat "io_error + bytes \<Rightarrow> 'a conn"

primrec andThen :: "'a conn \<Rightarrow> ('a \<Rightarrow> 'b conn) \<Rightarrow> 'b conn" where
  "andThen (Finish a) f = f a"
| "andThen (Put b k) f = Put b (\<lambda>r. andThen (k r) f)"
| "andThen (Get n k) f = Get n (\<lambda>r. andThen (k r) f)"

text \<open>\<open>if err != nil \{ return err \}\<close>\<close>

definition orFail :: "('e + 'a) conn \<Rightarrow> ('a \<Rightarrow> ('e + 'b) conn) \<Rightarrow> ('e + 'b) conn" where
  "orFail p f = andThen p (\<lambda>r. case r of Inl e \<Rightarrow> Finish (Inl e) | Inr x \<Rightarrow> f x)"

subsection \<open>Two programs and the bytes between them\<close>

text \<open>
  Two programs connected by a reliable stream in each direction.  A write appends to the peer's
  queue; a full read waits until its bytes are there.  Either side may move at any time.
\<close>

record ('a, 'b) net =
  nt_left :: "'a conn"
  nt_right :: "'b conn"
  nt_toLeft :: bytes
  nt_toRight :: bytes

fun advance :: "'a conn \<Rightarrow> bytes \<Rightarrow> ('a conn \<times> bytes \<times> bytes) option" where
  "advance (Finish a) inbox = None"
| "advance (Put b k) inbox = Some (k (Inr (length b)), inbox, b)"
| "advance (Get n k) inbox = (if n \<le> length inbox then Some (k (Inr (take n inbox)), drop n inbox, []) else None)"

definition left_move :: "('a, 'b) net \<Rightarrow> ('a, 'b) net option" where
  "left_move s = (case advance (nt_left s) (nt_toLeft s) of None \<Rightarrow> None
     | Some (p, inbox, out) \<Rightarrow> Some (s\<lparr>nt_left := p, nt_toLeft := inbox, nt_toRight := nt_toRight s @ out\<rparr>))"

definition right_move :: "('a, 'b) net \<Rightarrow> ('a, 'b) net option" where
  "right_move s = (case advance (nt_right s) (nt_toRight s) of None \<Rightarrow> None
     | Some (p, inbox, out) \<Rightarrow> Some (s\<lparr>nt_right := p, nt_toRight := inbox, nt_toLeft := nt_toLeft s @ out\<rparr>))"

definition net_step :: "('a, 'b) net \<Rightarrow> ('a, 'b) net \<Rightarrow> bool" where
  "net_step s t \<longleftrightarrow> left_move s = Some t \<or> right_move s = Some t"

lemma advance_more: "advance p i = Some (q, j, out) \<Longrightarrow> advance p (i @ x) = Some (q, j @ x, out)"
  by (cases p) (auto split: if_splits)

lemma moves_commute:
  assumes "left_move s = Some t" "right_move s = Some u"
  shows "\<exists>v. right_move t = Some v \<and> left_move u = Some v"
proof -
  obtain p i o1 where l: "advance (nt_left s) (nt_toLeft s) = Some (p, i, o1)"
      "t = s\<lparr>nt_left := p, nt_toLeft := i, nt_toRight := nt_toRight s @ o1\<rparr>"
    using assms(1) by (auto simp: left_move_def split: option.splits)
  obtain q j o2 where r: "advance (nt_right s) (nt_toRight s) = Some (q, j, o2)"
      "u = s\<lparr>nt_right := q, nt_toRight := j, nt_toLeft := nt_toLeft s @ o2\<rparr>"
    using assms(2) by (auto simp: right_move_def split: option.splits)
  show ?thesis
    using advance_more [OF l(1)] advance_more [OF r(1)] l(2) r(2)
    by (simp add: left_move_def right_move_def)
qed

text \<open>
  A relation whose steps commute: all ways to a normal form have the same length, and every run
  can be completed to it.
\<close>

locale commuting_steps =
  fixes step :: "'s \<Rightarrow> 's \<Rightarrow> bool"
  assumes diamond: "step s a \<Longrightarrow> step s b \<Longrightarrow> a = b \<or> (\<exists>c. step a c \<and> step b c)"
begin

lemma one_step:
  assumes "(step ^^ n) s t" and "\<And>u. \<not> step t u" and "step s a"
  shows "0 < n \<and> (step ^^ (n - 1)) a t"
  using assms
proof (induction n arbitrary: s a)
  case (Suc m)
  obtain b where b: "step s b" "(step ^^ m) b t"
    using Suc.prems(1) by (metis relpowp_Suc_D2)
  consider "a = b" | c where "step a c" "step b c"
    using diamond [OF Suc.prems(3) b(1)] by blast
  then show ?case
  proof cases
    case 2
    then have "0 < m" "(step ^^ (m - 1)) c t"
      using Suc.IH [OF b(2) Suc.prems(2)] by simp_all
    then have "(step ^^ Suc (m - 1)) a t"
      using 2(1) by (metis relpowp_Suc_I2)
    then show ?thesis
      using \<open>0 < m\<close> by simp
  qed (use b in simp)
qed simp

lemma every_run:
  assumes "(step ^^ n) s t" and "\<And>u. \<not> step t u" and "(step ^^ k) s u"
  shows "k \<le> n \<and> (step ^^ (n - k)) u t"
  using assms(3)
proof (induction k arbitrary: u)
  case (Suc k)
  then obtain v where v: "(step ^^ k) s v" "step v u"
    by auto
  then have "k \<le> n" "(step ^^ (n - k)) v t"
    using Suc.IH by simp_all
  then show ?case
    using one_step [OF _ assms(2) v(2), of "n - k"] by simp
qed (use assms(1) in simp)

end

interpretation net: commuting_steps net_step
proof
  fix s a b :: "('a, 'b) net"
  assume "net_step s a" "net_step s b"
  then show "a = b \<or> (\<exists>c. net_step a c \<and> net_step b c)"
    using moves_commute [of s] unfolding net_step_def by (metis option.inject)
qed

text \<open>One program, run with a given inbox until it has finished or waits for more.\<close>

primrec drive :: "'a conn \<Rightarrow> bytes \<Rightarrow> 'a conn \<times> bytes \<times> bytes \<times> nat" where
  "drive (Finish a) = (\<lambda>inbox. (Finish a, inbox, [], 0))"
| "drive (Put b k) = (\<lambda>inbox.
     case drive (k (Inr (length b))) inbox of (p, i, out, n) \<Rightarrow> (p, i, b @ out, Suc n))"
| "drive (Get m k) = (\<lambda>inbox.
     if m \<le> length inbox then
       (case drive (k (Inr (take m inbox))) (drop m inbox) of (p, i, out, n) \<Rightarrow> (p, i, out, Suc n))
     else (Get m k, inbox, [], 0))"

lemma drive_left:
  "drive p i = (q, j, out, n) \<Longrightarrow>
   (net_step ^^ n) \<lparr>nt_left = p, nt_right = r, nt_toLeft = i, nt_toRight = y\<rparr>
     \<lparr>nt_left = q, nt_right = r, nt_toLeft = j, nt_toRight = y @ out\<rparr>"
proof (induction p arbitrary: i q j out n y)
  case (Put b k)
  obtain q' j' out' n' where d: "drive (k (Inr (length b))) i = (q', j', out', n')"
    by (metis prod_cases4)
  have "net_step \<lparr>nt_left = Put b k, nt_right = r, nt_toLeft = i, nt_toRight = y\<rparr>
      \<lparr>nt_left = k (Inr (length b)), nt_right = r, nt_toLeft = i, nt_toRight = y @ b\<rparr>"
    by (simp add: net_step_def left_move_def)
  from relpowp_Suc_I2 [OF this Put.IH [OF _ d]] show ?case
    using Put.prems d by auto
next
  case (Get m k)
  show ?case
  proof (cases "m \<le> length i")
    case True
    obtain q' j' out' n' where d: "drive (k (Inr (take m i))) (drop m i) = (q', j', out', n')"
      by (metis prod_cases4)
    have "net_step \<lparr>nt_left = Get m k, nt_right = r, nt_toLeft = i, nt_toRight = y\<rparr>
        \<lparr>nt_left = k (Inr (take m i)), nt_right = r, nt_toLeft = drop m i, nt_toRight = y\<rparr>"
      using True by (simp add: net_step_def left_move_def)
    from relpowp_Suc_I2 [OF this Get.IH [OF _ d]] show ?thesis
      using Get.prems d True by auto
  qed (use Get.prems in simp)
qed simp

lemma drive_right:
  "drive p i = (q, j, out, n) \<Longrightarrow>
   (net_step ^^ n) \<lparr>nt_left = l, nt_right = p, nt_toLeft = x, nt_toRight = i\<rparr>
     \<lparr>nt_left = l, nt_right = q, nt_toLeft = x @ out, nt_toRight = j\<rparr>"
proof (induction p arbitrary: i q j out n x)
  case (Put b k)
  obtain q' j' out' n' where d: "drive (k (Inr (length b))) i = (q', j', out', n')"
    by (metis prod_cases4)
  have "net_step \<lparr>nt_left = l, nt_right = Put b k, nt_toLeft = x, nt_toRight = i\<rparr>
      \<lparr>nt_left = l, nt_right = k (Inr (length b)), nt_toLeft = x @ b, nt_toRight = i\<rparr>"
    by (simp add: net_step_def right_move_def)
  from relpowp_Suc_I2 [OF this Put.IH [OF _ d]] show ?case
    using Put.prems d by auto
next
  case (Get m k)
  show ?case
  proof (cases "m \<le> length i")
    case True
    obtain q' j' out' n' where d: "drive (k (Inr (take m i))) (drop m i) = (q', j', out', n')"
      by (metis prod_cases4)
    have "net_step \<lparr>nt_left = l, nt_right = Get m k, nt_toLeft = x, nt_toRight = i\<rparr>
        \<lparr>nt_left = l, nt_right = k (Inr (take m i)), nt_toLeft = x, nt_toRight = drop m i\<rparr>"
      using True by (simp add: net_step_def right_move_def)
    from relpowp_Suc_I2 [OF this Get.IH [OF _ d]] show ?thesis
      using Get.prems d True by auto
  qed (use Get.prems in simp)
qed simp

lemma drive_andThen:
  "drive p i = (Finish a, j, out, n) \<Longrightarrow> drive (f a) j = (q, j', out', n') \<Longrightarrow>
   drive (andThen p f) i = (q, j', out @ out', n + n')"
proof (induction p arbitrary: i out n)
  case (Put b k)
  obtain q1 j1 out1 n1 where d: "drive (k (Inr (length b))) i = (q1, j1, out1, n1)"
    by (metis prod_cases4)
  then show ?case
    using Put.prems Put.IH [OF _ _ Put.prems(2)] by auto
next
  case (Get m k)
  show ?case
  proof (cases "m \<le> length i")
    case True
    obtain q1 j1 out1 n1 where d: "drive (k (Inr (take m i))) (drop m i) = (q1, j1, out1, n1)"
      by (metis prod_cases4)
    then show ?thesis
      using True Get.prems Get.IH [OF _ _ Get.prems(2)] by auto
  qed (use Get.prems in simp)
qed simp

lemma drive_orFail:
  "drive p i = (Finish (Inr a), j, out, n) \<Longrightarrow> drive (f a) j = (q, j', out', n') \<Longrightarrow>
   drive (orFail p f) i = (q, j', out @ out', n + n')"
  unfolding orFail_def by (erule drive_andThen) simp

lemma drive_orFail_eq:
  assumes "drive p i = (Finish (Inr a), j, out, n)"
  shows "drive (orFail p go) i = (case drive (go a) j of (q, j', out', n') \<Rightarrow> (q, j', out @ out', n + n'))"
proof -
  obtain q j' out' n' where "drive (go a) j = (q, j', out', n')"
    by (metis prod_cases4)
  then show ?thesis
    using drive_orFail [OF assms, of go] by simp
qed

end
