(* ===== verification/Handshake.thy ===== *)
theory Handshake
  imports Driver Compare Connection
begin

text \<open>
  The authenticated connection of \<open>internal/remotesync\<close>: frames on a byte stream
  (\<open>frameio.go\<close>), root keys and keyrings (\<open>keys.go\<close>, \<open>peer_keyring.go\<close>, \<open>errors.go\<close>), the
  two sides of the handshake (\<open>handshake.go\<close>) and the sealed session state
  (\<open>session_seal.go\<close>).  Code that talks to a connection is a program of the theory
  \<open>Connection\<close>.  A Go map is the list of its entries in the order an iteration visits them.
\<close>

subsection \<open>Errors\<close>

datatype rs_kind =
  KindInvalidArgument | KindHandshake | KindTransport | KindProtocol | KindAuth | KindApply | KindInternal

fun rs_kind_text :: "rs_kind \<Rightarrow> string" where
  "rs_kind_text KindInvalidArgument = ''invalid_argument''"
| "rs_kind_text KindHandshake = ''handshake''"
| "rs_kind_text KindTransport = ''transport''"
| "rs_kind_text KindProtocol = ''protocol''"
| "rs_kind_text KindAuth = ''auth''"
| "rs_kind_text KindApply = ''apply''"
| "rs_kind_text KindInternal = ''internal''"

fun drv_error_text :: "drv_error \<Rightarrow> string" where
  "drv_error_text (DrvProto e) = proto_error_text e"
| "drv_error_text (DrvSession e) = sess_error_text e"
| "drv_error_text (DrvCrypto e) = crypto_error_text e"

text \<open>The wrapped error is kept as its text.\<close>

record rs_error =
  rs_Kind :: rs_kind
  rs_Message :: string
  rs_Err :: "string option"

definition rs_error_text :: "rs_error \<Rightarrow> string" where
  "rs_error_text e =
     (let s = rs_kind_text (rs_Kind e);
          s = (if rs_Message e \<noteq> [] then s @ '': '' @ rs_Message e else s)
      in case rs_Err e of None \<Rightarrow> s | Some x \<Rightarrow> s @ '': '' @ x)"

definition IsKind :: "rs_error \<Rightarrow> rs_kind \<Rightarrow> bool" where
  "IsKind e k \<longleftrightarrow> rs_Kind e = k"

definition rs_wrap :: "rs_kind \<Rightarrow> string \<Rightarrow> string \<Rightarrow> rs_error" where
  "rs_wrap k msg err = \<lparr>rs_Kind = k, rs_Message = msg, rs_Err = Some err\<rparr>"

definition rs_fail :: "rs_kind \<Rightarrow> string \<Rightarrow> rs_error" where
  "rs_fail k msg = \<lparr>rs_Kind = k, rs_Message = msg, rs_Err = None\<rparr>"

subsection \<open>Frames on the stream\<close>

definition ReadFrame :: "(rs_error + bytes) conn" where
  "ReadFrame = Get HeaderBytes (\<lambda>r. case r of
     Inl e \<Rightarrow> Finish (Inl (rs_wrap KindTransport ''read header'' e))
   | Inr hdr \<Rightarrow>
       if slice 0 8 hdr \<noteq> FrameMagic then Finish (Inl (rs_fail KindProtocol ''bad frame magic''))
       else
         let bodyLen = U32LE (slice 14 18 hdr) in
         if unat bodyLen > MaxBodyBytes then Finish (Inl (rs_fail KindProtocol ''body_length exceeds MaxBodyBytes''))
         else
           let flags = U16LE (slice 12 14 hdr);
               needMAC = (flags AND FlagRequiresMAC \<noteq> 0);
               total = HeaderBytes + unat bodyLen;
               total = (if needMAC then total + AuthBytes else total)
           in Get (total - HeaderBytes) (\<lambda>r. case r of
                Inl e \<Rightarrow> Finish (Inl (rs_wrap KindTransport ''read body'' e))
              | Inr rest \<Rightarrow> Finish (Inr (hdr @ rest))))"

definition WriteFrame :: "bytes \<Rightarrow> (rs_error + unit) conn" where
  "WriteFrame raw =
     (if length raw < HeaderBytes then Finish (Inl (rs_fail KindProtocol ''short frame write''))
      else Put raw (\<lambda>r. case r of
        Inl e \<Rightarrow> Finish (Inl (rs_wrap KindTransport ''write frame'' e))
      | Inr n \<Rightarrow> if n \<noteq> length raw then Finish (Inl (rs_fail KindTransport ''short frame write'')) else Finish (Inr ())))"

text \<open>
  \<open>send\<close> and \<open>recv\<close> return the driver they leave behind.  \<open>DecodeAndHandle\<close> has no result
  without both a frame and an error.
\<close>

definition send :: "aead \<Rightarrow> driver \<Rightarrow> message_type \<Rightarrow> bytes \<Rightarrow> (rs_error + driver) conn" where
  "send A d typ body =
     (case EncodeFrame A d typ body of
        (d, Inl err) \<Rightarrow> Finish (Inl (rs_wrap KindProtocol ''encode'' (drv_error_text err)))
      | (d, Inr raw) \<Rightarrow> orFail (WriteFrame raw) (\<lambda>_. Finish (Inr d)))"

definition recv :: "aead \<Rightarrow> driver \<Rightarrow> (rs_error + driver \<times> frame) conn" where
  "recv A d = orFail ReadFrame (\<lambda>raw.
     case DecodeAndHandle A d raw of
       (d, _, Some err) \<Rightarrow> Finish (Inl (rs_wrap KindProtocol ''handle'' (drv_error_text err)))
     | (d, Some f, None) \<Rightarrow> Finish (Inr (d, f))
     | (d, None, None) \<Rightarrow> Finish (Inl (rs_fail KindInternal [])))"

subsection \<open>Keys\<close>

definition RootKeySize :: nat where
  "RootKeySize = 32"

definition root_key_error :: rs_error where
  "root_key_error = rs_fail KindInvalidArgument (''root key must be '' @ itoa RootKeySize @ '' bytes'')"

definition deriveMACKey :: "bytes \<Rightarrow> string \<Rightarrow> crypto_error + bytes" where
  "deriveMACKey root peerID =
     (case ChannelMACKey root ''push'' ''serve'' of
        Inl e \<Rightarrow> Inl e
      | Inr base \<Rightarrow>
          if peerID = [] then Inr base
          else HKDFSHA256 base None (bytes_of (''integris-peer-id|'' @ peerID)) 32)"

text \<open>The random source is an argument: its error or the sixteen bytes it delivers.\<close>

definition newSessionID :: "io_error + bytes \<Rightarrow> rs_error + bytes" where
  "newSessionID rnd = (case rnd of Inl e \<Rightarrow> Inl (rs_wrap KindInternal ''session id'' e) | Inr sid \<Rightarrow> Inr sid)"

definition maxPeerIDLen :: nat where "maxPeerIDLen = 64"
definition maxPeerKeyring :: nat where "maxPeerKeyring = 32"
definition peerPrologueMagic :: string where "peerPrologueMagic = ''INTPID01''"
definition peerKeyringMagic :: string where "peerKeyringMagic = ''INTPEER1''"

type_synonym peer_keyring = "(string \<times> bytes) list"

text \<open>
  The loop over the runes of the id refuses every rune above 0x7e; a byte of a longer rune, valid
  or not, is refused with it.
\<close>

definition ValidatePeerID :: "string \<Rightarrow> rs_error option" where
  "ValidatePeerID pid =
     (if pid = [] then Some (rs_fail KindInvalidArgument ''empty peer id'')
      else if length pid > maxPeerIDLen then Some (rs_fail KindInvalidArgument ''peer id too long'')
      else if list_ex (\<lambda>c. of_char c < (33::nat) \<or> of_char c > (126::nat) \<or> c = CHR ''='') pid
        then Some (rs_fail KindInvalidArgument (''peer id must be printable ASCII without '' @ [CHR 0x27] @ ''='' @ [CHR 0x27]))
      else None)"

fun validateKeys :: "peer_keyring \<Rightarrow> rs_error option" where
  "validateKeys [] = None"
| "validateKeys ((pid, key) # kr) =
     (case ValidatePeerID pid of
        Some e \<Rightarrow> Some e
      | None \<Rightarrow>
          if length key \<noteq> RootKeySize
            then Some (rs_fail KindInvalidArgument (''peer '' @ pid @ '' key must be '' @ itoa RootKeySize @ '' bytes''))
          else validateKeys kr)"

definition ValidateKeyring :: "peer_keyring \<Rightarrow> rs_error option" where
  "ValidateKeyring kr =
     (if length kr = 0 then Some (rs_fail KindInvalidArgument ''empty peer keyring'')
      else if length kr > maxPeerKeyring
        then Some (rs_fail KindInvalidArgument (''peer keyring exceeds '' @ itoa maxPeerKeyring @ '' entries''))
      else validateKeys kr)"

text \<open>\<open>sort.Strings\<close> on distinct strings has one result; the prelude's sort delivers it.\<close>

definition sortStrings :: "string list \<Rightarrow> string list" where
  "sortStrings = insertionSort (\<lambda>s t. bytesCompare (bytes_of s) (bytes_of t))"

fun keyringBytes :: "peer_keyring \<Rightarrow> bytes \<Rightarrow> string list \<Rightarrow> bytes" where
  "keyringBytes kr out [] = out"
| "keyringBytes kr out (pid # ids) =
     (let out = out @ [word_of_nat (length pid)];
          out = out @ bytes_of pid;
          out = out @ (case map_of kr pid of None \<Rightarrow> [] | Some key \<Rightarrow> key)
      in keyringBytes kr out ids)"

definition EncodeKeyring :: "peer_keyring \<Rightarrow> rs_error + bytes" where
  "EncodeKeyring kr =
     (case ValidateKeyring kr of
        Some e \<Rightarrow> Inl e
      | None \<Rightarrow>
          let ids = sortStrings (map fst kr);
              out = bytes_of peerKeyringMagic;
              out = out @ [word_of_nat (length ids)]
          in Inr (keyringBytes kr out ids))"

fun keyringEntries :: "bytes \<Rightarrow> nat \<Rightarrow> nat \<Rightarrow> peer_keyring \<Rightarrow> rs_error + peer_keyring \<times> nat" where
  "keyringEntries blob off 0 kr = Inr (kr, off)"
| "keyringEntries blob off (Suc i) kr =
     (if off \<ge> length blob then Inl (rs_fail KindInvalidArgument ''truncated keyring'')
      else
        let idLen = unat (blob ! off);
            off = off + 1 in
        if idLen = 0 \<or> idLen > maxPeerIDLen \<or> off + idLen + RootKeySize > length blob
          then Inl (rs_fail KindInvalidArgument ''bad keyring entry'')
        else
          let pid = string_of (slice off (off + idLen) blob);
              off = off + idLen;
              key = slice off (off + RootKeySize) blob;
              off = off + RootKeySize in
          case ValidatePeerID pid of
            Some e \<Rightarrow> Inl e
          | None \<Rightarrow>
              if map_of kr pid \<noteq> None then Inl (rs_fail KindInvalidArgument (''duplicate peer id '' @ pid))
              else keyringEntries blob off i (kr @ [(pid, key)]))"

text \<open>Either a single key or a keyring.\<close>

definition DecodeRootMaterial :: "bytes \<Rightarrow> rs_error + (bytes option \<times> peer_keyring)" where
  "DecodeRootMaterial blob =
     (if length blob = RootKeySize then Inr (Some blob, [])
      else if length blob < length peerKeyringMagic + 1 \<or> string_of (take (length peerKeyringMagic) blob) \<noteq> peerKeyringMagic
        then Inl (rs_fail KindInvalidArgument ''bad root key material'')
      else
        let n = unat (blob ! length peerKeyringMagic) in
        if n = 0 \<or> n > maxPeerKeyring then Inl (rs_fail KindInvalidArgument ''bad keyring count'')
        else
          case keyringEntries blob (length peerKeyringMagic + 1) n [] of
            Inl e \<Rightarrow> Inl e
          | Inr (kr, off) \<Rightarrow>
              if off \<noteq> length blob then Inl (rs_fail KindInvalidArgument ''trailing keyring bytes'')
              else Inr (None, kr))"

definition WritePeerPrologue :: "string \<Rightarrow> (rs_error + unit) conn" where
  "WritePeerPrologue peerID =
     (case ValidatePeerID peerID of
        Some e \<Rightarrow> Finish (Inl e)
      | None \<Rightarrow>
          let buf = bytes_of peerPrologueMagic;
              buf = buf @ [word_of_nat (length peerID)];
              buf = buf @ bytes_of peerID
          in Put buf (\<lambda>r. case r of
               Inl e \<Rightarrow> Finish (Inl (rs_wrap KindTransport ''peer prologue'' e))
             | Inr _ \<Rightarrow> Finish (Inr ())))"

definition ReadPeerPrologue :: "(rs_error + string) conn" where
  "ReadPeerPrologue = Get (length peerPrologueMagic + 1) (\<lambda>r. case r of
     Inl e \<Rightarrow> Finish (Inl (rs_wrap KindTransport ''peer prologue'' e))
   | Inr hdr \<Rightarrow>
       if string_of (take (length peerPrologueMagic) hdr) \<noteq> peerPrologueMagic
         then Finish (Inl (rs_fail KindAuth ''missing peer prologue''))
       else
         let n = unat (hdr ! length peerPrologueMagic) in
         if n = 0 \<or> n > maxPeerIDLen then Finish (Inl (rs_fail KindAuth ''bad peer id length''))
         else Get n (\<lambda>r. case r of
           Inl e \<Rightarrow> Finish (Inl (rs_wrap KindTransport ''peer id'' e))
         | Inr bs \<Rightarrow>
             let s = string_of bs in
             case ValidatePeerID s of Some e \<Rightarrow> Finish (Inl e) | None \<Rightarrow> Finish (Inr s)))"

text \<open>Lower-case hexadecimal, the verb \<open>%x\<close>.\<close>

definition hex_digit :: "nat \<Rightarrow> char" where
  "hex_digit n = ''0123456789abcdef'' ! n"

definition hex_bytes :: "bytes \<Rightarrow> string" where
  "hex_bytes bs = concat (map (\<lambda>b. [hex_digit (unat b div 16), hex_digit (unat b mod 16)]) bs)"

definition PeerIDDigest :: "string \<Rightarrow> string" where
  "PeerIDDigest peerID = hex_bytes (take 8 (SHA256 (bytes_of peerID)))"

subsection \<open>The handshake\<close>

definition offeredVersions :: "version list" where
  "offeredVersions = [3, 2]"

record rs_session =
  rss_Driver :: driver
  rss_Root :: "bytes option"
  rss_Role :: string

definition failing :: "rs_kind \<Rightarrow> string \<Rightarrow> drv_error \<Rightarrow> (rs_error + 'a) conn" where
  "failing k msg err = Finish (Inl (rs_wrap k msg (drv_error_text err)))"

text \<open>Send what an encoder of the driver returned, or fail with its error.\<close>

definition sendEncoded :: "rs_kind \<Rightarrow> string \<Rightarrow> driver \<times> (drv_error + bytes) \<Rightarrow> (driver \<Rightarrow> (rs_error + 'a) conn) \<Rightarrow> (rs_error + 'a) conn" where
  "sendEncoded k msg r go =
     (case r of
        (d, Inl err) \<Rightarrow> failing k msg err
      | (d, Inr raw) \<Rightarrow> orFail (WriteFrame raw) (\<lambda>_. go d))"

text \<open>Read a frame and let the driver handle it.\<close>

definition readHandle :: "aead \<Rightarrow> driver \<Rightarrow> rs_kind \<Rightarrow> string \<Rightarrow> (driver \<Rightarrow> (rs_error + 'a) conn) \<Rightarrow> (rs_error + 'a) conn" where
  "readHandle A d k msg go = orFail ReadFrame (\<lambda>raw.
     case DecodeAndHandle A d raw of
       (d, _, Some err) \<Rightarrow> failing k msg err
     | (d, _, None) \<Rightarrow> go d)"

definition handshakeKeys :: "bytes \<Rightarrow> bytes \<Rightarrow> driver \<Rightarrow> string \<Rightarrow> rs_error + driver" where
  "handshakeKeys root sid d dir =
     (case PeerAuthKey root sid of
        Inl err \<Rightarrow> Inl (rs_wrap KindAuth ''peer key'' (crypto_error_text err))
      | Inr authKey \<Rightarrow>
          (case ArchiveAuthKey root sid of
             Inl err \<Rightarrow> Inl (rs_wrap KindAuth ''archive key'' (crypto_error_text err))
           | Inr archKey \<Rightarrow> Inr (d\<lparr>dr_AuthKey := authKey, dr_ArchiveKey := archKey, dr_AuthDir := dir\<rparr>)))"

definition installKey :: "driver \<Rightarrow> bytes \<Rightarrow> string \<Rightarrow> (rs_error + rs_session) conn" where
  "installKey d root role =
     (case InstallTrafficKey d root of
        (d, Some err) \<Rightarrow> failing KindAuth ''traffic key'' err
      | (d, None) \<Rightarrow> Finish (Inr \<lparr>rss_Driver = d, rss_Root = Some root, rss_Role = role\<rparr>))"

text \<open>The initiator after the peer's proof, after the peer's accept, and from the start.\<close>

definition dialProved :: "aead \<Rightarrow> bytes \<Rightarrow> driver \<Rightarrow> (rs_error + rs_session) conn" where
  "dialProved A root alice =
     sendEncoded KindAuth ''archive auth'' (EncodeArchiveAuth A alice) (\<lambda>alice.
     case on_session alice (Activate (dr_Session alice)) of
       (alice, Some err) \<Rightarrow> failing KindHandshake ''activate local'' err
     | (alice, None) \<Rightarrow>
         orFail (send A alice TypeActivate []) (\<lambda>alice. installKey alice root ''push''))"

definition dialAccepted :: "aead \<Rightarrow> bytes \<Rightarrow> bytes \<Rightarrow> driver \<Rightarrow> (rs_error + rs_session) conn" where
  "dialAccepted A root sid alice =
     (case handshakeKeys root sid alice ''i2r'' of
        Inl e \<Rightarrow> Finish (Inl e)
      | Inr alice \<Rightarrow>
          sendEncoded KindAuth ''peer auth i2r'' (EncodePeerAuth A alice) (\<lambda>alice.
          readHandle A alice KindAuth ''peer auth r2i'' (dialProved A root)))"

definition dialStart :: "aead \<Rightarrow> bytes \<Rightarrow> bytes \<Rightarrow> bytes \<Rightarrow> (rs_error + rs_session) conn" where
  "dialStart A root macKey sid =
     (let alice = NewDriverWithSuites offeredVersions [SuiteIDAEAD] sid macKey True in
      case on_session alice (Negotiate (dr_Session alice)) of
        (alice, Some err) \<Rightarrow> failing KindHandshake ''negotiate local'' err
      | (alice, None) \<Rightarrow>
          sendEncoded KindHandshake ''offer'' (EncodeNegotiateOffer A alice offeredVersions) (\<lambda>alice.
          readHandle A alice KindHandshake ''accept'' (dialAccepted A root sid)))"

definition DialHandshake :: "aead \<Rightarrow> io_error + bytes \<Rightarrow> bytes \<Rightarrow> string \<Rightarrow> (rs_error + rs_session) conn" where
  "DialHandshake A rnd root peerID =
     (if length root \<noteq> RootKeySize then Finish (Inl root_key_error)
      else orFail (if peerID \<noteq> [] then WritePeerPrologue peerID else Finish (Inr ())) (\<lambda>_.
        case deriveMACKey root peerID of
          Inl err \<Rightarrow> Finish (Inl (rs_wrap KindAuth ''mac key'' (crypto_error_text err)))
        | Inr macKey \<Rightarrow>
            (case newSessionID rnd of
               Inl e \<Rightarrow> Finish (Inl e)
             | Inr sid \<Rightarrow> dialStart A root macKey sid)))"

text \<open>The responder after the accept went out, and from the start.\<close>

definition acceptSent :: "aead \<Rightarrow> bytes \<Rightarrow> bytes \<Rightarrow> driver \<Rightarrow> (rs_error + rs_session) conn" where
  "acceptSent A root sid bob =
     (case handshakeKeys root sid bob ''r2i'' of
        Inl e \<Rightarrow> Finish (Inl e)
      | Inr bob \<Rightarrow>
          readHandle A bob KindAuth ''peer auth i2r'' (\<lambda>bob.
          sendEncoded KindAuth ''peer auth r2i'' (EncodePeerAuth A bob) (\<lambda>bob.
          readHandle A bob KindAuth ''archive auth'' (\<lambda>bob.
          readHandle A bob KindHandshake ''activate'' (\<lambda>bob. installKey bob root ''serve'')))))"

definition acceptHandshake :: "aead \<Rightarrow> bytes \<Rightarrow> string \<Rightarrow> (rs_error + rs_session) conn" where
  "acceptHandshake A root peerID =
     (if length root \<noteq> RootKeySize then Finish (Inl root_key_error)
      else
        case deriveMACKey root peerID of
          Inl err \<Rightarrow> Finish (Inl (rs_wrap KindAuth ''mac key'' (crypto_error_text err)))
        | Inr macKey \<Rightarrow> orFail ReadFrame (\<lambda>raw.
            case Decode raw macKey True of
              Inl err \<Rightarrow> Finish (Inl (rs_wrap KindHandshake ''decode offer'' (proto_error_text err)))
            | Inr f \<Rightarrow>
                let bob = NewDriverWithSuites offeredVersions [SuiteIDAEAD] (fr_SessionID f) macKey True in
                case Handle A bob f of
                  (bob, Some err) \<Rightarrow> failing KindHandshake ''offer'' err
                | (bob, None) \<Rightarrow>
                    sendEncoded KindHandshake ''accept'' (EncodeNegotiateAccept A bob) (acceptSent A root (fr_SessionID f))))"

definition AcceptHandshake :: "aead \<Rightarrow> bytes \<Rightarrow> (rs_error + rs_session) conn" where
  "AcceptHandshake A root = acceptHandshake A root []"

text \<open>The peer id is returned whenever the prologue could be read.\<close>

definition AcceptHandshakeKeyring :: "aead \<Rightarrow> peer_keyring \<Rightarrow> ((rs_error + rs_session) \<times> string) conn" where
  "AcceptHandshakeKeyring A kr =
     (case ValidateKeyring kr of
        Some e \<Rightarrow> Finish (Inl e, [])
      | None \<Rightarrow> andThen ReadPeerPrologue (\<lambda>r. case r of
          Inl e \<Rightarrow> Finish (Inl e, [])
        | Inr peerID \<Rightarrow>
            (case map_of kr peerID of
               None \<Rightarrow> Finish (Inl (rs_fail KindAuth (''unknown peer id '' @ PeerIDDigest peerID)), peerID)
             | Some root \<Rightarrow> andThen (acceptHandshake A root peerID) (\<lambda>sess. Finish (sess, peerID)))))"

subsection \<open>Application data\<close>

definition sendData :: "aead \<Rightarrow> rs_session \<Rightarrow> bytes \<Rightarrow> (rs_error + rs_session) conn" where
  "sendData A s payload = orFail (send A (rss_Driver s) TypeData payload) (\<lambda>d. Finish (Inr (s\<lparr>rss_Driver := d\<rparr>)))"

definition recvData :: "aead \<Rightarrow> rs_session \<Rightarrow> (rs_error + rs_session \<times> bytes) conn" where
  "recvData A s = orFail (recv A (rss_Driver s)) (\<lambda>(d, f).
     if fr_Type f = TypeData then Finish (Inr (s\<lparr>rss_Driver := d\<rparr>, dr_LastPlaintext d))
     else if fr_Type f = TypeClose then Finish (Inl (rs_fail KindTransport ''peer closed''))
     else if fr_Type f = TypeFailure then Finish (Inl (rs_fail KindProtocol ''peer failure''))
     else Finish (Inl (rs_fail KindProtocol (''unexpected type '' @ itoa (unat (fr_Type f)) @ '' after ACTIVE''))))"

subsection \<open>The sealed session\<close>

record session_seal =
  sl_SessionID :: bytes
  sl_MACKey :: bytes
  sl_AEADKey :: bytes
  sl_SendSeq :: u64
  sl_RecvSeq :: u64
  sl_Selected :: version
  sl_Suite :: string

definition sealFromDriver :: "driver \<Rightarrow> rs_error + session_seal" where
  "sealFromDriver d =
     (if se_State (dr_Session d) \<noteq> SessActive then Inl (rs_fail KindHandshake ''seal requires ACTIVE'')
      else if length (dr_AEADKey d) \<noteq> AEADKeySize \<or> length (dr_MACKey d) < 16 then Inl (rs_fail KindAuth ''incomplete sealed keys'')
      else Inr \<lparr>sl_SessionID = dr_SessionID d, sl_MACKey = dr_MACKey d, sl_AEADKey = dr_AEADKey d, sl_SendSeq = dr_SendSeq d,
             sl_RecvSeq = dr_RecvSeq d, sl_Selected = se_Selected (dr_Session d), sl_Suite = se_SelectedSuite (dr_Session d)\<rparr>)"

definition encodeSeal :: "session_seal \<Rightarrow> rs_error + bytes" where
  "encodeSeal s =
     (if length (sl_MACKey s) > 255 \<or> length (sl_AEADKey s) > 255 \<or> length (sl_Suite s) > 255
        then Inl (rs_fail KindProtocol ''seal field too long'')
      else
        let b = sl_SessionID s;
            b = b @ [word_of_nat (length (sl_MACKey s))];
            b = b @ sl_MACKey s;
            b = b @ [word_of_nat (length (sl_AEADKey s))];
            b = b @ sl_AEADKey s;
            b = b @ PutU64LE (sl_SendSeq s);
            b = b @ PutU64LE (sl_RecvSeq s);
            b = b @ [sl_Selected s];
            b = b @ [word_of_nat (length (sl_Suite s))];
            b = b @ bytes_of (sl_Suite s)
        in Inr b)"

definition decodeSeal :: "bytes \<Rightarrow> rs_error + session_seal" where
  "decodeSeal p =
     (if length p < 16 + 1 + 1 + 8 + 8 + 1 + 1 then Inl (rs_fail KindProtocol ''short seal'')
      else
        let sid = take 16 p;
            p = drop 16 p;
            n = unat (p ! 0);
            p = drop 1 p in
        if length p < n then Inl (rs_fail KindProtocol ''short seal mac'')
        else
          let mac = take n p;
              p = drop n p in
          if length p < 1 then Inl (rs_fail KindProtocol ''short seal aead len'')
          else
            let n = unat (p ! 0);
                p = drop 1 p in
            if length p < n + 8 + 8 + 1 + 1 then Inl (rs_fail KindProtocol ''short seal aead'')
            else
              let key = take n p;
                  p = drop n p;
                  sendSeq = U64LE (take 8 p);
                  p = drop 8 p;
                  recvSeq = U64LE (take 8 p);
                  p = drop 8 p;
                  selected = p ! 0;
                  p = drop 1 p;
                  n = unat (p ! 0);
                  p = drop 1 p in
              if length p \<noteq> n then Inl (rs_fail KindProtocol ''seal suite length'')
              else Inr \<lparr>sl_SessionID = sid, sl_MACKey = mac, sl_AEADKey = key, sl_SendSeq = sendSeq, sl_RecvSeq = recvSeq,
                     sl_Selected = selected, sl_Suite = string_of p\<rparr>)"

definition SessionFromSeal :: "bytes \<Rightarrow> rs_error + rs_session" where
  "SessionFromSeal sealRaw =
     (case decodeSeal sealRaw of
        Inl e \<Rightarrow> Inl e
      | Inr seal \<Rightarrow>
          let suites = (if sl_Suite seal = [] then [SuiteIDAEAD] else [sl_Suite seal]);
              d = NewDriverWithSuites offeredVersions suites (sl_SessionID seal) (sl_MACKey seal) True;
              d = d\<lparr>dr_Session := (dr_Session d)\<lparr>se_State := SessActive, se_Selected := sl_Selected seal,
                     se_SelectedSuite := sl_Suite seal, se_PeerAuthenticated := True, se_AuthI2R := True, se_AuthR2I := True,
                     se_ArchiveAuthorized := True\<rparr>, dr_SendSeq := sl_SendSeq seal, dr_RecvSeq := sl_RecvSeq seal\<rparr> in
          case SetAEADKey d (sl_AEADKey seal) of
            (d, Some err) \<Rightarrow> Inl (rs_wrap KindAuth ''aead'' (drv_error_text err))
          | (d, None) \<Rightarrow> Inr \<lparr>rss_Driver = d, rss_Root = None, rss_Role = ''serve''\<rparr>)"

subsection \<open>Frames on the queue\<close>

lemma head_of_wire:
  assumes "length (fr_SessionID f) = 16"
  shows "take HeaderBytes (frame_wire k f @ rest) = frame_head f"
  using length_frame_head [OF assms] by (simp add: frame_wire_def)

lemma slice_head:
  assumes "length (fr_SessionID f) = 16" "j \<le> HeaderBytes"
  shows "slice i j (frame_head f) = slice i j (frame_wire k f)"
  using slice_take [OF assms(2), of i "frame_wire k f @ []"] head_of_wire [OF assms(1), of k "[]"] by simp

lemma drive_ReadFrame:
  assumes c: "canonical_frame k f" and s: "sendable k f"
  shows "drive ReadFrame (frame_wire k f @ rest) = (Finish (Inr (frame_wire k f)), rest, [], 2)"
proof -
  have sid: "length (fr_SessionID f) = 16" and fl: "fr_Flags f = (if k = [] then 0 else FlagRequiresMAC)"
    using c by (simp_all add: canonical_frame_def)
  have len: "unat (len32 (fr_Body f) :: u32) = length (fr_Body f)" "\<not> MaxBodyBytes < length (fr_Body f)"
    using s by (simp_all add: sendable_def body_len_small)
  have sl: "slice 0 8 (frame_head f) = FrameMagic" "slice 12 14 (frame_head f) = PutU16LE (fr_Flags f)"
    "slice 14 18 (frame_head f) = PutU32LE (len32 (fr_Body f))"
    using slice_head [OF sid, of _ _ k] frame_wire_slices(1,4,5) [OF sid, of k "[]"] by (simp_all add: HeaderBytes_def)
  define tail where "tail = drop HeaderBytes (frame_wire k f)"
  have wire: "frame_wire k f = frame_head f @ tail"
    using length_frame_head [OF sid] by (simp add: tail_def frame_wire_def)
  have lt: "length tail = length (fr_Body f) + (if k = [] then 0 else AuthBytes)"
    using length_frame_wire [OF sid, of k] by (simp add: tail_def)
  have "\<not> length (frame_wire k f @ rest) < HeaderBytes"
    using length_frame_wire [OF sid, of k] by simp
  then show ?thesis
    using len lt fl unfolding ReadFrame_def
    by (simp add: head_of_wire [OF sid] sl Let_def wire length_frame_head [OF sid] FlagRequiresMAC_def)
qed

lemma ReadFrame_waits: "drive (orFail ReadFrame g) [] = (orFail ReadFrame g, [], [], 0)"
  by (simp add: ReadFrame_def orFail_def HeaderBytes_def)

lemma drive_WriteFrame:
  assumes "length (fr_SessionID f) = 16"
  shows "drive (WriteFrame (frame_wire k f)) i = (Finish (Inr ()), i, frame_wire k f, 1)"
  using length_frame_wire [OF assms, of k] by (simp add: WriteFrame_def)

lemma drive_sendEncoded:
  assumes "r = (d, Inr (frame_wire k f))" "length (fr_SessionID f) = 16"
  shows "drive (sendEncoded kd msg r go) i = (case drive (go d) i of (q, j, out, n) \<Rightarrow> (q, j, frame_wire k f @ out, n + 1))"
proof -
  obtain q j out n where "drive (go d) i = (q, j, out, n)"
    by (metis prod_cases4)
  then show ?thesis
    using drive_orFail [OF drive_WriteFrame [OF assms(2), of k i], of "\<lambda>_. go d"] assms(1) by (simp add: sendEncoded_def)
qed

lemma drive_readHandle:
  assumes "Handle A d f = (e, None)"
    and "canonical_frame (dr_MACKey d) f" "sendable (dr_MACKey d) f" "dr_RequireMAC d \<longrightarrow> dr_MACKey d \<noteq> []" "k = dr_MACKey d"
  shows "drive (readHandle A d kd msg go) (frame_wire k f @ i) = (case drive (go e) i of (q, j, out, n) \<Rightarrow> (q, j, out, n + 2))"
proof -
  obtain q j out n where go: "drive (go e) i = (q, j, out, n)"
    by (metis prod_cases4)
  have "DecodeAndHandle A d (frame_wire k f) = (e, Some f, None)"
    using Decode_frame_wire [OF assms(2-4)] assms(1,5) by (simp add: DecodeAndHandle_def)
  then have "drive (readHandle A d kd msg go) (frame_wire k f @ i) = (q, j, [] @ out, 2 + n)"
    unfolding readHandle_def using go assms(2,3,5) by (intro drive_orFail [OF drive_ReadFrame]) simp_all
  then show ?thesis
    using go by simp
qed

lemma readHandle_waits: "drive (readHandle A d kd msg go) [] = (readHandle A d kd msg go, [], [], 0)"
  unfolding readHandle_def by (rule ReadFrame_waits)

subsection \<open>Keys of the handshake\<close>

lemma HKDF_32: "\<exists>key. HKDFSHA256 ikm salt info 32 = Inr key \<and> length key = 32"
proof -
  have "expandLoop prk info 32 [] [] 1 = Inr (rfc_blocks prk info 1)" for prk
    using expandLoop_blocks [of 0 prk info 32] by (simp add: rfc_blocks_def)
  then show ?thesis
    by (simp add: HKDFSHA256_def Let_def length_rfc_blocks)
qed

lemma ChannelMACKey_ok:
  assumes "length root = 32"
  shows "\<exists>key. ChannelMACKey root ''push'' ''serve'' = Inr key \<and> length key = 32"
proof -
  obtain lo hi where "(if string_less ''serve'' ''push'' then (''serve'', ''push'') else (''push'', ''serve'')) = (lo, hi)"
    by fastforce
  then have "ChannelMACKey root ''push'' ''serve'' =
      HKDFSHA256 root None ((((bytes_of ''integris-ipc-mac-v1'' @ [0]) @ bytes_of lo) @ [0]) @ bytes_of hi) 32"
    using assms by (simp add: ChannelMACKey_def Let_def)
  then show ?thesis
    using HKDF_32 by metis
qed

lemma deriveMACKey_ok:
  assumes "length root = 32"
  shows "\<exists>key. deriveMACKey root peerID = Inr key \<and> length key = 32"
proof -
  obtain base where "ChannelMACKey root ''push'' ''serve'' = Inr base" "length base = 32"
    using ChannelMACKey_ok [OF assms] by blast
  then show ?thesis
    using HKDF_32 [of base None "bytes_of (''integris-peer-id|'' @ peerID)"] by (simp add: deriveMACKey_def)
qed

lemma handshake_keys_ok:
  assumes "length root = 32"
  obtains auth arch where "PeerAuthKey root sid = Inr auth" "ArchiveAuthKey root sid = Inr arch" "length auth = 32" "length arch = 32"
  using assms HKDF_32 [of root None "(bytes_of SuiteIDPeerAuth @ [0]) @ sid"] HKDF_32 [of root None "(bytes_of SuiteIDArchiveAuth @ [0]) @ sid"]
  by (auto simp: PeerAuthKey_def ArchiveAuthKey_def Let_def)

lemma TrafficKey_ok: "length root = 32 \<Longrightarrow> \<exists>key. TrafficKey root t sid SuiteIDAEAD = Inr key \<and> length key = 32"
  using HKDF_32 [of root None "((bytes_of SuiteIDAEAD @ [0]) @ sid) @ t"] by (simp add: TrafficKey_def Let_def AEADKeySize_def)

subsection \<open>The session through the handshake\<close>

definition hs_at :: "sess_state \<Rightarrow> bool \<Rightarrow> bool \<Rightarrow> session \<Rightarrow> bool" where
  "hs_at st i2r r2i s \<longleftrightarrow> se_State s = st \<and> se_Offered s = [3, 2] \<and> se_Selected s = 3 \<and> se_SelectedSuite s = SuiteIDAEAD \<and>
     se_Transcript s \<noteq> None \<and> se_AuthBaseSet s \<and> se_AuthI2R s = i2r \<and> se_AuthR2I s = r2i \<and>
     se_PeerAuthenticated s = (i2r \<and> r2i) \<and> se_ArchiveBaseSet s = (i2r \<and> r2i) \<and>
     se_ArchiveAuthorized s = (st \<in> {SessArchiveAuthorized, SessActive}) \<and> se_ReceiveSequence s = 0 \<and> se_MaxAccept s = 0"

definition hs_start :: session where
  "hs_start = (NewWithSuites [3, 2] [SuiteIDAEAD])\<lparr>se_Transcript := Some NewTranscript\<rparr>"

lemma bind_field_more [simp]:
  "(se_Transcript (bind_field s l d) = None) = (se_Transcript s = None)"
  "se_AuthBaseSet (bind_field s l d) = se_AuthBaseSet s" "se_ArchiveBaseSet (bind_field s l d) = se_ArchiveBaseSet s"
  "se_AuthBaseDigest (bind_field s l d) = se_AuthBaseDigest s"
  by (simp_all add: bind_field_def split: option.split sum.split)

lemma freezeAuthBase_more [simp]:
  "se_SelectedSuite (freezeAuthBase s) = se_SelectedSuite s" "se_OfferedSuites (freezeAuthBase s) = se_OfferedSuites s"
  "se_Transcript (freezeAuthBase s) = se_Transcript s"
  "se_AuthBaseSet (freezeAuthBase s) = (se_AuthBaseSet s \<or> se_Transcript s \<noteq> None)"
  "se_ArchiveBaseSet (freezeAuthBase s) = se_ArchiveBaseSet s"
  by (auto simp: freezeAuthBase_def split: option.split)

lemma freezeArchiveBase_more [simp]:
  "se_SelectedSuite (freezeArchiveBase s) = se_SelectedSuite s" "se_Transcript (freezeArchiveBase s) = se_Transcript s"
  "se_AuthBaseSet (freezeArchiveBase s) = se_AuthBaseSet s" "se_AuthBaseDigest (freezeArchiveBase s) = se_AuthBaseDigest s"
  "se_ArchiveBaseSet (freezeArchiveBase s) = (se_ArchiveBaseSet s \<or> se_Transcript s \<noteq> None)"
  by (auto simp: freezeArchiveBase_def split: option.split)

lemma SuiteIDAEAD_nonempty [simp]: "SuiteIDAEAD \<noteq> []"
  by (simp add: SuiteIDAEAD_def)

lemma negotiate_both:
  "snd (Negotiate hs_start) = None \<and> hs_at SessNegotiated False False (fst (Negotiate hs_start)) \<and>
   se_OfferedSuites (fst (Negotiate hs_start)) = [SuiteIDAEAD]"
proof -
  have "SelectSuite LocalSuites [SuiteIDAEAD] = (SuiteIDAEAD, True)"
    by (simp add: SelectSuite_def LocalSuites_def)
  then show ?thesis
    by (simp add: Negotiate_def hs_start_def NewWithSuites_def NewSession_def candidates_def LocalAllowed_def Let_def hs_at_def)
qed

lemma hs_not_downgraded: "hs_at st x y s \<Longrightarrow> \<not> downgraded s"
  by (simp add: hs_at_def downgraded_def candidates_def LocalAllowed_def)

lemma peer_proof:
  assumes "16 \<le> length k" "dir = ''i2r'' \<or> dir = ''r2i''"
  shows "\<exists>p. PeerAuthProof k t sid dir = Inr p \<and> length p = 32 \<and> VerifyPeerAuthProof k t sid dir p = None"
  using assms by (auto simp: PeerAuthProof_def VerifyPeerAuthProof_def HMACSHA256_def Let_def)

text \<open>A proof the driver makes is the proof its own session and the peer's accept.\<close>

lemma prove_i2r:
  assumes "hs_at SessNegotiated False False s" "16 \<le> length k"
  shows "\<exists>p. MakeAuthProof s k sid ''i2r'' = Inr p \<and> length p = 32 \<and>
    snd (AuthenticateProof s k sid ''i2r'' p) = None \<and> hs_at SessNegotiated True False (fst (AuthenticateProof s k sid ''i2r'' p))"
proof -
  obtain p where p: "PeerAuthProof k (se_AuthBaseDigest s) sid ''i2r'' = Inr p" "length p = 32"
      "VerifyPeerAuthProof k (se_AuthBaseDigest s) sid ''i2r'' p = None"
    using peer_proof [OF assms(2)] by blast
  then show ?thesis
    using assms(1) hs_not_downgraded [OF assms(1)]
    by (intro exI [of _ p]) (simp add: MakeAuthProof_def lift_crypto_def AuthenticateProof_def hs_at_def Let_def)
qed

lemma prove_r2i:
  assumes "hs_at SessNegotiated True False s" "16 \<le> length k"
  shows "\<exists>p. MakeAuthProof s k sid ''r2i'' = Inr p \<and> length p = 32 \<and>
    snd (AuthenticateProof s k sid ''r2i'' p) = None \<and> hs_at SessPeerAuthenticated True True (fst (AuthenticateProof s k sid ''r2i'' p))"
proof -
  obtain p where p: "PeerAuthProof k (se_AuthBaseDigest s) sid ''r2i'' = Inr p" "length p = 32"
      "VerifyPeerAuthProof k (se_AuthBaseDigest s) sid ''r2i'' p = None"
    using peer_proof [OF assms(2)] by blast
  then show ?thesis
    using assms(1) hs_not_downgraded [OF assms(1)]
    by (intro exI [of _ p]) (simp add: MakeAuthProof_def lift_crypto_def AuthenticateProof_def hs_at_def Let_def)
qed

lemma prove_archive:
  assumes "hs_at SessPeerAuthenticated True True s" "16 \<le> length k"
  shows "\<exists>p. MakeArchiveProof s k sid = Inr p \<and> length p = 32 \<and>
    snd (AuthorizeArchiveProof s k sid p) = None \<and> hs_at SessArchiveAuthorized True True (fst (AuthorizeArchiveProof s k sid p))"
  using assms
  by (simp add: MakeArchiveProof_def lift_crypto_def AuthorizeArchiveProof_def ArchiveAuthProof_def VerifyArchiveAuthProof_def
      HMACSHA256_def hs_at_def Let_def del: not_None_eq)

lemma activate_both:
  "hs_at SessArchiveAuthorized True True s \<Longrightarrow> snd (Activate s) = None \<and> hs_at SessActive True True (fst (Activate s))"
  using hs_not_downgraded by (simp add: Activate_def hs_at_def Let_def)

subsection \<open>The driver through the handshake\<close>

definition hs_frame :: "bytes \<Rightarrow> u64 \<Rightarrow> message_type \<Rightarrow> bytes \<Rightarrow> frame" where
  "hs_frame sid seq t body = \<lparr>fr_Version = ProtocolVersion, fr_Type = t, fr_Flags = FlagRequiresMAC, fr_SessionID = sid,
     fr_Sequence = seq, fr_Body = body\<rparr>"

lemma hs_frame_fields [simp]:
  "fr_Type (hs_frame sid seq t b) = t" "fr_SessionID (hs_frame sid seq t b) = sid" "fr_Sequence (hs_frame sid seq t b) = seq"
  "fr_Body (hs_frame sid seq t b) = b"
  by (simp_all add: hs_frame_def)

definition keyed :: "driver \<Rightarrow> bool" where
  "keyed d \<longleftrightarrow> length (dr_SessionID d) = 16 \<and> length (dr_MACKey d) = 32 \<and> dr_RequireMAC d"

lemma keyed_key: "keyed d \<Longrightarrow> dr_MACKey d \<noteq> [] \<and> drv_ok d"
  by (auto simp: keyed_def drv_ok_def)

lemma hs_frame_ok:
  assumes "keyed d" "known t" "length b \<le> MaxBodyBytes" "sid = dr_SessionID d"
  shows "canonical_frame (dr_MACKey d) (hs_frame sid seq t b)" "sendable (dr_MACKey d) (hs_frame sid seq t b)"
  using assms by (auto simp: keyed_def canonical_frame_def sendable_def hs_frame_def)

lemma EncodeFrame_control:
  assumes "keyed d" "known t" "length b \<le> MaxBodyBytes" "t \<noteq> TypeData"
  shows "EncodeFrame A d t b =
    (d\<lparr>dr_SendSeq := dr_SendSeq d + 1\<rparr>, Inr (frame_wire (dr_MACKey d) (hs_frame (dr_SessionID d) (dr_SendSeq d) t b)))"
proof -
  have "wire_body A d t b = b" "drv_frame d t b = hs_frame (dr_SessionID d) (dr_SendSeq d) t b"
    using assms keyed_key [OF assms(1)] by (simp_all add: wire_body_def drv_frame_def hs_frame_def)
  then show ?thesis
    using EncodeFrame_sends [of d A t b] assms keyed_key [OF assms(1)] by simp
qed

lemma Handle_hs_frame:
  assumes "known t" "sid = dr_SessionID d" "seq = dr_RecvSeq d" "handleSwitch A d (hs_frame sid seq t b) = (e, None)"
  shows "Handle A d (hs_frame sid seq t b) = (e\<lparr>dr_RecvSeq := dr_RecvSeq e + 1\<rparr>, None)"
  using assms by (simp add: Handle_def CriticalUnknown_def)

lemma known_types:
  "known TypeNegotiateOffer" "known TypeNegotiateAccept" "known TypePeerAuth" "known TypeArchiveAuth" "known TypeActivate" "known TypeData"
  by (simp_all add: known_def message_type_defs)

lemma types_distinct:
  "TypeNegotiateAccept \<noteq> TypeNegotiateOffer" "TypePeerAuth \<noteq> TypeNegotiateOffer" "TypePeerAuth \<noteq> TypeNegotiateAccept"
  "TypeArchiveAuth \<noteq> TypeNegotiateOffer" "TypeArchiveAuth \<noteq> TypeNegotiateAccept" "TypeArchiveAuth \<noteq> TypePeerAuth"
  "TypeActivate \<noteq> TypeNegotiateOffer" "TypeActivate \<noteq> TypeNegotiateAccept" "TypeActivate \<noteq> TypePeerAuth" "TypeActivate \<noteq> TypeArchiveAuth"
  "TypeData \<noteq> TypeNegotiateOffer" "TypeData \<noteq> TypeNegotiateAccept" "TypeData \<noteq> TypePeerAuth" "TypeData \<noteq> TypeArchiveAuth"
  "TypeData \<noteq> TypeActivate"
  "TypeNegotiateOffer \<noteq> TypeData" "TypeNegotiateAccept \<noteq> TypeData" "TypePeerAuth \<noteq> TypeData" "TypeArchiveAuth \<noteq> TypeData"
  "TypeActivate \<noteq> TypeData"
  by (simp_all add: message_type_defs)

lemma hs_offer_body:
  "\<exists>b. EncodeNegotiateOfferBody [3, 2] [SuiteIDAEAD] = Inr b \<and> ParseNegotiateOfferBody b = Inr ([3, 2], [SuiteIDAEAD]) \<and>
     b \<noteq> [] \<and> length b \<le> MaxBodyBytes"
proof -
  have "\<exists>b. EncodeNegotiateOfferBody [3, 2] [SuiteIDAEAD] = Inr b \<and> b \<noteq> [] \<and> length b \<le> MaxBodyBytes"
    unfolding offer_body_iff by (simp add: suite_ok_def suites_bytes_def suite_bytes_def SuiteIDAEAD_def maxSuiteIDLen_def MaxBodyBytes_def)
  then show ?thesis
    using offer_body_canonical by metis
qed

lemma hs_accept_body:
  "\<exists>b. EncodeNegotiateAcceptBody 3 SuiteIDAEAD = Inr b \<and> ParseNegotiateAcceptBody b = Inr (3, SuiteIDAEAD) \<and>
     b \<noteq> [] \<and> length b \<le> MaxBodyBytes"
proof -
  have "\<exists>b. EncodeNegotiateAcceptBody 3 SuiteIDAEAD = Inr b \<and> b \<noteq> [] \<and> length b \<le> MaxBodyBytes"
    by (simp add: EncodeNegotiateAcceptBody_def SuiteIDAEAD_def maxSuiteIDLen_def MaxBodyBytes_def)
  then show ?thesis
    using accept_body_canonical by metis
qed

text \<open>Offer: what the initiator sends and what a fresh responder makes of it.\<close>

lemma stage_offer:
  assumes "keyed a" "se_OfferedSuites (dr_Session a) = [SuiteIDAEAD]"
  shows "\<exists>b. EncodeNegotiateOffer A a [3, 2] =
      (a\<lparr>dr_SendSeq := dr_SendSeq a + 1\<rparr>, Inr (frame_wire (dr_MACKey a) (hs_frame (dr_SessionID a) (dr_SendSeq a) TypeNegotiateOffer b))) \<and>
    length b \<le> MaxBodyBytes \<and>
    (\<forall>d. dr_Session d = hs_start \<and> dr_SessionID d = dr_SessionID a \<and> dr_RecvSeq d = dr_SendSeq a \<longrightarrow>
      Handle A d (hs_frame (dr_SessionID a) (dr_SendSeq a) TypeNegotiateOffer b) =
        (d\<lparr>dr_Session := fst (Negotiate hs_start), dr_RecvSeq := dr_RecvSeq d + 1\<rparr>, None))"
proof -
  obtain b where b: "EncodeNegotiateOfferBody [3, 2] [SuiteIDAEAD] = Inr b" "ParseNegotiateOfferBody b = Inr ([3, 2], [SuiteIDAEAD])"
      "b \<noteq> []" "length b \<le> MaxBodyBytes"
    using hs_offer_body by blast
  have "EncodeNegotiateOffer A a [3, 2] =
      (a\<lparr>dr_SendSeq := dr_SendSeq a + 1\<rparr>, Inr (frame_wire (dr_MACKey a) (hs_frame (dr_SessionID a) (dr_SendSeq a) TypeNegotiateOffer b)))"
    using assms b EncodeFrame_control [OF assms(1) known_types(1) b(4), of A] types_distinct
    by (simp add: EncodeNegotiateOffer_def Let_def)
  moreover have "Handle A d (hs_frame (dr_SessionID a) (dr_SendSeq a) TypeNegotiateOffer b) =
        (d\<lparr>dr_Session := fst (Negotiate hs_start), dr_RecvSeq := dr_RecvSeq d + 1\<rparr>, None)"
    if d: "dr_Session d = hs_start" "dr_SessionID d = dr_SessionID a" "dr_RecvSeq d = dr_SendSeq a" for d
  proof -
    have "hs_start\<lparr>se_Offered := [3, 2], se_OfferedSuites := [SuiteIDAEAD]\<rparr> = hs_start" "se_State hs_start = SessNew"
      by (simp_all add: hs_start_def NewWithSuites_def NewSession_def)
    then have "handleSwitch A d (hs_frame (dr_SessionID a) (dr_SendSeq a) TypeNegotiateOffer b) =
        (d\<lparr>dr_Session := fst (Negotiate hs_start)\<rparr>, None)"
      using d b negotiate_both by (simp add: handleSwitch_def handleOffer_def on_session_def Let_def)
    then show ?thesis
      using Handle_hs_frame [OF known_types(1) d(2) [symmetric] d(3) [symmetric]] by simp
  qed
  ultimately show ?thesis
    using b(4) by blast
qed

lemma stage_accept:
  assumes "keyed b" "hs_at SessNegotiated False False (dr_Session b)"
  shows "\<exists>c. EncodeNegotiateAccept A b =
      (b\<lparr>dr_SendSeq := dr_SendSeq b + 1\<rparr>, Inr (frame_wire (dr_MACKey b) (hs_frame (dr_SessionID b) (dr_SendSeq b) TypeNegotiateAccept c))) \<and>
    length c \<le> MaxBodyBytes \<and>
    (\<forall>d. dr_Session d = dr_Session b \<and> dr_SessionID d = dr_SessionID b \<and> dr_RecvSeq d = dr_SendSeq b \<longrightarrow>
      Handle A d (hs_frame (dr_SessionID b) (dr_SendSeq b) TypeNegotiateAccept c) = (d\<lparr>dr_RecvSeq := dr_RecvSeq d + 1\<rparr>, None))"
proof -
  obtain c where c: "EncodeNegotiateAcceptBody 3 SuiteIDAEAD = Inr c" "ParseNegotiateAcceptBody c = Inr (3, SuiteIDAEAD)"
      "c \<noteq> []" "length c \<le> MaxBodyBytes"
    using hs_accept_body by blast
  have st: "se_State (dr_Session b) = SessNegotiated" "se_Selected (dr_Session b) = 3" "se_SelectedSuite (dr_Session b) = SuiteIDAEAD"
    using assms(2) by (simp_all add: hs_at_def)
  have "EncodeNegotiateAccept A b =
      (b\<lparr>dr_SendSeq := dr_SendSeq b + 1\<rparr>, Inr (frame_wire (dr_MACKey b) (hs_frame (dr_SessionID b) (dr_SendSeq b) TypeNegotiateAccept c)))"
    using st c EncodeFrame_control [OF assms(1) known_types(2) c(4), of A] types_distinct
    by (simp add: EncodeNegotiateAccept_def Let_def)
  moreover have "Handle A d (hs_frame (dr_SessionID b) (dr_SendSeq b) TypeNegotiateAccept c) = (d\<lparr>dr_RecvSeq := dr_RecvSeq d + 1\<rparr>, None)"
    if d: "dr_Session d = dr_Session b" "dr_SessionID d = dr_SessionID b" "dr_RecvSeq d = dr_SendSeq b" for d
  proof -
    have "handleSwitch A d (hs_frame (dr_SessionID b) (dr_SendSeq b) TypeNegotiateAccept c) = (d, None)"
      using d st c by (simp add: handleSwitch_def handleAccept_def on_session_def ConfirmAccept_def types_distinct)
    then show ?thesis
      using Handle_hs_frame [OF known_types(2) d(2) [symmetric] d(3) [symmetric]] by simp
  qed
  ultimately show ?thesis
    using c(4) by blast
qed

text \<open>A proof frame: made by one side, it takes both sessions to the same next session.\<close>

lemma stage_proof:
  assumes k: "keyed a" "16 \<le> length (dr_AuthKey a)" and dir: "dr_AuthDir a = dir" "dir = ''i2r'' \<or> dir = ''r2i''"
    and p: "MakeAuthProof (dr_Session a) (dr_AuthKey a) (dr_SessionID a) dir = Inr p" "length p = 32"
    and ok: "AuthenticateProof (dr_Session a) (dr_AuthKey a) (dr_SessionID a) dir p = (s, None)"
  defines "f \<equiv> hs_frame (dr_SessionID a) (dr_SendSeq a) TypePeerAuth (EncodePeerAuthBody dir p)"
  shows "EncodePeerAuth A a = (a\<lparr>dr_SendSeq := dr_SendSeq a + 1, dr_Session := s\<rparr>, Inr (frame_wire (dr_MACKey a) f))"
    and "dr_Session d = dr_Session a \<Longrightarrow> dr_AuthKey d = dr_AuthKey a \<Longrightarrow> dr_SessionID d = dr_SessionID a \<Longrightarrow> dr_RecvSeq d = dr_SendSeq a \<Longrightarrow>
      Handle A d f = (d\<lparr>dr_Session := s, dr_RecvSeq := dr_RecvSeq d + 1\<rparr>, None)"
    and "length (fr_Body f) \<le> MaxBodyBytes"
proof -
  have key: "dr_AuthKey a \<noteq> []" "dr_AuthDir a \<noteq> []"
    using k(2) dir by auto
  have len: "length (EncodePeerAuthBody dir p) \<le> MaxBodyBytes"
    using dir(2) p(2) by (auto simp: EncodePeerAuthBody_def MaxBodyBytes_def)
  then show "length (fr_Body f) \<le> MaxBodyBytes"
    by (simp add: f_def)
  show "EncodePeerAuth A a = (a\<lparr>dr_SendSeq := dr_SendSeq a + 1, dr_Session := s\<rparr>, Inr (frame_wire (dr_MACKey a) f))"
    using key dir p(1) ok EncodeFrame_control [OF k(1) known_types(3) len, of A] types_distinct
    by (simp add: EncodePeerAuth_def on_session_def f_def)
  assume d: "dr_Session d = dr_Session a" "dr_AuthKey d = dr_AuthKey a" "dr_SessionID d = dr_SessionID a" "dr_RecvSeq d = dr_SendSeq a"
  have "ParsePeerAuthBody (EncodePeerAuthBody dir p) = Inr (dir, p)"
    using dir(2) p(2) by (intro peer_auth_body) simp_all
  then have "handleSwitch A d f = (d\<lparr>dr_Session := s\<rparr>, None)"
    using d key ok by (simp add: f_def handleSwitch_def handlePeerAuth_def on_session_def types_distinct)
  then show "Handle A d f = (d\<lparr>dr_Session := s, dr_RecvSeq := dr_RecvSeq d + 1\<rparr>, None)"
    using Handle_hs_frame [OF known_types(3) d(3) [symmetric] d(4) [symmetric]] by (simp add: f_def)
qed

lemma stage_archive:
  assumes k: "keyed a" "16 \<le> length (dr_ArchiveKey a)"
    and p: "MakeArchiveProof (dr_Session a) (dr_ArchiveKey a) (dr_SessionID a) = Inr p" "length p = 32"
    and ok: "AuthorizeArchiveProof (dr_Session a) (dr_ArchiveKey a) (dr_SessionID a) p = (s, None)"
  defines "f \<equiv> hs_frame (dr_SessionID a) (dr_SendSeq a) TypeArchiveAuth p"
  shows "EncodeArchiveAuth A a = (a\<lparr>dr_SendSeq := dr_SendSeq a + 1, dr_Session := s\<rparr>, Inr (frame_wire (dr_MACKey a) f))"
    and "dr_Session d = dr_Session a \<Longrightarrow> dr_ArchiveKey d = dr_ArchiveKey a \<Longrightarrow> dr_SessionID d = dr_SessionID a \<Longrightarrow> dr_RecvSeq d = dr_SendSeq a \<Longrightarrow>
      Handle A d f = (d\<lparr>dr_Session := s, dr_RecvSeq := dr_RecvSeq d + 1\<rparr>, None)"
proof -
  have key: "dr_ArchiveKey a \<noteq> []"
    using k(2) by auto
  have len: "length p \<le> MaxBodyBytes"
    using p(2) by (simp add: MaxBodyBytes_def)
  show "EncodeArchiveAuth A a = (a\<lparr>dr_SendSeq := dr_SendSeq a + 1, dr_Session := s\<rparr>, Inr (frame_wire (dr_MACKey a) f))"
    using key p(1) ok EncodeFrame_control [OF k(1) known_types(4) len, of A] types_distinct
    by (simp add: EncodeArchiveAuth_def on_session_def f_def)
  assume d: "dr_Session d = dr_Session a" "dr_ArchiveKey d = dr_ArchiveKey a" "dr_SessionID d = dr_SessionID a" "dr_RecvSeq d = dr_SendSeq a"
  have "handleSwitch A d f = (d\<lparr>dr_Session := s\<rparr>, None)"
    using d key ok by (simp add: f_def handleSwitch_def handleArchiveAuth_def on_session_def types_distinct)
  then show "Handle A d f = (d\<lparr>dr_Session := s, dr_RecvSeq := dr_RecvSeq d + 1\<rparr>, None)"
    using Handle_hs_frame [OF known_types(4) d(3) [symmetric] d(4) [symmetric]] by (simp add: f_def)
qed

subsection \<open>The two sides together\<close>

definition hs_driver :: "bytes \<Rightarrow> bytes \<Rightarrow> session \<Rightarrow> u64 \<Rightarrow> u64 \<Rightarrow> bytes \<Rightarrow> bytes \<Rightarrow> string \<Rightarrow> driver" where
  "hs_driver sid mac s sn rc auth arch dir = \<lparr>dr_Session = s, dr_SessionID = sid, dr_SendSeq = sn, dr_RecvSeq = rc, dr_MACKey = mac,
     dr_AEADKey = [], dr_AuthKey = auth, dr_AuthDir = dir, dr_ArchiveKey = arch, dr_RequireMAC = True, dr_LastPlaintext = [],
     dr_TrackDataChunks = False, dr_NextDataOffset = 0, dr_NextSendOffset = 0\<rparr>"

lemma hs_driver_fields [simp]:
  "dr_Session (hs_driver sid mac s sn rc auth arch dir) = s" "dr_SessionID (hs_driver sid mac s sn rc auth arch dir) = sid"
  "dr_SendSeq (hs_driver sid mac s sn rc auth arch dir) = sn" "dr_RecvSeq (hs_driver sid mac s sn rc auth arch dir) = rc"
  "dr_MACKey (hs_driver sid mac s sn rc auth arch dir) = mac" "dr_AEADKey (hs_driver sid mac s sn rc auth arch dir) = []"
  "dr_AuthKey (hs_driver sid mac s sn rc auth arch dir) = auth" "dr_AuthDir (hs_driver sid mac s sn rc auth arch dir) = dir"
  "dr_ArchiveKey (hs_driver sid mac s sn rc auth arch dir) = arch" "dr_RequireMAC (hs_driver sid mac s sn rc auth arch dir)"
  "\<not> dr_TrackDataChunks (hs_driver sid mac s sn rc auth arch dir)"
  by (simp_all add: hs_driver_def)

lemma hs_driver_updates [simp]:
  "(hs_driver sid mac s sn rc auth arch dir)\<lparr>dr_Session := s'\<rparr> = hs_driver sid mac s' sn rc auth arch dir"
  "(hs_driver sid mac s sn rc auth arch dir)\<lparr>dr_SendSeq := n\<rparr> = hs_driver sid mac s n rc auth arch dir"
  "(hs_driver sid mac s sn rc auth arch dir)\<lparr>dr_RecvSeq := n\<rparr> = hs_driver sid mac s sn n auth arch dir"
  "(hs_driver sid mac s sn rc auth arch dir)\<lparr>dr_AuthKey := k1, dr_ArchiveKey := k2, dr_AuthDir := x\<rparr> = hs_driver sid mac s sn rc k1 k2 x"
  "(hs_driver sid mac s sn rc auth arch dir)\<lparr>dr_SendSeq := n, dr_Session := s'\<rparr> = hs_driver sid mac s' n rc auth arch dir"
  "(hs_driver sid mac s sn rc auth arch dir)\<lparr>dr_Session := s', dr_RecvSeq := n\<rparr> = hs_driver sid mac s' sn n auth arch dir"
  by (simp_all add: hs_driver_def)

lemma hs_driver_keyed: "length sid = 16 \<Longrightarrow> length mac = 32 \<Longrightarrow> keyed (hs_driver sid mac s sn rc auth arch dir)"
  by (simp add: keyed_def)

lemma hs_new_driver: "NewDriverWithSuites offeredVersions [SuiteIDAEAD] sid mac True = hs_driver sid mac hs_start 1 1 [] [] []"
  by (simp add: NewDriverWithSuites_def NewDriver_def hs_driver_def offeredVersions_def hs_start_def Let_def)

definition hs_s1 :: session where
  "hs_s1 = fst (Negotiate hs_start)"

lemma negotiated: "Negotiate hs_start = (hs_s1, None)" "hs_at SessNegotiated False False hs_s1" "se_OfferedSuites hs_s1 = [SuiteIDAEAD]"
  using negotiate_both by (simp_all add: hs_s1_def prod_eq_iff)


abbreviation hs_mid :: "bytes \<Rightarrow> bytes \<Rightarrow> driver" where
  "hs_mid sid mac \<equiv> hs_driver sid mac hs_s1 2 2 [] [] []"

text \<open>The three places at which the initiator, the initiator and the responder wait.\<close>

abbreviation hs_wait1 :: "aead \<Rightarrow> bytes \<Rightarrow> bytes \<Rightarrow> bytes \<Rightarrow> (rs_error + rs_session) conn" where
  "hs_wait1 A root sid mac \<equiv> readHandle A (hs_driver sid mac hs_s1 2 1 [] [] []) KindHandshake ''accept'' (dialAccepted A root sid)"

abbreviation hs_wait2 :: "aead \<Rightarrow> bytes \<Rightarrow> bytes \<Rightarrow> bytes \<Rightarrow> session \<Rightarrow> bytes \<Rightarrow> bytes \<Rightarrow> (rs_error + rs_session) conn" where
  "hs_wait2 A root sid mac s auth arch \<equiv>
     readHandle A (hs_driver sid mac s 3 2 auth arch ''i2r'') KindAuth ''peer auth r2i'' (dialProved A root)"

abbreviation hs_wait3 :: "aead \<Rightarrow> bytes \<Rightarrow> bytes \<Rightarrow> bytes \<Rightarrow> session \<Rightarrow> bytes \<Rightarrow> bytes \<Rightarrow> (rs_error + rs_session) conn" where
  "hs_wait3 A root sid mac s auth arch \<equiv>
     readHandle A (hs_driver sid mac s 3 3 auth arch ''r2i'') KindAuth ''archive auth'' (\<lambda>bob.
       readHandle A bob KindHandshake ''activate'' (\<lambda>bob. installKey bob root ''serve''))"

text \<open>What a program does with its inbox, and what follows a wait.\<close>

definition talks :: "'a conn \<Rightarrow> bytes \<Rightarrow> 'a conn \<Rightarrow> bytes \<Rightarrow> nat \<Rightarrow> bool" where
  "talks p inbox q out n \<longleftrightarrow> drive p inbox = (q, [], out, n)"

lemma drive_orFail_ReadFrame:
  assumes "canonical_frame k f" "sendable k f"
  shows "drive (orFail ReadFrame go) (frame_wire k f) = (case drive (go (frame_wire k f)) [] of (q, j, out, n) \<Rightarrow> (q, j, out, n + 2))"
proof -
  obtain q j out n where "drive (go (frame_wire k f)) [] = (q, j, out, n)"
    by (metis prod_cases4)
  then show ?thesis
    using drive_orFail [OF drive_ReadFrame [OF assms, of "[]"], of go q j out n] by simp
qed

lemma run_offer:
  assumes sid: "length sid = 16" and mac: "length mac = 32" "deriveMACKey root peerID = Inr mac" and root: "length root = 32"
    and wait: "talks (acceptSent A root sid (hs_mid sid mac)) [] (acceptSent A root sid (hs_mid sid mac)) [] 0"
    and reply: "talks (dialAccepted A root sid (hs_mid sid mac)) [] q out n"
  obtains f1 f2 where "talks (dialStart A root mac sid) [] (hs_wait1 A root sid mac) (frame_wire mac f1) 1"
    "talks (acceptHandshake A root peerID) (frame_wire mac f1) (acceptSent A root sid (hs_mid sid mac)) (frame_wire mac f2) 3"
    "talks (hs_wait1 A root sid mac) (frame_wire mac f2) q out (n + 2)"
proof -
  note keyed = hs_driver_keyed [OF sid mac(1)]
  have mac0: "mac \<noteq> []"
    using mac(1) by auto
  obtain b where b: "EncodeNegotiateOffer A (hs_driver sid mac hs_s1 1 1 [] [] []) [3, 2] =
        (hs_driver sid mac hs_s1 2 1 [] [] [], Inr (frame_wire mac (hs_frame sid 1 TypeNegotiateOffer b)))" "length b \<le> MaxBodyBytes"
      "Handle A (hs_driver sid mac hs_start 1 1 [] [] []) (hs_frame sid 1 TypeNegotiateOffer b) = (hs_driver sid mac hs_s1 1 2 [] [] [], None)"
    using stage_offer [OF keyed, of hs_s1 1 1 "[]" "[]" "[]" A] negotiated(3) by (auto simp: hs_s1_def [symmetric])
  obtain c where c: "EncodeNegotiateAccept A (hs_driver sid mac hs_s1 1 2 [] [] []) =
        (hs_mid sid mac, Inr (frame_wire mac (hs_frame sid 1 TypeNegotiateAccept c)))" "length c \<le> MaxBodyBytes"
      "Handle A (hs_driver sid mac hs_s1 2 1 [] [] []) (hs_frame sid 1 TypeNegotiateAccept c) = (hs_mid sid mac, None)"
    using stage_accept [OF keyed, of hs_s1 1 2 "[]" "[]" "[]" A] negotiated(2) by auto
  note f1 = hs_frame_ok [OF keyed [of hs_s1 1 1 "[]" "[]" "[]"] known_types(1) b(2), of sid 1, simplified]
  note f2 = hs_frame_ok [OF keyed [of hs_s1 1 1 "[]" "[]" "[]"] known_types(2) c(2), of sid 1, simplified]
  show thesis
  proof (rule that [of "hs_frame sid 1 TypeNegotiateOffer b" "hs_frame sid 1 TypeNegotiateAccept c"])
    show "talks (dialStart A root mac sid) [] (hs_wait1 A root sid mac) (frame_wire mac (hs_frame sid 1 TypeNegotiateOffer b)) 1"
      using sid unfolding talks_def
      by (simp add: dialStart_def hs_new_driver on_session_def negotiated(1) Let_def)
        (simp add: offeredVersions_def drive_sendEncoded [OF b(1)] readHandle_waits)
    have dec: "Decode (frame_wire mac (hs_frame sid 1 TypeNegotiateOffer b)) mac True = Inr (hs_frame sid 1 TypeNegotiateOffer b)"
      using f1 mac0 by (intro Decode_frame_wire) auto
    show "talks (acceptHandshake A root peerID) (frame_wire mac (hs_frame sid 1 TypeNegotiateOffer b))
        (acceptSent A root sid (hs_mid sid mac)) (frame_wire mac (hs_frame sid 1 TypeNegotiateAccept c)) 3"
      using root mac(2) dec wait sid unfolding acceptHandshake_def talks_def
      by (simp add: RootKeySize_def drive_orFail_ReadFrame [OF f1] Let_def hs_new_driver b(3) drive_sendEncoded [OF c(1)])
    show "talks (hs_wait1 A root sid mac) (frame_wire mac (hs_frame sid 1 TypeNegotiateAccept c)) q out (n + 2)"
      using drive_readHandle [OF c(3), of mac _ _ "dialAccepted A root sid" "[]"] f2 mac0 reply by (simp add: talks_def)
  qed
qed

lemma run_proofs:
  assumes sid: "length sid = 16" and mac: "length mac = 32" and root: "length root = 32"
  obtains s2 s3 auth arch f3 f4 db kd msg go where "16 \<le> length arch" "hs_at SessPeerAuthenticated True True s3"
    "acceptSent A root sid (hs_mid sid mac) = readHandle A db kd msg go"
    "talks (dialAccepted A root sid (hs_mid sid mac)) [] (hs_wait2 A root sid mac s2 auth arch) (frame_wire mac f3) 1"
    "talks (acceptSent A root sid (hs_mid sid mac)) (frame_wire mac f3) (hs_wait3 A root sid mac s3 auth arch) (frame_wire mac f4) 3"
    "\<And>q out n. talks (dialProved A root (hs_driver sid mac s3 3 3 auth arch ''i2r'')) [] q out n \<Longrightarrow>
       talks (hs_wait2 A root sid mac s2 auth arch) (frame_wire mac f4) q out (n + 2)"
proof -
  note keyed = hs_driver_keyed [OF sid mac]
  have mac0: "mac \<noteq> []"
    using mac by auto
  obtain auth arch where keys: "PeerAuthKey root sid = Inr auth" "ArchiveAuthKey root sid = Inr arch" "length auth = 32" "length arch = 32"
    using handshake_keys_ok [OF root] .
  have k16: "16 \<le> length auth"
    using keys by simp
  obtain p2 s2 where p2: "MakeAuthProof hs_s1 auth sid ''i2r'' = Inr p2" "length p2 = 32"
      "AuthenticateProof hs_s1 auth sid ''i2r'' p2 = (s2, None)" "hs_at SessNegotiated True False s2"
    using prove_i2r [OF negotiated(2) k16] by (metis prod.collapse)
  obtain p3 s3 where p3: "MakeAuthProof s2 auth sid ''r2i'' = Inr p3" "length p3 = 32"
      "AuthenticateProof s2 auth sid ''r2i'' p3 = (s3, None)" "hs_at SessPeerAuthenticated True True s3"
    using prove_r2i [OF p2(4) k16] by (metis prod.collapse)
  let ?f3 = "hs_frame sid 2 TypePeerAuth (EncodePeerAuthBody ''i2r'' p2)"
  let ?f4 = "hs_frame sid 2 TypePeerAuth (EncodePeerAuthBody ''r2i'' p3)"
  note st3 = stage_proof [OF keyed [of hs_s1 2 2 auth arch "''i2r''"], where dir = "''i2r''" and p = p2 and s = s2, simplified, OF k16 p2(1-3)]
  note st4 = stage_proof [OF keyed [of s2 2 3 auth arch "''r2i''"], where dir = "''r2i''" and p = p3 and s = s3, simplified, OF k16 p3(1-3)]
  note h3 = st3(2) [where A = A and d = "hs_driver sid mac hs_s1 2 2 auth arch ''r2i''", simplified]
  note h4 = st4(2) [where A = A and d = "hs_driver sid mac s2 3 2 auth arch ''i2r''", simplified]
  note f3 = hs_frame_ok [OF keyed [of hs_s1 1 1 "[]" "[]" "[]"] known_types(3) st3(3), of sid 2, simplified]
  note f4 = hs_frame_ok [OF keyed [of hs_s1 1 1 "[]" "[]" "[]"] known_types(3) st4(3), of sid 2, simplified]
  have hk: "handshakeKeys root sid (hs_driver sid mac hs_s1 2 2 [] [] []) x = Inr (hs_driver sid mac hs_s1 2 2 auth arch x)" for x
    by (simp add: handshakeKeys_def keys)
  show thesis
  proof (rule that [of arch s3 _ _ _ _ s2 auth ?f3 ?f4])
    show "acceptSent A root sid (hs_mid sid mac) = readHandle A (hs_driver sid mac hs_s1 2 2 auth arch ''r2i'') KindAuth
        ''peer auth i2r'' (\<lambda>bob. sendEncoded KindAuth ''peer auth r2i'' (EncodePeerAuth A bob) (\<lambda>bob. readHandle A bob KindAuth ''archive auth''
          (\<lambda>bob. readHandle A bob KindHandshake ''activate'' (\<lambda>bob. installKey bob root ''serve''))))"
      by (simp add: acceptSent_def hk)
    show "talks (dialAccepted A root sid (hs_mid sid mac)) [] (hs_wait2 A root sid mac s2 auth arch) (frame_wire mac ?f3) 1"
      using sid by (simp add: talks_def dialAccepted_def hk drive_sendEncoded [OF st3(1)] readHandle_waits)
    have "drive (acceptSent A root sid (hs_mid sid mac)) (frame_wire mac ?f3 @ []) = (hs_wait3 A root sid mac s3 auth arch, [], frame_wire mac ?f4, 3)"
      using f3 mac0 sid unfolding acceptSent_def hk sum.case
      by (subst drive_readHandle [OF h3]) (simp_all add: drive_sendEncoded [OF st4(1)] readHandle_waits)
    then show "talks (acceptSent A root sid (hs_mid sid mac)) (frame_wire mac ?f3) (hs_wait3 A root sid mac s3 auth arch) (frame_wire mac ?f4) 3"
      by (simp add: talks_def)
    show "talks (hs_wait2 A root sid mac s2 auth arch) (frame_wire mac ?f4) q out (n + 2)"
      if "talks (dialProved A root (hs_driver sid mac s3 3 3 auth arch ''i2r'')) [] q out n" for q out n
      using drive_readHandle [OF h4, of mac _ _ "dialProved A root" "[]"] f4 mac0 that by (simp add: talks_def)
  qed (use keys(4) p3(4) in simp_all)
qed

text \<open>The drivers both sides end with.\<close>

definition hs_done :: "bytes \<Rightarrow> bytes \<Rightarrow> bytes \<Rightarrow> bytes \<Rightarrow> rs_session \<Rightarrow> rs_session \<Rightarrow> bool" where
  "hs_done root sid mac key sa sb \<longleftrightarrow> (\<exists>s auth arch. hs_at SessActive True True s \<and> length key = 32 \<and>
     sa = \<lparr>rss_Driver = (hs_driver sid mac s 5 3 auth arch ''i2r'')\<lparr>dr_AEADKey := key\<rparr>, rss_Root = Some root, rss_Role = ''push''\<rparr> \<and>
     sb = \<lparr>rss_Driver = (hs_driver sid mac s 3 5 auth arch ''r2i'')\<lparr>dr_AEADKey := key\<rparr>, rss_Root = Some root, rss_Role = ''serve''\<rparr>)"

lemma drive_send:
  assumes "EncodeFrame A d t b = (e, Inr (frame_wire k f))" "length (fr_SessionID f) = 16"
  shows "drive (orFail (send A d t b) go) i = (case drive (go e) i of (q, j, out, n) \<Rightarrow> (q, j, frame_wire k f @ out, n + 1))"
proof -
  obtain q j out n where go: "drive (go e) i = (q, j, out, n)"
    by (metis prod_cases4)
  have "drive (send A d t b) i = (Finish (Inr e), i, frame_wire k f @ [], 1 + 0)"
    using drive_orFail [OF drive_WriteFrame [OF assms(2), of k i], of "\<lambda>_. Finish (Inr e)"] assms(1) by (simp add: send_def)
  from drive_orFail [OF this, of go] show ?thesis
    using go by simp
qed

lemma run_activate:
  assumes sid: "length sid = 16" and mac: "length mac = 32" and root: "length root = 32" and arch: "16 \<le> length arch"
    and s3: "hs_at SessPeerAuthenticated True True s3"
  obtains sa sb key w where "hs_done root sid mac key sa sb"
    "talks (dialProved A root (hs_driver sid mac s3 3 3 auth arch ''i2r'')) [] (Finish (Inr sa)) w 2"
    "talks (hs_wait3 A root sid mac s3 auth arch) w (Finish (Inr sb)) [] 4"
proof -
  note keyed = hs_driver_keyed [OF sid mac]
  have mac0: "mac \<noteq> []"
    using mac by auto
  obtain p s4 where p: "MakeArchiveProof s3 arch sid = Inr p" "length p = 32" "AuthorizeArchiveProof s3 arch sid p = (s4, None)"
      "hs_at SessArchiveAuthorized True True s4"
    using prove_archive [OF s3 arch] by (metis prod.collapse)
  obtain s5 where s5: "Activate s4 = (s5, None)" "hs_at SessActive True True s5"
    using activate_both [OF p(4)] by (metis prod.collapse)
  note st = stage_archive [OF keyed [of s3 3 3 auth arch "''i2r''"], where p = p and s = s4, simplified, OF arch p(1-3)]
  note h5 = st(2) [where A = A and d = "hs_driver sid mac s3 3 3 auth arch ''r2i''", simplified]
  let ?f5 = "hs_frame sid 3 TypeArchiveAuth p" and ?f6 = "hs_frame sid 4 TypeActivate []"
  have len: "length p \<le> MaxBodyBytes" "length ([] :: bytes) \<le> MaxBodyBytes"
    using p(2) by (simp_all add: MaxBodyBytes_def)
  note f5 = hs_frame_ok [OF keyed [of hs_s1 1 1 "[]" "[]" "[]"] known_types(4) len(1), of sid 3, simplified]
  note f6 = hs_frame_ok [OF keyed [of hs_s1 1 1 "[]" "[]" "[]"] known_types(5) len(2), of sid 4, simplified]
  have enc6: "EncodeFrame A (hs_driver sid mac s5 4 3 auth arch ''i2r'') TypeActivate [] =
      (hs_driver sid mac s5 5 3 auth arch ''i2r'', Inr (frame_wire mac ?f6))"
    using EncodeFrame_control [OF keyed [of s5 4 3 auth arch "''i2r''"] known_types(5) len(2)] types_distinct by simp
  have h6: "Handle A (hs_driver sid mac s4 3 4 auth arch ''r2i'') ?f6 = (hs_driver sid mac s5 3 5 auth arch ''r2i'', None)"
    using Handle_hs_frame [OF known_types(5), of sid "hs_driver sid mac s4 3 4 auth arch ''r2i''" 4 A "[]"] s5(1)
    by (simp add: handleSwitch_def types_distinct on_session_def)
  obtain t where t: "se_Transcript s5 = Some t" "se_State s5 = SessActive" "se_SelectedSuite s5 = SuiteIDAEAD"
    using s5(2) by (auto simp: hs_at_def)
  obtain key where key: "TrafficKey root (TranscriptDigest t) sid SuiteIDAEAD = Inr key" "length key = 32"
    using TrafficKey_ok [OF root] by blast
  have inst: "installKey (hs_driver sid mac s5 n m auth arch dir) root role =
      Finish (Inr \<lparr>rss_Driver = (hs_driver sid mac s5 n m auth arch dir)\<lparr>dr_AEADKey := key\<rparr>, rss_Root = Some root, rss_Role = role\<rparr>)"
    for n m dir role
    using t key by (simp add: installKey_def InstallTrafficKey_def SetAEADKey_def AEADKeySize_def)
  show thesis
  proof (rule that [of key _ _ "frame_wire mac ?f5 @ frame_wire mac ?f6"])
    show "talks (dialProved A root (hs_driver sid mac s3 3 3 auth arch ''i2r'')) []
        (Finish (Inr \<lparr>rss_Driver = (hs_driver sid mac s5 5 3 auth arch ''i2r'')\<lparr>dr_AEADKey := key\<rparr>, rss_Root = Some root, rss_Role = ''push''\<rparr>))
        (frame_wire mac ?f5 @ frame_wire mac ?f6) 2"
      using sid by (simp add: talks_def dialProved_def drive_sendEncoded [OF st(1)] on_session_def s5(1) drive_send [OF enc6] inst)
    show "talks (hs_wait3 A root sid mac s3 auth arch) (frame_wire mac ?f5 @ frame_wire mac ?f6)
        (Finish (Inr \<lparr>rss_Driver = (hs_driver sid mac s5 3 5 auth arch ''r2i'')\<lparr>dr_AEADKey := key\<rparr>, rss_Root = Some root, rss_Role = ''serve''\<rparr>))
        [] 4"
      using f5 f6 mac0 drive_readHandle [OF h6, of mac KindHandshake "''activate''" "\<lambda>bob. installKey bob root ''serve''" "[]"]
      by (simp add: talks_def drive_readHandle [OF h5] inst)
  qed (use s5(2) key(2) in \<open>auto simp: hs_done_def\<close>)
qed

lemma drive_andThen_waits:
  "drive p i = (q, j, out, n) \<Longrightarrow> (\<And>a. q \<noteq> Finish a) \<Longrightarrow> drive (andThen p f) i = (andThen q f, j, out, n)"
proof (induction p arbitrary: i q j out n)
  case (Put b k)
  obtain q1 j1 out1 n1 where d: "drive (k (Inr (length b))) i = (q1, j1, out1, n1)"
    by (metis prod_cases4)
  then have "q1 = q"
    using Put.prems(1) by simp
  then have "drive (andThen (k (Inr (length b))) f) i = (andThen q f, j1, out1, n1)"
    using Put.IH [OF _ d] Put.prems(2) by auto
  then show ?case
    using Put.prems(1) d by simp
next
  case (Get m k)
  show ?case
  proof (cases "m \<le> length i")
    case True
    obtain q1 j1 out1 n1 where d: "drive (k (Inr (take m i))) (drop m i) = (q1, j1, out1, n1)"
      by (metis prod_cases4)
    then have "q1 = q"
      using Get.prems(1) True by simp
    then have "drive (andThen (k (Inr (take m i))) f) (drop m i) = (andThen q f, j1, out1, n1)"
      using Get.IH [OF _ d] Get.prems(2) by auto
    then show ?thesis
      using Get.prems(1) d True by simp
  qed (use Get.prems in auto)
qed auto

lemma readHandle_not_finished: "readHandle A d kd msg go \<noteq> Finish a"
  by (simp add: readHandle_def orFail_def ReadFrame_def)

definition prologue :: "string \<Rightarrow> bytes" where
  "prologue pid = (bytes_of peerPrologueMagic @ [word_of_nat (length pid)]) @ bytes_of pid"

lemma length_peerPrologueMagic [simp]: "length peerPrologueMagic = 8"
  by (simp add: peerPrologueMagic_def)

lemma drive_WritePeerPrologue:
  "ValidatePeerID pid = None \<Longrightarrow> drive (WritePeerPrologue pid) i = (Finish (Inr ()), i, prologue pid, 1)"
  by (simp add: WritePeerPrologue_def prologue_def Let_def)

lemma drive_ReadPeerPrologue:
  assumes "ValidatePeerID pid = None"
  shows "drive ReadPeerPrologue (prologue pid @ rest) = (Finish (Inr pid), rest, [], 2)"
proof -
  have len: "pid \<noteq> []" "length pid \<le> 64"
    using assms by (auto simp: ValidatePeerID_def maxPeerIDLen_def split: if_splits)
  have split: "take 9 (prologue pid @ rest) = bytes_of peerPrologueMagic @ [word_of_nat (length pid)]"
      "drop 9 (prologue pid @ rest) = bytes_of pid @ rest" "9 \<le> length (prologue pid @ rest)"
    by (simp_all add: prologue_def)
  have n: "unat ((bytes_of peerPrologueMagic @ [word_of_nat (length pid) :: byte]) ! 8) = length pid"
    using len by (simp add: nth_append unat_byte_small)
  show ?thesis
    using assms len n split unfolding ReadPeerPrologue_def by (simp add: maxPeerIDLen_def Let_def)
qed

lemma validateKeys_member: "validateKeys kr = None \<Longrightarrow> map_of kr pid = Some root \<Longrightarrow> ValidatePeerID pid = None \<and> length root = 32"
  by (induction kr) (auto simp: RootKeySize_def split: option.splits if_splits)

definition hs_net :: "aead \<Rightarrow> bytes \<Rightarrow> bytes \<Rightarrow> string \<Rightarrow> peer_keyring \<Rightarrow> (rs_error + rs_session, (rs_error + rs_session) \<times> string) net" where
  "hs_net A sid root pid kr = \<lparr>nt_left = DialHandshake A (Inr sid) root pid, nt_right = AcceptHandshakeKeyring A kr,
     nt_toLeft = [], nt_toRight = []\<rparr>"

definition hs_final :: "rs_session \<Rightarrow> rs_session \<Rightarrow> string \<Rightarrow> (rs_error + rs_session, (rs_error + rs_session) \<times> string) net" where
  "hs_final sa sb pid = \<lparr>nt_left = Finish (Inr sa), nt_right = Finish (Inr sb, pid), nt_toLeft = [], nt_toRight = []\<rparr>"

lemma hs_final_stuck: "\<not> net_step (hs_final sa sb pid) u"
  by (simp add: hs_final_def net_step_def left_move_def right_move_def)

lemma relpowp_join: "(r ^^ m) a b \<Longrightarrow> (r ^^ n) b c \<Longrightarrow> (r ^^ (m + n)) a c"
  by (auto simp: relpowp_add)

lemma talks_left:
  assumes "talks p i q out n" "t = \<lparr>nt_left = q, nt_right = r, nt_toLeft = [], nt_toRight = y @ out\<rparr>"
  shows "(net_step ^^ n) \<lparr>nt_left = p, nt_right = r, nt_toLeft = i, nt_toRight = y\<rparr> t"
  using drive_left assms unfolding talks_def by blast

lemma talks_right:
  assumes "talks p i q out n" "t = \<lparr>nt_left = l, nt_right = q, nt_toLeft = x @ out, nt_toRight = []\<rparr>"
  shows "(net_step ^^ n) \<lparr>nt_left = l, nt_right = p, nt_toLeft = x, nt_toRight = i\<rparr> t"
  using drive_right assms unfolding talks_def by blast

lemma talks_wrapped:
  "talks p i q out n \<Longrightarrow> (\<And>a. q \<noteq> Finish a) \<Longrightarrow> talks (andThen p f) i (andThen q f) out n"
  "talks p i (Finish a) out n \<Longrightarrow> f a = Finish b \<Longrightarrow> talks (andThen p f) i (Finish b) out n"
  unfolding talks_def using drive_andThen_waits [of p i q "[]" out n f] drive_andThen [of p i a "[]" out n f "Finish b" "[]" "[]" 0] by auto

lemma talks_dial:
  assumes "talks (dialStart A root mac sid) [] q out n" "ValidatePeerID pid = None" "length root = 32" "deriveMACKey root pid = Inr mac"
  shows "talks (DialHandshake A (Inr sid) root pid) [] q (prologue pid @ out) (n + 1)"
proof -
  have "pid \<noteq> []"
    using assms(2) by (auto simp: ValidatePeerID_def)
  then show ?thesis
    using assms drive_orFail [OF drive_WritePeerPrologue [OF assms(2), of "[]"], of "\<lambda>_. dialStart A root mac sid" q "[]" out n]
    by (simp add: talks_def DialHandshake_def RootKeySize_def newSessionID_def)
qed

lemma talks_accept:
  assumes "talks (acceptHandshake A root pid) i q out n" "\<And>a. q \<noteq> Finish a" "ValidatePeerID pid = None"
    "ValidateKeyring kr = None" "map_of kr pid = Some root"
  shows "talks (AcceptHandshakeKeyring A kr) (prologue pid @ i) (andThen q (\<lambda>sess. Finish (sess, pid))) out (n + 2)"
proof -
  have "talks (andThen (acceptHandshake A root pid) (\<lambda>sess. Finish (sess, pid))) i (andThen q (\<lambda>sess. Finish (sess, pid))) out n"
    using assms(1,2) by (rule talks_wrapped)
  then have "drive (AcceptHandshakeKeyring A kr) (prologue pid @ i) = (andThen q (\<lambda>sess. Finish (sess, pid)), [], [] @ out, 2 + n)"
    unfolding AcceptHandshakeKeyring_def assms(4) option.case talks_def
    by (intro drive_andThen [OF drive_ReadPeerPrologue [OF assms(3)]]) (simp add: assms(5))
  then show ?thesis
    by (simp add: talks_def)
qed

lemma handshake_run:
  assumes sid: "length sid = 16" and kr: "ValidateKeyring kr = None" "map_of kr pid = Some root"
    and mac: "deriveMACKey root pid = Inr mac" "length mac = 32"
  obtains sa sb key where "(net_step ^^ 21) (hs_net A sid root pid kr) (hs_final sa sb pid)" "hs_done root sid mac key sa sb"
proof -
  have pid: "ValidatePeerID pid = None" and root: "length root = 32"
    using kr validateKeys_member by (auto simp: ValidateKeyring_def split: if_splits)
  obtain s2 s3 auth arch f3 f4 db kd msg go where p0: "16 \<le> length arch" "hs_at SessPeerAuthenticated True True s3"
    and pw: "acceptSent A root sid (hs_mid sid mac) = readHandle A db kd msg go"
    and p1: "talks (dialAccepted A root sid (hs_mid sid mac)) [] (hs_wait2 A root sid mac s2 auth arch) (frame_wire mac f3) 1"
    and p2: "talks (acceptSent A root sid (hs_mid sid mac)) (frame_wire mac f3) (hs_wait3 A root sid mac s3 auth arch) (frame_wire mac f4) 3"
    and p3: "\<And>q out n. talks (dialProved A root (hs_driver sid mac s3 3 3 auth arch ''i2r'')) [] q out n \<Longrightarrow>
       talks (hs_wait2 A root sid mac s2 auth arch) (frame_wire mac f4) q out (n + 2)"
    by (rule run_proofs [OF sid mac(2) root, of A]) (rule that)
  have w: "talks (acceptSent A root sid (hs_mid sid mac)) [] (acceptSent A root sid (hs_mid sid mac)) [] 0"
    unfolding pw talks_def by (rule readHandle_waits)
  have nf: "acceptSent A root sid (hs_mid sid mac) \<noteq> Finish a" for a
    unfolding pw by (rule readHandle_not_finished)
  obtain f1 f2 where o1: "talks (dialStart A root mac sid) [] (hs_wait1 A root sid mac) (frame_wire mac f1) 1"
    and o2: "talks (acceptHandshake A root pid) (frame_wire mac f1) (acceptSent A root sid (hs_mid sid mac)) (frame_wire mac f2) 3"
    and o3: "talks (hs_wait1 A root sid mac) (frame_wire mac f2) (hs_wait2 A root sid mac s2 auth arch) (frame_wire mac f3) (1 + 2)"
    by (rule run_offer [OF sid mac(2,1) root w p1]) (rule that)
  obtain sa sb key w where fin: "hs_done root sid mac key sa sb"
    and a1: "talks (dialProved A root (hs_driver sid mac s3 3 3 auth arch ''i2r'')) [] (Finish (Inr sa)) w 2"
    and a2: "talks (hs_wait3 A root sid mac s3 auth arch) w (Finish (Inr sb)) [] 4"
    by (rule run_activate [OF sid mac(2) root p0, of A auth]) (rule that)
  let ?answer_step = "\<lambda>sess. Finish (sess, pid)"
  note m1 = talks_left [OF talks_dial [OF o1 pid root mac(1)] refl, where y = "[]", unfolded append_Nil]
  note m2 = talks_right [OF talks_accept [OF o2 nf pid kr] refl, where x = "[]", unfolded append_Nil]
  note m3 = talks_left [OF o3 refl, where y = "[]", unfolded append_Nil]
  note m4 = talks_right [OF talks_wrapped(1) [OF p2 readHandle_not_finished, where f = ?answer_step] refl, where x = "[]", unfolded append_Nil]
  note m5 = talks_left [OF p3 [OF a1] refl, where y = "[]", unfolded append_Nil]
  note m6 = talks_right [OF talks_wrapped(2) [where f = ?answer_step, OF a2 refl] refl, where x = "[]", unfolded append_Nil]
  note run = relpowp_join [OF relpowp_join [OF relpowp_join [OF relpowp_join [OF relpowp_join [OF m1 m2] m3] m4] m5] m6]
  have "(net_step ^^ (1 + 1 + (3 + 2) + (1 + 2) + 3 + (2 + 2) + 4)) (hs_net A sid root pid kr) (hs_final sa sb pid)"
    unfolding hs_net_def hs_final_def by (rule run)
  then show thesis
    using fin that by simp
qed

end
