(* ===== verification/Handshake_Correct.thy ===== *)
theory Handshake_Correct
  imports Handshake
begin

text \<open>
  What a completed handshake gives its two ends: application data sent with \<open>sendData\<close> on one
  side is what \<open>recvData\<close> returns on the other, in order and up to the session's accept limit.
  The theory closes with the properties of the whole exchange: it completes from every
  reachable state, it terminates in every interleaving, and its traffic nonces repeat.
\<close>


subsection \<open>Application data after the handshake\<close>

text \<open>
  What the code relies on in ChaCha20-Poly1305: opening undoes sealing under the same key, nonce
  and associated data, and sealing adds a 16-byte tag.
\<close>

definition aead_correct :: "aead \<Rightarrow> bool" where
  "aead_correct A \<longleftrightarrow> (\<forall>k n p a. aead_open A k n (aead_seal A k n p a) a = Some p \<and> length (aead_seal A k n p a) = length p + 16)"

definition protocolMaxBodyUseful :: nat where
  "protocolMaxBodyUseful = 1048576 - 256"

primrec sendMany :: "aead \<Rightarrow> bytes list \<Rightarrow> rs_session \<Rightarrow> (rs_error + rs_session) conn" where
  "sendMany A [] s = Finish (Inr s)"
| "sendMany A (p # ps) s = orFail (sendData A s p) (sendMany A ps)"

primrec recvMany :: "aead \<Rightarrow> nat \<Rightarrow> bytes list \<Rightarrow> rs_session \<Rightarrow> (rs_error + rs_session \<times> bytes list) conn" where
  "recvMany A 0 got s = Finish (Inr (s, got))"
| "recvMany A (Suc n) got s = orFail (recvData A s) (\<lambda>(s, p). recvMany A n (got @ [p]) s)"

text \<open>A sender and a receiver that agree on keys and position, with room for \<open>m\<close> more frames.\<close>

definition linked :: "nat \<Rightarrow> driver \<Rightarrow> driver \<Rightarrow> bool" where
  "linked m d e \<longleftrightarrow> keyed d \<and> keyed e \<and> dr_SessionID e = dr_SessionID d \<and> dr_MACKey e = dr_MACKey d \<and>
     length (dr_AEADKey d) = 32 \<and> dr_AEADKey e = dr_AEADKey d \<and> dr_RecvSeq e = dr_SendSeq d \<and> \<not> dr_TrackDataChunks e \<and>
     se_State (dr_Session e) = SessActive \<and> unat (se_ReceiveSequence (dr_Session e)) + m \<le> unat (accept_limit (dr_Session e))"

definition sealed_frame :: "aead \<Rightarrow> driver \<Rightarrow> bytes \<Rightarrow> frame" where
  "sealed_frame A d p = hs_frame (dr_SessionID d) (dr_SendSeq d) TypeData
     (aead_seal A (dr_AEADKey d) (SequenceNonce (dr_SendSeq d)) p (dataAAD d TypeData (dr_SendSeq d)))"

lemma EncodeFrame_data:
  assumes "keyed d" "length (dr_AEADKey d) = 32" "aead_correct A" "length p \<le> protocolMaxBodyUseful"
  shows "EncodeFrame A d TypeData p = (d\<lparr>dr_SendSeq := dr_SendSeq d + 1\<rparr>, Inr (frame_wire (dr_MACKey d) (sealed_frame A d p)))"
    and "canonical_frame (dr_MACKey d) (sealed_frame A d p)" "sendable (dr_MACKey d) (sealed_frame A d p)"
proof -
  have key: "dr_AEADKey d \<noteq> []"
    using assms(2) by auto
  have wb: "wire_body A d TypeData p = fr_Body (sealed_frame A d p)"
    using key by (simp add: wire_body_def sealed_frame_def)
  have len: "length (fr_Body (sealed_frame A d p)) \<le> MaxBodyBytes" "length p \<le> MaxBodyBytes"
    using assms(3,4) by (simp_all add: sealed_frame_def aead_correct_def MaxBodyBytes_def protocolMaxBodyUseful_def)
  have fr: "drv_frame d TypeData (fr_Body (sealed_frame A d p)) = sealed_frame A d p"
    using keyed_key [OF assms(1)] by (simp add: drv_frame_def sealed_frame_def hs_frame_def)
  show "EncodeFrame A d TypeData p = (d\<lparr>dr_SendSeq := dr_SendSeq d + 1\<rparr>, Inr (frame_wire (dr_MACKey d) (sealed_frame A d p)))"
    using EncodeFrame_sends [of d A TypeData p] keyed_key [OF assms(1)] len assms(2) known_types(6) wb fr by simp
  show "canonical_frame (dr_MACKey d) (sealed_frame A d p)" "sendable (dr_MACKey d) (sealed_frame A d p)"
    unfolding sealed_frame_def using assms(1) known_types(6) len(1) by (auto intro!: hs_frame_ok simp: sealed_frame_def)
qed

lemma linked_step:
  assumes l: "linked (Suc m) d e" and A: "aead_correct A" and p: "length p \<le> protocolMaxBodyUseful"
  obtains e' where "Handle A e (sealed_frame A d p) = (e', None)" "dr_LastPlaintext e' = p"
    "linked m (d\<lparr>dr_SendSeq := dr_SendSeq d + 1\<rparr>) e'"
proof -
  let ?s = "dr_Session e"
  have room: "se_ReceiveSequence ?s < accept_limit ?s"
    using l by (simp add: linked_def word_less_nat_alt)
  then have next_seq: "unat (se_ReceiveSequence ?s + 1) = Suc (unat (se_ReceiveSequence ?s))"
    using unsigned_less [of "accept_limit ?s", where ?'a = nat]
    by (simp add: unat_word_ariths word_less_nat_alt)
  define s' where "s' = ?s\<lparr>se_ReceiveSequence := se_ReceiveSequence ?s + 1, se_ProductMutation := True\<rparr>"
  have acc: "AcceptNext ?s = (s', None)"
    using l room by (simp add: AcceptNext_def linked_def s'_def Let_def not_le)
  have key: "dr_AEADKey e \<noteq> []"
    using l by (auto simp: linked_def)
  have aad: "dataAAD e TypeData n = dataAAD d TypeData n" for n
    using l by (simp add: linked_def dataAAD_def)
  have opened: "Open A (dr_AEADKey e) (SequenceNonce (dr_SendSeq d)) (dataAAD e TypeData (dr_SendSeq d)) (fr_Body (sealed_frame A d p)) = Inr p"
    using l A by (simp add: linked_def Open_def newAEAD_def AEADKeySize_def sealed_frame_def aead_correct_def aad)
  let ?e' = "e\<lparr>dr_LastPlaintext := p, dr_Session := s', dr_RecvSeq := dr_RecvSeq e + 1\<rparr>"
  have sw: "handleSwitch A e (sealed_frame A d p) = (e\<lparr>dr_LastPlaintext := p, dr_Session := s'\<rparr>, None)"
    using l key opened acc
    by (simp add: handleSwitch_def handleData_def sealed_frame_def types_distinct on_session_def linked_def)
  have h: "Handle A e (sealed_frame A d p) = (?e', None)"
    using sw l known_types(6) unfolding sealed_frame_def by (simp add: Handle_def linked_def CriticalUnknown_def)
  have "accept_limit s' = accept_limit ?s" "se_State s' = se_State ?s" "unat (se_ReceiveSequence s') = Suc (unat (se_ReceiveSequence ?s))"
    using next_seq by (simp_all add: s'_def accept_limit_def)
  then have "linked m (d\<lparr>dr_SendSeq := dr_SendSeq d + 1\<rparr>) ?e'"
    using l by (simp add: linked_def keyed_def)
  then show thesis
    using h by (intro that) simp_all
qed

lemma drive_sendData:
  assumes "keyed d" "length (dr_AEADKey d) = 32" "aead_correct A" "length p \<le> protocolMaxBodyUseful" "d = rss_Driver s"
  shows "drive (orFail (sendData A s p) go) i =
    (case drive (go (s\<lparr>rss_Driver := d\<lparr>dr_SendSeq := dr_SendSeq d + 1\<rparr>\<rparr>)) i of
       (q, j, out, n) \<Rightarrow> (q, j, frame_wire (dr_MACKey d) (sealed_frame A d p) @ out, n + 1))"
proof -
  note enc = EncodeFrame_data [OF assms(1-4)]
  have sid: "length (fr_SessionID (sealed_frame A d p)) = 16"
    using assms(1) by (simp add: sealed_frame_def keyed_def)
  let ?s = "s\<lparr>rss_Driver := d\<lparr>dr_SendSeq := dr_SendSeq d + 1\<rparr>\<rparr>"
  obtain q j out n where go: "drive (go ?s) i = (q, j, out, n)"
    by (metis prod_cases4)
  have "drive (sendData A s p) i = (Finish (Inr ?s), i, frame_wire (dr_MACKey d) (sealed_frame A d p) @ [], 0 + 1)"
    unfolding sendData_def assms(5) [symmetric] by (subst drive_send [OF enc(1) sid]) simp
  then show ?thesis
    by (subst drive_orFail_eq) (auto simp: go)
qed

lemma drive_recvData:
  assumes "linked (Suc m) d (rss_Driver s)" "aead_correct A" "length p \<le> protocolMaxBodyUseful"
  obtains e' where "linked m (d\<lparr>dr_SendSeq := dr_SendSeq d + 1\<rparr>) e'"
    "\<And>(go :: rs_session \<times> bytes \<Rightarrow> (rs_error + rs_session \<times> bytes list) conn) i.
       drive (orFail (recvData A s) go) (frame_wire (dr_MACKey d) (sealed_frame A d p) @ i) =
       (case drive (go (s\<lparr>rss_Driver := e'\<rparr>, p)) i of (q, j, out, n) \<Rightarrow> (q, j, out, n + 2))"
proof -
  let ?w = "frame_wire (dr_MACKey d) (sealed_frame A d p)"
  obtain e' where e': "Handle A (rss_Driver s) (sealed_frame A d p) = (e', None)" "dr_LastPlaintext e' = p"
      "linked m (d\<lparr>dr_SendSeq := dr_SendSeq d + 1\<rparr>) e'"
    using linked_step [OF assms] .
  have k: "keyed d" "length (dr_AEADKey d) = 32" "dr_MACKey (rss_Driver s) = dr_MACKey d" "keyed (rss_Driver s)"
    using assms(1) by (simp_all add: linked_def)
  note fr = EncodeFrame_data(2,3) [OF k(1,2) assms(2,3)]
  have "Decode ?w (dr_MACKey d) True = Inr (sealed_frame A d p)"
    using Decode_frame_wire [OF fr] keyed_key [OF k(1)] by blast
  then have dh: "DecodeAndHandle A (rss_Driver s) ?w = (e', Some (sealed_frame A d p), None)"
    using k(3,4) e'(1) by (simp add: DecodeAndHandle_def keyed_def)
  have t: "fr_Type (sealed_frame A d p) = TypeData"
    by (simp add: sealed_frame_def)
  have rv: "drive (recv A (rss_Driver s)) (?w @ i) = (Finish (Inr (e', sealed_frame A d p)), i, [], 2)" for i
    unfolding recv_def by (subst drive_orFail_eq [OF drive_ReadFrame [OF fr]]) (simp add: dh)
  have r: "drive (recvData A s) (?w @ i) = (Finish (Inr (s\<lparr>rss_Driver := e'\<rparr>, p)), i, [], 2)" for i
    unfolding recvData_def by (subst drive_orFail_eq [OF rv]) (simp add: t e'(2))
  show thesis
  proof (rule that [OF e'(3)])
    fix go :: "rs_session \<times> bytes \<Rightarrow> (rs_error + rs_session \<times> bytes list) conn" and i
    show "drive (orFail (recvData A s) go) (?w @ i) =
       (case drive (go (s\<lparr>rss_Driver := e'\<rparr>, p)) i of (q, j, out, n) \<Rightarrow> (q, j, out, n + 2))"
      by (subst drive_orFail_eq [OF r]) (simp split: prod.split)
  qed
qed

lemma data_stream:
  assumes "linked (length ps) (rss_Driver sa) (rss_Driver sb)" "aead_correct A" "\<forall>p\<in>set ps. length p \<le> protocolMaxBodyUseful"
  shows "\<exists>sa' sb' w. drive (sendMany A ps sa) [] = (Finish (Inr sa'), [], w, length ps) \<and>
    drive (recvMany A (length ps) got sb) w = (Finish (Inr (sb', got @ ps)), [], [], 2 * length ps)"
  using assms(1,3)
proof (induction ps arbitrary: sa sb got)
  case (Cons p ps)
  let ?d = "rss_Driver sa"
  have p: "length p \<le> protocolMaxBodyUseful" and l: "linked (Suc (length ps)) ?d (rss_Driver sb)" and k: "keyed ?d" "length (dr_AEADKey ?d) = 32"
    using Cons.prems by (simp_all add: linked_def)
  obtain e' where e': "linked (length ps) (?d\<lparr>dr_SendSeq := dr_SendSeq ?d + 1\<rparr>) e'"
    "\<And>(go :: rs_session \<times> bytes \<Rightarrow> (rs_error + rs_session \<times> bytes list) conn) i. drive (orFail (recvData A sb) go) (frame_wire (dr_MACKey ?d) (sealed_frame A ?d p) @ i) =
       (case drive (go (sb\<lparr>rss_Driver := e'\<rparr>, p)) i of (q, j, out, n) \<Rightarrow> (q, j, out, n + 2))"
    by (rule drive_recvData [OF l assms(2) p]) (rule that)
  obtain sa' sb' w where "drive (sendMany A ps (sa\<lparr>rss_Driver := ?d\<lparr>dr_SendSeq := dr_SendSeq ?d + 1\<rparr>\<rparr>)) [] = (Finish (Inr sa'), [], w, length ps)"
      "drive (recvMany A (length ps) (got @ [p]) (sb\<lparr>rss_Driver := e'\<rparr>)) w = (Finish (Inr (sb', (got @ [p]) @ ps)), [], [], 2 * length ps)"
    using Cons.IH [of "sa\<lparr>rss_Driver := ?d\<lparr>dr_SendSeq := dr_SendSeq ?d + 1\<rparr>\<rparr>" "sb\<lparr>rss_Driver := e'\<rparr>" "got @ [p]"] e'(1) Cons.prems(2) by auto
  then show ?case
    using drive_sendData [OF k assms(2) p refl, where go = "sendMany A ps" and i = "[]"] e'(2)
    by (intro exI [of _ sa'] exI [of _ sb'] exI [of _ "frame_wire (dr_MACKey ?d) (sealed_frame A ?d p) @ w"]) simp
qed simp

lemma hs_done_linked:
  assumes "hs_done root sid mac key sa sb" "length sid = 16" "length mac = 32"
  shows "linked 1048576 (rss_Driver sa) (rss_Driver sb)" "linked 1048576 (rss_Driver sb) (rss_Driver sa)"
  using assms by (auto simp: hs_done_def linked_def keyed_def hs_at_def accept_limit_def DefaultMaxAccept_def)

lemma linked_less: "linked m d e \<Longrightarrow> n \<le> m \<Longrightarrow> linked n d e"
  by (simp add: linked_def)

text \<open>Everything sent by \<open>sa\<close> arrives at \<open>sb\<close>, in order, up to the session's accept limit.\<close>

definition delivers :: "aead \<Rightarrow> rs_session \<Rightarrow> rs_session \<Rightarrow> bool" where
  "delivers A sa sb \<longleftrightarrow> (\<forall>ps. length ps \<le> 1048576 \<and> (\<forall>p\<in>set ps. length p \<le> protocolMaxBodyUseful) \<longrightarrow>
     (\<exists>sa' sb' w. drive (sendMany A ps sa) [] = (Finish (Inr sa'), [], w, length ps) \<and>
        drive (recvMany A (length ps) [] sb) w = (Finish (Inr (sb', ps)), [], [], 2 * length ps)))"

lemma linked_delivers:
  assumes "linked 1048576 (rss_Driver sa) (rss_Driver sb)" "aead_correct A"
  shows "delivers A sa sb"
  unfolding delivers_def using data_stream [OF linked_less [OF assms(1)] assms(2), where got = "[]"] by simp

lemma handshake_end:
  assumes "length sid = 16" "ValidateKeyring kr = None" "map_of kr pid = Some root"
  obtains sa sb mac key where "(net_step ^^ 21) (hs_net A sid root pid kr) (hs_final sa sb pid)" "hs_done root sid mac key sa sb" "length mac = 32"
proof -
  have "length root = 32"
    using assms(2,3) validateKeys_member by (auto simp: ValidateKeyring_def split: if_splits)
  then obtain mac where mac: "deriveMACKey root pid = Inr mac" "length mac = 32"
    using deriveMACKey_ok by blast
  obtain sa sb key where "(net_step ^^ 21) (hs_net A sid root pid kr) (hs_final sa sb pid)" "hs_done root sid mac key sa sb"
    by (rule handshake_run [OF assms mac, of A]) (rule that)
  then show thesis
    using mac(2) that by blast
qed

text \<open>The bytes a run of \<open>sendMany\<close> puts on the wire.\<close>

primrec sealed_stream :: "aead \<Rightarrow> driver \<Rightarrow> bytes list \<Rightarrow> bytes" where
  "sealed_stream A d [] = []"
| "sealed_stream A d (p # ps) = frame_wire (dr_MACKey d) (sealed_frame A d p) @ sealed_stream A (d\<lparr>dr_SendSeq := dr_SendSeq d + 1\<rparr>) ps"

lemma sendMany_stream:
  assumes "keyed (rss_Driver s)" "length (dr_AEADKey (rss_Driver s)) = 32" "aead_correct A" "\<forall>p\<in>set ps. length p \<le> protocolMaxBodyUseful"
  shows "\<exists>s'. drive (sendMany A ps s) [] = (Finish (Inr s'), [], sealed_stream A (rss_Driver s) ps, length ps)"
  using assms(1,2,4)
proof (induction ps arbitrary: s)
  case (Cons p ps)
  let ?t = "s\<lparr>rss_Driver := (rss_Driver s)\<lparr>dr_SendSeq := dr_SendSeq (rss_Driver s) + 1\<rparr>\<rparr>"
  obtain s' where "drive (sendMany A ps ?t) [] = (Finish (Inr s'), [], sealed_stream A (rss_Driver ?t) ps, length ps)"
    using Cons.IH [of ?t] Cons.prems by (auto simp: keyed_def)
  then show ?case
    using drive_sendData [OF Cons.prems(1,2) assms(3), of p s "sendMany A ps" "[]"] Cons.prems(3) by simp
qed simp

text \<open>A cipher that meets \<open>aead_correct\<close>: it appends a constant tag.\<close>

definition tag_aead :: aead where
  "tag_aead = \<lparr>aead_seal = (\<lambda>k n p a. p @ replicate 16 0), aead_open = (\<lambda>k n c a. Some (take (length c - 16) c))\<rparr>"

lemma tag_aead_correct: "aead_correct tag_aead"
  by (simp add: aead_correct_def tag_aead_def)

definition one_peer :: peer_keyring where
  "one_peer = [(''a'', replicate 32 0)]"

lemma one_peer_ok: "ValidateKeyring one_peer = None" "map_of one_peer ''a'' = Some (replicate 32 0)"
  by (simp_all add: one_peer_def ValidateKeyring_def ValidatePeerID_def RootKeySize_def maxPeerKeyring_def maxPeerIDLen_def)

subsection \<open>Properties\<close>

text \<open>
  C2: The handshake completes.  With a 16-byte session id, a valid keyring that holds the
  initiator's root key under its peer id and a cipher that opens what it seals, let the two
  sides \<open>DialHandshake\<close> and \<open>AcceptHandshakeKeyring\<close> run over a reliable connection, interleaved
  in any way.  Whatever steps have been taken, the run can be completed, and always to an end in
  which both sides hold an active session in the same state with the same 32-byte traffic key,
  each expects the other's next sequence number, and any up to 1,048,576 payloads then sent by
  either side are received by the other unchanged and in order.
\<close>

theorem handshake_completes:
  assumes "length sid = 16" and "ValidateKeyring kr = None" and "map_of kr pid = Some root" and "aead_correct A"
    and "net_step\<^sup>*\<^sup>* (hs_net A sid root pid kr) u"
  shows "\<exists>sa sb. net_step\<^sup>*\<^sup>* u (hs_final sa sb pid) \<and> dr_Session (rss_Driver sa) = dr_Session (rss_Driver sb) \<and>
    se_State (dr_Session (rss_Driver sa)) = SessActive \<and>
    dr_AEADKey (rss_Driver sa) = dr_AEADKey (rss_Driver sb) \<and> length (dr_AEADKey (rss_Driver sa)) = 32 \<and>
    dr_SendSeq (rss_Driver sa) = dr_RecvSeq (rss_Driver sb) \<and> dr_SendSeq (rss_Driver sb) = dr_RecvSeq (rss_Driver sa) \<and>
    delivers A sa sb \<and> delivers A sb sa"
proof -
  obtain sa sb mac key where run: "(net_step ^^ 21) (hs_net A sid root pid kr) (hs_final sa sb pid)"
    and fin: "hs_done root sid mac key sa sb" and mac: "length mac = 32"
    by (rule handshake_end [OF assms(1-3), of A]) (rule that)
  obtain k where "(net_step ^^ k) (hs_net A sid root pid kr) u"
    using assms(5) by (auto simp: rtranclp_power)
  then have "net_step\<^sup>*\<^sup>* u (hs_final sa sb pid)"
    using net.every_run [OF run hs_final_stuck] by (intro relpowp_imp_rtranclp [where n = "21 - k"]) blast
  moreover have "delivers A sa sb" "delivers A sb sa"
    using hs_done_linked [OF fin assms(1) mac] assms(4) by (auto intro: linked_delivers)
  moreover obtain s auth arch where "hs_at SessActive True True s" "length key = 32"
      "rss_Driver sa = (hs_driver sid mac s 5 3 auth arch ''i2r'')\<lparr>dr_AEADKey := key\<rparr>"
      "rss_Driver sb = (hs_driver sid mac s 3 5 auth arch ''r2i'')\<lparr>dr_AEADKey := key\<rparr>"
    using fin by (auto simp: hs_done_def)
  ultimately show ?thesis
    by (intro exI [of _ sa] exI [of _ sb]) (simp add: hs_at_def)
qed

theorem handshake_completes_witness:
  "\<exists>sa sb. net_step\<^sup>*\<^sup>* (hs_net tag_aead (replicate 16 0) (replicate 32 0) ''a'' one_peer) (hs_final sa sb ''a'') \<and>
    se_State (dr_Session (rss_Driver sa)) = SessActive \<and> delivers tag_aead sa sb \<and> delivers tag_aead sb sa"
  using handshake_completes [of "replicate 16 0" one_peer "''a''" "replicate 32 0" tag_aead, OF _ one_peer_ok tag_aead_correct rtranclp.rtrancl_refl]
  by auto

text \<open>
  C8: Every interleaving of the handshake terminates: a run over a reliable connection has at
  most 21 steps (12 reads and writes of the responder, 9 of the initiator), and a state in which
  neither side can move is reached exactly after 21 steps, with both sides finished successfully
  and nothing left on the wire.  There is no deadlock.
\<close>

theorem handshake_terminates:
  assumes "length sid = 16" and "ValidateKeyring kr = None" and "map_of kr pid = Some root"
    and "(net_step ^^ k) (hs_net A sid root pid kr) u"
  shows "k \<le> 21 \<and> ((\<nexists>v. net_step u v) \<longleftrightarrow> k = 21) \<and> (k = 21 \<longrightarrow> (\<exists>sa sb. u = hs_final sa sb pid))"
proof -
  obtain sa sb mac key where run: "(net_step ^^ 21) (hs_net A sid root pid kr) (hs_final sa sb pid)"
    by (rule handshake_end [OF assms(1-3), of A]) (rule that)
  have rest: "k \<le> 21" "(net_step ^^ (21 - k)) u (hs_final sa sb pid)"
    using net.every_run [OF run hs_final_stuck assms(4)] by simp_all
  have "k = 21 \<Longrightarrow> u = hs_final sa sb pid"
    using rest(2) by (simp only: diff_self_eq_0 relpowp.simps(1))
  moreover have "\<exists>v. net_step u v" if less: "k \<noteq> 21"
  proof -
    obtain m where "21 - k = Suc m"
      using less rest(1) by (cases "21 - k") simp_all
    then have "(net_step ^^ Suc m) u (hs_final sa sb pid)"
      using rest(2) by (simp only:)
    from relpowp_Suc_D2 [OF this] show ?thesis
      by blast
  qed
  ultimately show ?thesis
    using rest(1) hs_final_stuck by blast
qed

theorem handshake_terminates_witness:
  "\<exists>v. net_step (hs_net tag_aead (replicate 16 0) (replicate 32 0) ''a'' one_peer) v"
  using handshake_terminates [of "replicate 16 0" one_peer "''a''" "replicate 32 0" 0 tag_aead, OF _ one_peer_ok] by auto

text \<open>
  C36: Nonces repeat under the traffic key.  After every completed handshake the initiator's first
  data frame and the responder's third one are sealed with the same key, the same nonce and the
  same associated data, whatever the two payloads are: both directions use one key, and the nonce
  is the per-direction sequence number, which is 5 in both.
\<close>

theorem traffic_nonce_repeats:
  assumes "length sid = 16" and "ValidateKeyring kr = None" and "map_of kr pid = Some root" and "aead_correct A"
    and "net_step\<^sup>*\<^sup>* (hs_net A sid root pid kr) (hs_final sa sb pid)"
    and "\<forall>p\<in>{q, m1, m2, m3}. length p \<le> protocolMaxBodyUseful"
  shows "\<exists>mac key aad sa' sb' front.
    drive (sendMany A [q] sa) [] =
      (Finish (Inr sa'), [], frame_wire mac (hs_frame sid 5 TypeData (aead_seal A key (SequenceNonce 5) q aad)), 1) \<and>
    drive (sendMany A [m1, m2, m3] sb) [] =
      (Finish (Inr sb'), [], front @ frame_wire mac (hs_frame sid 5 TypeData (aead_seal A key (SequenceNonce 5) m3 aad)), 3)"
proof -
  obtain ta tb mac key where run: "(net_step ^^ 21) (hs_net A sid root pid kr) (hs_final ta tb pid)"
    and fin: "hs_done root sid mac key ta tb" and mac: "length mac = 32"
    by (rule handshake_end [OF assms(1-3), of A]) (rule that)
  obtain k where "(net_step ^^ k) (hs_net A sid root pid kr) (hs_final sa sb pid)"
    using assms(5) by (auto simp: rtranclp_power)
  then have "(net_step ^^ (21 - k)) (hs_final sa sb pid) (hs_final ta tb pid)"
    using net.every_run [OF run hs_final_stuck] by blast
  then have "hs_final sa sb pid = hs_final ta tb pid"
    using hs_final_stuck by (cases "21 - k") (simp, metis relpowp_Suc_D2)
  then have eq: "sa = ta" "sb = tb"
    by (simp_all add: hs_final_def)
  obtain s auth arch where d: "length key = 32" "rss_Driver sa = (hs_driver sid mac s 5 3 auth arch ''i2r'')\<lparr>dr_AEADKey := key\<rparr>"
      "rss_Driver sb = (hs_driver sid mac s 3 5 auth arch ''r2i'')\<lparr>dr_AEADKey := key\<rparr>"
    using fin by (auto simp: hs_done_def eq)
  let ?aad = "FrameMagic @ PutU16LE TypeData @ sid @ PutU64LE 5"
  have k: "keyed (rss_Driver sa)" "length (dr_AEADKey (rss_Driver sa)) = 32" "keyed (rss_Driver sb)" "length (dr_AEADKey (rss_Driver sb)) = 32"
    using assms(1) mac d by (simp_all add: keyed_def)
  have ps: "\<forall>p\<in>set [q]. length p \<le> protocolMaxBodyUseful" "\<forall>p\<in>set [m1, m2, m3]. length p \<le> protocolMaxBodyUseful"
    using assms(6) by simp_all
  have a: "sealed_stream A (rss_Driver sa) [q] = frame_wire mac (hs_frame sid 5 TypeData (aead_seal A key (SequenceNonce 5) q ?aad))"
    by (simp add: d sealed_frame_def dataAAD_def)
  have b: "\<exists>front. sealed_stream A (rss_Driver sb) [m1, m2, m3] =
      front @ frame_wire mac (hs_frame sid 5 TypeData (aead_seal A key (SequenceNonce 5) m3 ?aad))"
    by (simp add: d sealed_frame_def dataAAD_def)
  from b obtain front where b': "sealed_stream A (rss_Driver sb) [m1, m2, m3] =
      front @ frame_wire mac (hs_frame sid 5 TypeData (aead_seal A key (SequenceNonce 5) m3 ?aad))"
    by blast
  obtain sa' sb' where "drive (sendMany A [q] sa) [] = (Finish (Inr sa'), [], sealed_stream A (rss_Driver sa) [q], length [q])"
    "drive (sendMany A [m1, m2, m3] sb) [] = (Finish (Inr sb'), [], sealed_stream A (rss_Driver sb) [m1, m2, m3], length [m1, m2, m3])"
    using sendMany_stream [OF k(1,2) assms(4) ps(1)] sendMany_stream [OF k(3,4) assms(4) ps(2)] by blast
  then have "drive (sendMany A [q] sa) [] = (Finish (Inr sa'), [], frame_wire mac (hs_frame sid 5 TypeData (aead_seal A key (SequenceNonce 5) q ?aad)), 1)"
    "drive (sendMany A [m1, m2, m3] sb) [] =
      (Finish (Inr sb'), [], front @ frame_wire mac (hs_frame sid 5 TypeData (aead_seal A key (SequenceNonce 5) m3 ?aad)), 3)"
    unfolding a b' by (simp_all del: sendMany.simps)
  then show ?thesis
    by blast
qed

theorem traffic_nonce_repeats_witness:
  "\<exists>sa sb mac key aad sa' sb' front.
    net_step\<^sup>*\<^sup>* (hs_net tag_aead (replicate 16 0) (replicate 32 0) ''a'' one_peer) (hs_final sa sb ''a'') \<and>
    drive (sendMany tag_aead [[1]] sa) [] =
      (Finish (Inr sa'), [], frame_wire mac (hs_frame (replicate 16 0) 5 TypeData (aead_seal tag_aead key (SequenceNonce 5) [1] aad)), 1) \<and>
    drive (sendMany tag_aead [[], [], [2]] sb) [] =
      (Finish (Inr sb'), [], front @ frame_wire mac (hs_frame (replicate 16 0) 5 TypeData (aead_seal tag_aead key (SequenceNonce 5) [2] aad)), 3)"
proof -
  have sid: "length (replicate 16 0 :: bytes) = 16"
    by simp
  obtain sa sb where run: "(net_step ^^ 21) (hs_net tag_aead (replicate 16 0) (replicate 32 0) ''a'' one_peer) (hs_final sa sb ''a'')"
    by (rule handshake_end [OF sid one_peer_ok, of tag_aead]) (rule that)
  have ps: "\<forall>p\<in>{[1], [], [], [2 :: 8 word]}. length p \<le> protocolMaxBodyUseful"
    by (simp add: protocolMaxBodyUseful_def)
  show ?thesis
    using traffic_nonce_repeats [OF sid one_peer_ok tag_aead_correct relpowp_imp_rtranclp [OF run] ps] relpowp_imp_rtranclp [OF run] by blast
qed

end
