(* ===== verification/Authority.thy ===== *)
theory Authority
  imports Compare
begin

text \<open>
  The process authority inventory of \<open>internal/authority\<close>: which capabilities each role of the
  daemon may hold and which it must never hold, the validation of such an inventory, and the
  check of the capabilities conferred on a role.  Roles and capabilities are Go strings; the
  inventory spells the capability constants as their values.  A Go set (a map to empty structs)
  is a set.
\<close>

type_synonym process_role = string
type_synonym capability = string

definition RoleSupervisor :: process_role where "RoleSupervisor = ''integrisd-supervisor''"
definition RoleNet :: process_role where "RoleNet = ''integrisd-net''"
definition RoleAuth :: process_role where "RoleAuth = ''integrisd-auth''"
definition RoleParser :: process_role where "RoleParser = ''integrisd-parser''"
definition RoleIndex :: process_role where "RoleIndex = ''integrisd-index''"
definition RolePlan :: process_role where "RolePlan = ''integrisd-plan''"
definition RoleApply :: process_role where "RoleApply = ''integrisd-apply''"
definition RoleJournal :: process_role where "RoleJournal = ''integrisd-journal''"
definition RoleAudit :: process_role where "RoleAudit = ''integrisd-audit''"

lemmas role_defs =
  RoleSupervisor_def RoleNet_def RoleAuth_def RoleParser_def RoleIndex_def RolePlan_def RoleApply_def
  RoleJournal_def RoleAudit_def

record authority_entry =
  ae_Role :: process_role
  ae_MayHold :: "capability list"
  ae_MustNot :: "capability list"

record auth_error =
  au_Code :: string
  au_Message :: string

definition auth_error_text :: "auth_error \<Rightarrow> string" where
  "auth_error_text e = au_Code e @ '': '' @ au_Message e"

definition auth_reject :: "string \<Rightarrow> string \<Rightarrow> auth_error" where
  "auth_reject code msg = \<lparr>au_Code = code, au_Message = msg\<rparr>"

definition Inventory :: "authority_entry list" where
  "Inventory =
     [\<lparr>ae_Role = RoleSupervisor,
       ae_MayHold = [''child_lifecycle'', ''preopened_ipc'', ''policy_identity''],
       ae_MustNot = [''remote_content_parser'', ''archive_traversal'', ''long_term_keys'']\<rparr>,
      \<lparr>ae_Role = RoleNet,
       ae_MayHold = [''network_sockets'', ''encrypted_frames''],
       ae_MustNot = [''archive_descriptors'', ''permanent_keys'', ''journal_writes'']\<rparr>,
      \<lparr>ae_Role = RoleAuth,
       ae_MayHold = [''identity_handle'', ''session_key_derive'', ''authorization_policy''],
       ae_MustNot = [''network_accept_loop'', ''archive_contents'', ''publication_rights'']\<rparr>,
      \<lparr>ae_Role = RoleParser,
       ae_MayHold = [''bounded_message_ipc''],
       ae_MustNot = [''permanent_keys'', ''archives'', ''network_sockets'']\<rparr>,
      \<lparr>ae_Role = RoleIndex,
       ae_MayHold = [''readonly_archive_root'', ''bounded_index_output''],
       ae_MustNot = [''network'', ''publication'', ''deletion'']\<rparr>,
      \<lparr>ae_Role = RolePlan,
       ae_MayHold = [''canonical_manifests'', ''plan_output''],
       ae_MustNot = [''filesystem_writes'', ''network'', ''keys'']\<rparr>,
      \<lparr>ae_Role = RoleApply,
       ae_MayHold = [''archive_staging_quarantine_roots''],
       ae_MustNot = [''network'', ''identity_keys'', ''arbitrary_path_lookup'']\<rparr>,
      \<lparr>ae_Role = RoleJournal,
       ae_MayHold = [''journal_descriptor'', ''authenticated_record_input''],
       ae_MustNot = [''policy_decisions'', ''network'', ''archive_mutation'']\<rparr>,
      \<lparr>ae_Role = RoleAudit,
       ae_MayHold = [''readonly_journal'', ''redacted_event_sink''],
       ae_MustNot = [''operation_decisions'', ''archives'', ''secrets'']\<rparr>]"

text \<open>The loops of \<open>ValidateInventory\<close>: over allowed and denied capabilities, entries and required roles.\<close>

fun mayLoop :: "process_role \<Rightarrow> capability set \<Rightarrow> capability list \<Rightarrow> auth_error + capability set" where
  "mayLoop r may [] = Inr may"
| "mayLoop r may (c # cs) =
     (if c = [] then Inl (auth_reject ''cap'' (r @ '': empty MayHold capability''))
      else if c \<in> may then Inl (auth_reject ''duplicate'' (r @ '': duplicate MayHold '' @ c))
      else mayLoop r (insert c may) cs)"

fun denyLoop :: "process_role \<Rightarrow> capability set \<Rightarrow> capability set \<Rightarrow> capability list \<Rightarrow> auth_error option" where
  "denyLoop r may deny [] = None"
| "denyLoop r may deny (c # cs) =
     (if c = [] then Some (auth_reject ''cap'' (r @ '': empty MustNot capability''))
      else if c \<in> deny then Some (auth_reject ''duplicate'' (r @ '': duplicate MustNot '' @ c))
      else if c \<in> may then Some (auth_reject ''overlap'' (r @ '': '' @ c @ '' both allowed and denied''))
      else denyLoop r may (insert c deny) cs)"

fun entryLoop :: "process_role set \<Rightarrow> authority_entry list \<Rightarrow> auth_error + process_role set" where
  "entryLoop seen [] = Inr seen"
| "entryLoop seen (e # es) =
     (if ae_Role e = [] then Inl (auth_reject ''role'' ''empty role'')
      else if ae_Role e \<in> seen then Inl (auth_reject ''duplicate'' (''duplicate role '' @ ae_Role e))
      else
        let seen = insert (ae_Role e) seen in
        if length (ae_MayHold e) = 0 then Inl (auth_reject ''may'' (ae_Role e @ '': MayHold empty''))
        else if length (ae_MustNot e) = 0 then Inl (auth_reject ''must_not'' (ae_Role e @ '': MustNot empty''))
        else
          case mayLoop (ae_Role e) {} (ae_MayHold e) of
            Inl err \<Rightarrow> Inl err
          | Inr may \<Rightarrow>
              (case denyLoop (ae_Role e) may {} (ae_MustNot e) of
                 Some err \<Rightarrow> Inl err
               | None \<Rightarrow> entryLoop seen es))"

definition required_roles :: "process_role list" where
  "required_roles = [RoleSupervisor, RoleNet, RoleAuth, RoleParser, RoleIndex, RolePlan, RoleApply, RoleJournal, RoleAudit]"

fun requiredLoop :: "process_role set \<Rightarrow> process_role list \<Rightarrow> auth_error option" where
  "requiredLoop seen [] = None"
| "requiredLoop seen (r # rs) =
     (if r \<notin> seen then Some (auth_reject ''missing'' (''missing role '' @ r)) else requiredLoop seen rs)"

definition ValidateInventory :: "authority_entry list \<Rightarrow> auth_error option" where
  "ValidateInventory entries =
     (if length entries = 0 then Some (auth_reject ''empty'' ''inventory is empty'')
      else
        case entryLoop {} entries of
          Inl err \<Rightarrow> Some err
        | Inr seen \<Rightarrow> requiredLoop seen required_roles)"

fun allowsLoop :: "process_role \<Rightarrow> capability \<Rightarrow> authority_entry list \<Rightarrow> auth_error + bool" where
  "allowsLoop role cap [] = Inl (auth_reject ''role'' (''unknown role '' @ role))"
| "allowsLoop role cap (e # es) =
     (if ae_Role e \<noteq> role then allowsLoop role cap es
      else if cap \<in> set (ae_MustNot e) then Inr False
      else if cap \<in> set (ae_MayHold e) then Inr True
      else Inr False)"

definition Allows :: "process_role \<Rightarrow> capability \<Rightarrow> auth_error + bool" where
  "Allows role cap = allowsLoop role cap Inventory"

fun DeniedProbe :: "process_role \<Rightarrow> capability list \<Rightarrow> auth_error option" where
  "DeniedProbe role [] = None"
| "DeniedProbe role (c # cs) =
     (case Allows role c of
        Inl err \<Rightarrow> Some err
      | Inr ok \<Rightarrow>
          if \<not> ok then
            if list_ex (\<lambda>e. ae_Role e = role \<and> c \<in> set (ae_MustNot e)) Inventory
              then Some (auth_reject ''denied'' (role @ '' must not hold '' @ c))
            else Some (auth_reject ''denied'' (role @ '' not authorized for '' @ c))
          else DeniedProbe role cs)"

text \<open>Go compares strings byte by byte.\<close>

definition compareRoles :: "process_role \<Rightarrow> process_role \<Rightarrow> int" where
  "compareRoles r s = bytesCompare (bytes_of r) (bytes_of s)"

definition RolesSorted :: "process_role list" where
  "RolesSorted = insertionSort compareRoles (map ae_Role Inventory)"

subsection \<open>Valid inventories\<close>

lemma mayLoop_Inr: "mayLoop r may cs = Inr m \<longleftrightarrow> m = may \<union> set cs \<and> [] \<notin> set cs \<and> distinct cs \<and> set cs \<inter> may = {}"
  by (induction cs arbitrary: may) auto

lemma denyLoop_None:
  "denyLoop r may deny cs = None \<longleftrightarrow> [] \<notin> set cs \<and> distinct cs \<and> set cs \<inter> deny = {} \<and> set cs \<inter> may = {}"
  by (induction cs arbitrary: deny) auto

definition valid_entry :: "authority_entry \<Rightarrow> bool" where
  "valid_entry e \<longleftrightarrow> ae_Role e \<noteq> [] \<and> ae_MayHold e \<noteq> [] \<and> ae_MustNot e \<noteq> [] \<and>
     distinct (ae_MayHold e) \<and> distinct (ae_MustNot e) \<and> [] \<notin> set (ae_MayHold e) \<union> set (ae_MustNot e) \<and>
     set (ae_MayHold e) \<inter> set (ae_MustNot e) = {}"

lemma entryLoop_Cons:
  "entryLoop seen (e # es) = Inr s \<longleftrightarrow> ae_Role e \<notin> seen \<and> valid_entry e \<and> entryLoop (insert (ae_Role e) seen) es = Inr s"
proof (cases "mayLoop (ae_Role e) {} (ae_MayHold e)")
  case (Inl err)
  then have "\<not> ([] \<notin> set (ae_MayHold e) \<and> distinct (ae_MayHold e))"
    using mayLoop_Inr [of "ae_Role e" "{}" "ae_MayHold e" "set (ae_MayHold e)"] by auto
  then show ?thesis
    using Inl by (auto simp: Let_def valid_entry_def)
next
  case (Inr may)
  then have may: "may = set (ae_MayHold e)" "[] \<notin> set (ae_MayHold e)" "distinct (ae_MayHold e)"
    by (auto simp: mayLoop_Inr)
  show ?thesis
  proof (cases "denyLoop (ae_Role e) may {} (ae_MustNot e)")
    case None
    then show ?thesis
      using Inr may denyLoop_None [of "ae_Role e" may "{}" "ae_MustNot e"] by (auto simp: Let_def valid_entry_def)
  next
    case (Some err)
    then have "\<not> valid_entry e"
      using denyLoop_None [of "ae_Role e" may "{}" "ae_MustNot e"] may(1) by (auto simp: valid_entry_def)
    then show ?thesis
      using Inr Some by (simp add: Let_def)
  qed
qed

lemma entryLoop_Inr:
  "entryLoop seen es = Inr s \<longleftrightarrow> s = seen \<union> ae_Role ` set es \<and> distinct (map ae_Role es) \<and>
     ae_Role ` set es \<inter> seen = {} \<and> list_all valid_entry es"
proof (induction es arbitrary: seen)
  case (Cons e es)
  show ?case
    unfolding entryLoop_Cons Cons.IH by auto
qed auto

lemma requiredLoop_None: "requiredLoop seen rs = None \<longleftrightarrow> set rs \<subseteq> seen"
  by (induction rs) auto

lemma ValidateInventory_None:
  "ValidateInventory es = None \<longleftrightarrow>
     distinct (map ae_Role es) \<and> list_all valid_entry es \<and> set required_roles \<subseteq> ae_Role ` set es"
proof (cases "entryLoop {} es")
  case (Inl e)
  then have "\<not> (distinct (map ae_Role es) \<and> list_all valid_entry es)"
    using entryLoop_Inr [of "{}" es "ae_Role ` set es"] by auto
  then show ?thesis
    using Inl by (auto simp: ValidateInventory_def)
next
  case (Inr seen)
  then show ?thesis
    using entryLoop_Inr [of "{}" es seen] by (auto simp: ValidateInventory_def requiredLoop_None required_roles_def)
qed

lemma Inventory_valid: "ValidateInventory Inventory = None"
  unfolding ValidateInventory_None by code_simp

subsection \<open>Conferred capabilities\<close>

lemma allowsLoop_True:
  assumes "distinct (map ae_Role es)" "list_all valid_entry es"
  shows "allowsLoop role cap es = Inr True \<longleftrightarrow> (\<exists>e\<in>set es. ae_Role e = role \<and> cap \<in> set (ae_MayHold e))"
  using assms
proof (induction es)
  case (Cons e es)
  then have "ae_Role e' \<noteq> ae_Role e" if "e' \<in> set es" for e'
    using that by (auto simp: image_iff)
  with Cons show ?case
    by (cases "ae_Role e = role") (auto simp: valid_entry_def)
qed simp

lemma Allows_True: "Allows role cap = Inr True \<longleftrightarrow> (\<exists>e\<in>set Inventory. ae_Role e = role \<and> cap \<in> set (ae_MayHold e))"
  using Inventory_valid unfolding ValidateInventory_None Allows_def by (intro allowsLoop_True) auto

lemma DeniedProbe_None:
  "DeniedProbe role cs = None \<longleftrightarrow> (\<forall>c\<in>set cs. \<exists>e\<in>set Inventory. ae_Role e = role \<and> c \<in> set (ae_MayHold e))"
proof (induction cs)
  case (Cons c cs)
  have "DeniedProbe role (c # cs) = None \<longleftrightarrow> Allows role c = Inr True \<and> DeniedProbe role cs = None"
    by (auto split: sum.splits if_splits)
  then show ?case
    unfolding Cons.IH Allows_True by auto
qed simp

interpretation role_cmp: comparison compareRoles
  unfolding compareRoles_def by (rule comparison_key) (rule bytes_cmp.comparison_axioms)

lemma RolesSorted_correct: "role_cmp.ascending RolesSorted" "set RolesSorted = set required_roles"
  unfolding RolesSorted_def
  by (rule role_cmp.insertionSort_ascending)
    (auto simp: role_cmp.insertionSort_mset Inventory_def required_roles_def simp flip: set_mset_mset)

end
