(* ===== verification/Ipc.thy ===== *)
theory Ipc
  imports Authority Resource Codec Connection
begin

text \<open>
  The local channel between the processes of the daemon (\<open>internal/ipc\<close>): the frame codec bound
  to roles, session nonce and sequence numbers (\<open>ipc.go\<close>) and the length-prefixed stream below it
  (\<open>stream.go\<close>).  The methods of \<open>ChannelState\<close> return the state they leave behind.
\<close>

subsection \<open>Frames and channels\<close>

definition ipc_ProtocolVersion :: u16 where "ipc_ProtocolVersion = 1"
definition MaxFrameBytes :: nat where "MaxFrameBytes = 1048576"
definition ipc_MaxQueueDepth :: u64 where "ipc_MaxQueueDepth = 1024"
definition ipc_HeaderBytes :: nat where "ipc_HeaderBytes = 44"
definition MACBytes :: nat where "MACBytes = 32"

definition ipc_FrameMagic :: bytes where
  "ipc_FrameMagic = bytes_of ''INTIPC01''"

definition TypeRequest :: u16 where "TypeRequest = 1"
definition TypeResponse :: u16 where "TypeResponse = 2"
definition ipc_TypeClose :: u16 where "ipc_TypeClose = 3"
definition TypeCritical :: u16 where "TypeCritical = 4"

record ipc_frame =
  if_Version :: u16
  if_Type :: u16
  if_SessionNonce :: bytes
  if_Sequence :: u64
  if_Sender :: process_role
  if_Receiver :: process_role
  if_Payload :: bytes

record channel_state =
  ch_LocalRole :: process_role
  ch_RemoteRole :: process_role
  ch_SessionNonce :: bytes
  ch_NextSendSeq :: u64
  ch_LastRecvSeq :: u64
  ch_MaxFrame :: u32
  ch_MaxQueue :: u64
  ch_QueueDepth :: u64
  ch_Closed :: bool
  ch_MACKey :: bytes

record ipc_error =
  ie_Code :: string
  ie_Message :: string
  ie_Close :: bool

definition ipc_error_text :: "ipc_error \<Rightarrow> string" where
  "ipc_error_text e = ie_Code e @ '': '' @ ie_Message e"

definition ipc_fail :: "string \<Rightarrow> string \<Rightarrow> bool \<Rightarrow> ipc_error" where
  "ipc_fail code msg close = \<lparr>ie_Code = code, ie_Message = msg, ie_Close = close\<rparr>"

definition NewChannel :: "process_role \<Rightarrow> process_role \<Rightarrow> bytes \<Rightarrow> channel_state" where
  "NewChannel local remote nonce =
     \<lparr>ch_LocalRole = local, ch_RemoteRole = remote, ch_SessionNonce = nonce, ch_NextSendSeq = 1, ch_LastRecvSeq = 0,
      ch_MaxFrame = word_of_nat MaxFrameBytes, ch_MaxQueue = ipc_MaxQueueDepth, ch_QueueDepth = 0, ch_Closed = False, ch_MACKey = []\<rparr>"

definition NewAuthenticatedChannel :: "process_role \<Rightarrow> process_role \<Rightarrow> bytes \<Rightarrow> bytes \<Rightarrow> ipc_error + channel_state" where
  "NewAuthenticatedChannel local remote nonce macKey =
     (if length macKey < 16 then Inl (ipc_fail ''mac'' ''MAC key must be at least 16 bytes'' False)
      else Inr ((NewChannel local remote nonce)\<lparr>ch_MACKey := macKey\<rparr>))"

definition macLen :: "channel_state \<Rightarrow> nat" where
  "macLen ch = (if length (ch_MACKey ch) > 0 then MACBytes else 0)"

definition ipc_macSHA256 :: "bytes \<Rightarrow> bytes \<Rightarrow> bytes" where
  "ipc_macSHA256 key body = hmac_sha256 key body"

definition roleCode :: "process_role \<Rightarrow> u16" where
  "roleCode r =
     (if r = RoleSupervisor then 1
      else if r = RoleNet then 2
      else if r = RoleAuth then 3
      else if r = RoleParser then 4
      else if r = RoleIndex then 5
      else if r = RolePlan then 6
      else if r = RoleApply then 7
      else if r = RoleJournal then 8
      else if r = RoleAudit then 9
      else 0)"

definition roleFromCode :: "u16 \<Rightarrow> process_role" where
  "roleFromCode c =
     (if c = 1 then RoleSupervisor
      else if c = 2 then RoleNet
      else if c = 3 then RoleAuth
      else if c = 4 then RoleParser
      else if c = 5 then RoleIndex
      else if c = 6 then RolePlan
      else if c = 7 then RoleApply
      else if c = 8 then RoleJournal
      else if c = 9 then RoleAudit
      else [])"

definition channel_limits :: "channel_state \<Rightarrow> limits" where
  "channel_limits ch = \<lparr>MaxBytes = ucast (ch_MaxFrame ch) + word_of_nat ipc_HeaderBytes + word_of_nat MACBytes,
     MaxCount = 1, MaxNesting = 1, MaxQueueDepth = ch_MaxQueue ch, MaxConcurrent = 1, MaxRetries = 1\<rparr>"

definition ChannelEncode :: "channel_state \<Rightarrow> u16 \<Rightarrow> bytes \<Rightarrow> channel_state \<times> (ipc_error + bytes)" where
  "ChannelEncode ch t payload =
     (if ch_Closed ch then (ch, Inl (ipc_fail ''closed'' ''channel closed'' True))
      else if t < TypeRequest \<or> t > TypeCritical then (ch, Inl (ipc_fail ''type'' ''invalid message type'' True))
      else if length payload > unat (ch_MaxFrame ch) then (ch, Inl (ipc_fail ''limit'' ''payload exceeds MaxFrame'' True))
      else
        let total = ipc_HeaderBytes + length payload + macLen ch in
        case AdmitBytes (channel_limits ch) (word_of_nat total) of
          Some err \<Rightarrow> (ch, Inl (ipc_fail ''limit'' (res_error_text err) True))
        | None \<Rightarrow>
            let seq = ch_NextSendSeq ch;
                buf = ipc_FrameMagic;
                buf = buf @ PutU16LE ipc_ProtocolVersion;
                buf = buf @ PutU16LE t;
                buf = buf @ ch_SessionNonce ch;
                buf = buf @ PutU64LE seq;
                buf = buf @ PutU16LE (roleCode (ch_LocalRole ch));
                buf = buf @ PutU16LE (roleCode (ch_RemoteRole ch));
                buf = buf @ PutU32LE (len32 payload);
                buf = buf @ payload;
                buf = (if length (ch_MACKey ch) > 0 then buf @ ipc_macSHA256 (ch_MACKey ch) buf else buf);
                ch = ch\<lparr>ch_NextSendSeq := seq + 1\<rparr>;
                ch = (if t = ipc_TypeClose then ch\<lparr>ch_Closed := True\<rparr> else ch)
            in (ch, Inr buf))"

definition ChannelDecode :: "channel_state \<Rightarrow> bytes \<Rightarrow> channel_state \<times> (ipc_error + ipc_frame)" where
  "ChannelDecode ch raw =
     (if ch_Closed ch then (ch, Inl (ipc_fail ''closed'' ''channel closed'' True))
      else if length raw < ipc_HeaderBytes + macLen ch then (ch, Inl (ipc_fail ''trunc'' ''frame too short'' True))
      else if slice 0 8 raw \<noteq> ipc_FrameMagic then (ch, Inl (ipc_fail ''magic'' ''bad frame magic'' True))
      else
        let ver = U16LE (slice 8 10 raw) in
        if ver \<noteq> ipc_ProtocolVersion then (ch, Inl (ipc_fail ''version'' (''unsupported version '' @ itoa (unat ver)) True))
        else
          let t = U16LE (slice 10 12 raw);
              nonce = slice 12 28 raw in
          if nonce \<noteq> ch_SessionNonce ch then (ch, Inl (ipc_fail ''nonce'' ''session nonce mismatch'' True))
          else
            let seq = U64LE (slice 28 36 raw);
                sender = roleFromCode (U16LE (slice 36 38 raw));
                receiver = roleFromCode (U16LE (slice 38 40 raw));
                payLen = U32LE (slice 40 44 raw) in
            if ipc_HeaderBytes + unat payLen + macLen ch \<noteq> length raw then (ch, Inl (ipc_fail ''length'' ''length mismatch'' True))
            else if payLen > ch_MaxFrame ch then (ch, Inl (ipc_fail ''limit'' ''frame exceeds MaxFrame'' True))
            else if length (ch_MACKey ch) > 0 \<and>
                drop (length raw - MACBytes) raw \<noteq> ipc_macSHA256 (ch_MACKey ch) (take (ipc_HeaderBytes + unat payLen) raw)
              then (ch\<lparr>ch_Closed := True\<rparr>, Inl (ipc_fail ''mac'' ''HMAC verification failed'' True))
            else if sender \<noteq> ch_RemoteRole ch \<or> receiver \<noteq> ch_LocalRole ch
              then (ch, Inl (ipc_fail ''role'' ''peer role mismatch'' True))
            else if seq \<noteq> ch_LastRecvSeq ch + 1
              then (ch, Inl (ipc_fail ''sequence'' (''expected '' @ itoa (unat (ch_LastRecvSeq ch + 1)) @ '' got '' @ itoa (unat seq)) True))
            else if AdmitQueue DefaultLimits (ch_QueueDepth ch + 1) \<noteq> None
              then (ch, Inl (ipc_fail ''queue'' ''queue depth exceeded'' True))
            else if t = TypeCritical
              then (ch\<lparr>ch_Closed := True\<rparr>, Inl (ipc_fail ''critical'' ''unknown critical message'' True))
            else
              let payload = slice ipc_HeaderBytes (ipc_HeaderBytes + unat payLen) raw;
                  ch = ch\<lparr>ch_LastRecvSeq := seq, ch_QueueDepth := ch_QueueDepth ch + 1\<rparr>;
                  ch = (if t = ipc_TypeClose then ch\<lparr>ch_Closed := True\<rparr> else ch)
              in (ch, Inr \<lparr>if_Version = ver, if_Type = t, if_SessionNonce = nonce, if_Sequence = seq,
                      if_Sender = sender, if_Receiver = receiver, if_Payload = payload\<rparr>))"

subsection \<open>The stream\<close>

definition stream_max :: nat where
  "stream_max = MaxFrameBytes + ipc_HeaderBytes + MACBytes"

definition ipc_WriteFrame :: "bytes \<Rightarrow> (ipc_error + unit) conn" where
  "ipc_WriteFrame raw =
     (if length raw = 0 \<or> length raw > stream_max then Finish (Inl (ipc_fail ''limit'' ''frame length out of bounds'' True))
      else Put (PutU32LE (len32 raw)) (\<lambda>r. case r of
        Inl e \<Rightarrow> Finish (Inl (ipc_fail ''io'' e True))
      | Inr _ \<Rightarrow> Put raw (\<lambda>r. case r of
          Inl e \<Rightarrow> Finish (Inl (ipc_fail ''io'' e True))
        | Inr _ \<Rightarrow> Finish (Inr ()))))"

definition ipc_ReadFrame :: "int \<Rightarrow> (ipc_error + bytes) conn" where
  "ipc_ReadFrame maxLen =
     (let maxLen = (if maxLen \<le> 0 then int stream_max else maxLen) in
      Get 4 (\<lambda>r. case r of
        Inl e \<Rightarrow> Finish (Inl (ipc_fail ''io'' e True))
      | Inr hdr \<Rightarrow>
          let n = unat (U32LE hdr) in
          if n = 0 \<or> int n > maxLen then Finish (Inl (ipc_fail ''limit'' ''framed length out of bounds'' True))
          else Get n (\<lambda>r. case r of
            Inl e \<Rightarrow> Finish (Inl (ipc_fail ''io'' e True))
          | Inr buf \<Rightarrow> Finish (Inr buf))))"

subsection \<open>The layout of a frame\<close>

lemmas ipc_const_defs =
  ipc_ProtocolVersion_def MaxFrameBytes_def ipc_HeaderBytes_def MACBytes_def stream_max_def

lemmas ipc_type_defs = TypeRequest_def TypeResponse_def ipc_TypeClose_def TypeCritical_def

lemma length_ipc_FrameMagic [simp, wire_simps]: "length ipc_FrameMagic = 8"
  by (simp add: ipc_FrameMagic_def)

lemma length_ipc_macSHA256 [simp, wire_simps]: "length (ipc_macSHA256 k b) = 32"
  by (simp add: ipc_macSHA256_def)

definition ipc_head :: "ipc_frame \<Rightarrow> bytes" where
  "ipc_head f = ipc_FrameMagic @ PutU16LE (if_Version f) @ PutU16LE (if_Type f) @ if_SessionNonce f @ PutU64LE (if_Sequence f) @
     PutU16LE (roleCode (if_Sender f)) @ PutU16LE (roleCode (if_Receiver f)) @ PutU32LE (len32 (if_Payload f))"

definition ipc_wire :: "bytes \<Rightarrow> ipc_frame \<Rightarrow> bytes" where
  "ipc_wire k f = ipc_head f @ if_Payload f @ (if k = [] then [] else ipc_macSHA256 k (ipc_head f @ if_Payload f))"

lemma length_ipc_head: "length (if_SessionNonce f) = 16 \<Longrightarrow> length (ipc_head f) = ipc_HeaderBytes"
  by (simp add: ipc_head_def ipc_HeaderBytes_def)

lemma length_ipc_wire:
  "length (if_SessionNonce f) = 16 \<Longrightarrow>
   length (ipc_wire k f) = ipc_HeaderBytes + length (if_Payload f) + (if k = [] then 0 else MACBytes)"
  by (simp add: ipc_wire_def length_ipc_head MACBytes_def)

lemma ipc_wire_slices:
  assumes "length (if_SessionNonce f) = 16"
  shows "slice 0 8 (ipc_wire k f) = ipc_FrameMagic"
    and "slice 8 10 (ipc_wire k f) = PutU16LE (if_Version f)"
    and "slice 10 12 (ipc_wire k f) = PutU16LE (if_Type f)"
    and "slice 12 28 (ipc_wire k f) = if_SessionNonce f"
    and "slice 28 36 (ipc_wire k f) = PutU64LE (if_Sequence f)"
    and "slice 36 38 (ipc_wire k f) = PutU16LE (roleCode (if_Sender f))"
    and "slice 38 40 (ipc_wire k f) = PutU16LE (roleCode (if_Receiver f))"
    and "slice 40 44 (ipc_wire k f) = PutU32LE (len32 (if_Payload f))"
    and "slice 44 (44 + length (if_Payload f)) (ipc_wire k f) = if_Payload f"
  using assms by (simp_all add: ipc_wire_def ipc_head_def slice_def)

text \<open>The roles that have a code are those of the inventory.\<close>

lemma role_code_cases:
  assumes "r \<in> set required_roles"
  shows "roleFromCode (roleCode r) = r" "r \<noteq> []"
  using assms by (auto simp: required_roles_def roleCode_def roleFromCode_def role_defs)

lemma role_of_code: "roleFromCode c = r \<Longrightarrow> r \<noteq> [] \<Longrightarrow> c = roleCode r"
  unfolding roleFromCode_def roleCode_def by (auto simp: role_defs split: if_splits)

definition channel_ok :: "channel_state \<Rightarrow> bool" where
  "channel_ok ch \<longleftrightarrow> ch_LocalRole ch \<in> set required_roles \<and> ch_RemoteRole ch \<in> set required_roles \<and>
     length (ch_SessionNonce ch) = 16 \<and> ch_MaxFrame ch = word_of_nat MaxFrameBytes"

text \<open>The frame a channel sends next, and the one it expects next.\<close>

definition outbound :: "channel_state \<Rightarrow> u16 \<Rightarrow> bytes \<Rightarrow> ipc_frame" where
  "outbound ch t p = \<lparr>if_Version = ipc_ProtocolVersion, if_Type = t, if_SessionNonce = ch_SessionNonce ch, if_Sequence = ch_NextSendSeq ch,
     if_Sender = ch_LocalRole ch, if_Receiver = ch_RemoteRole ch, if_Payload = p\<rparr>"

definition inbound :: "channel_state \<Rightarrow> u16 \<Rightarrow> bytes \<Rightarrow> ipc_frame" where
  "inbound ch t p = \<lparr>if_Version = ipc_ProtocolVersion, if_Type = t, if_SessionNonce = ch_SessionNonce ch, if_Sequence = ch_LastRecvSeq ch + 1,
     if_Sender = ch_RemoteRole ch, if_Receiver = ch_LocalRole ch, if_Payload = p\<rparr>"

definition has_room :: "channel_state \<Rightarrow> bool" where
  "has_room ch \<longleftrightarrow> ch_QueueDepth ch + 1 \<le> 1024"

lemma has_room_iff: "AdmitQueue DefaultLimits (ch_QueueDepth ch + 1) = None \<longleftrightarrow> has_room ch"
  by (simp add: AdmitQueue_None_iff DefaultLimits_def has_room_def)

lemma ChannelEncode_sends:
  assumes ok: "channel_ok ch" and "\<not> ch_Closed ch" and t: "TypeRequest \<le> t" "t \<le> TypeCritical" and p: "length p \<le> MaxFrameBytes"
  shows "ChannelEncode ch t p =
    (ch\<lparr>ch_NextSendSeq := ch_NextSendSeq ch + 1, ch_Closed := (t = ipc_TypeClose)\<rparr>, Inr (ipc_wire (ch_MACKey ch) (outbound ch t p)))"
proof -
  have m: "unat (ch_MaxFrame ch) = MaxFrameBytes"
    using ok by (simp add: channel_ok_def MaxFrameBytes_def)
  have lim: "MaxBytes (channel_limits ch) = word_of_nat stream_max"
    using ok by (simp add: channel_limits_def channel_ok_def ipc_const_defs)
  have small: "ipc_HeaderBytes + length p + macLen ch \<le> stream_max"
    using p by (simp add: stream_max_def macLen_def)
  have "AdmitBytes (channel_limits ch) (word_of_nat (ipc_HeaderBytes + length p + macLen ch)) = None"
  proof -
    have "stream_max < 2 ^ 64" "stream_max \<noteq> 0"
      by (simp_all add: ipc_const_defs)
    moreover have "unat (word_of_nat (ipc_HeaderBytes + length p + macLen ch) :: u64) = ipc_HeaderBytes + length p + macLen ch"
      using small by (intro unat_of_nat_small) (simp add: ipc_const_defs)
    moreover have "unat (word_of_nat stream_max :: u64) = stream_max"
      by (simp add: ipc_const_defs)
    ultimately show ?thesis
      using small unfolding AdmitBytes_None_iff lim word_le_nat_alt by (metis unat_0)
  qed
  then show ?thesis
    using assms m by (simp add: ChannelEncode_def Let_def outbound_def ipc_wire_def ipc_head_def not_less del: of_nat_add)
qed

definition received :: "channel_state \<Rightarrow> u16 \<Rightarrow> channel_state" where
  "received ch t = ch\<lparr>ch_LastRecvSeq := ch_LastRecvSeq ch + 1, ch_QueueDepth := ch_QueueDepth ch + 1, ch_Closed := (t = ipc_TypeClose)\<rparr>"

lemma inbound_fields [simp]:
  "if_Version (inbound ch t p) = ipc_ProtocolVersion" "if_Type (inbound ch t p) = t" "if_SessionNonce (inbound ch t p) = ch_SessionNonce ch"
  "if_Sequence (inbound ch t p) = ch_LastRecvSeq ch + 1" "if_Sender (inbound ch t p) = ch_RemoteRole ch"
  "if_Receiver (inbound ch t p) = ch_LocalRole ch" "if_Payload (inbound ch t p) = p"
  by (simp_all add: inbound_def)

lemma ChannelDecode_wire:
  assumes ok: "channel_ok ch" and "\<not> ch_Closed ch" and "t \<noteq> TypeCritical" and p: "length p \<le> MaxFrameBytes"
  shows "ChannelDecode ch (ipc_wire (ch_MACKey ch) (inbound ch t p)) =
    (if has_room ch then (received ch t, Inr (inbound ch t p)) else (ch, Inl (ipc_fail ''queue'' ''queue depth exceeded'' True)))"
proof -
  let ?f = "inbound ch t p" and ?k = "ch_MACKey ch"
  have n: "length (if_SessionNonce ?f) = 16" and roles: "roleFromCode (roleCode (ch_RemoteRole ch)) = ch_RemoteRole ch"
      "roleFromCode (roleCode (ch_LocalRole ch)) = ch_LocalRole ch"
    using ok role_code_cases(1) by (simp_all add: channel_ok_def)
  have len: "unat (len32 p :: u32) = length p" "\<not> ch_MaxFrame ch < len32 p"
    using ok p by (simp_all add: unat_of_nat_small MaxFrameBytes_def channel_ok_def word_less_nat_alt)
  have mac: "drop (length (ipc_wire ?k ?f) - MACBytes) (ipc_wire ?k ?f) = ipc_macSHA256 ?k (take (ipc_HeaderBytes + length p) (ipc_wire ?k ?f))"
    if "?k \<noteq> []"
    using that by (simp add: length_ipc_wire [OF n]) (simp add: ipc_wire_def length_ipc_head [OF n] MACBytes_def)
  have size: "length (ipc_wire ?k ?f) = ipc_HeaderBytes + length p + macLen ch"
    using length_ipc_wire [OF n, of ?k] by (simp add: macLen_def)
  have h: "ipc_HeaderBytes = 44"
    by (simp add: ipc_HeaderBytes_def)
  show ?thesis
    using assms(2,3) mac size
    by (cases "has_room ch"; cases "ch_MACKey ch = []")
      (simp_all add: ChannelDecode_def Let_def ipc_wire_slices(1-8) [OF n] ipc_wire_slices(9) [OF n, simplified] h roles len has_room_iff
        received_def flip: inbound_def)
qed

lemma ChannelDecode_Inr:
  assumes "ChannelDecode ch raw = (ch', Inr f)"
  shows "\<not> ch_Closed ch" and "slice 0 8 raw = ipc_FrameMagic" and "if_Type f \<noteq> TypeCritical" and "has_room ch"
    and "length raw = ipc_HeaderBytes + unat (U32LE (slice 40 44 raw)) + macLen ch" and "U32LE (slice 40 44 raw) \<le> ch_MaxFrame ch"
    and "length (ch_MACKey ch) > 0 \<Longrightarrow> drop (length raw - MACBytes) raw =
        ipc_macSHA256 (ch_MACKey ch) (take (ipc_HeaderBytes + unat (U32LE (slice 40 44 raw))) raw)"
    and "U16LE (slice 8 10 raw) = ipc_ProtocolVersion" "slice 12 28 raw = ch_SessionNonce ch" "U64LE (slice 28 36 raw) = ch_LastRecvSeq ch + 1"
      "roleFromCode (U16LE (slice 36 38 raw)) = ch_RemoteRole ch" "roleFromCode (U16LE (slice 38 40 raw)) = ch_LocalRole ch"
    and "f = inbound ch (U16LE (slice 10 12 raw)) (slice ipc_HeaderBytes (ipc_HeaderBytes + unat (U32LE (slice 40 44 raw))) raw)"
    and "ch' = received ch (if_Type f)"
  using assms
  by (simp_all add: ChannelDecode_def Let_def inbound_def received_def has_room_iff [symmetric] split: if_splits) auto

lemma ChannelDecode_layout:
  assumes ok: "channel_ok ch" and dec: "ChannelDecode ch raw = (ch', Inr f)"
  shows "raw = ipc_wire (ch_MACKey ch) f" and "length (if_Payload f) \<le> MaxFrameBytes"
proof -
  note d = ChannelDecode_Inr [OF dec]
  let ?n = "unat (U32LE (slice 40 44 raw))"
  have pay: "if_Payload f = slice 44 (44 + ?n) raw" and len: "length raw = 44 + ?n + macLen ch"
    using d(5,13) by (simp_all add: ipc_HeaderBytes_def)
  then have n: "length (if_Payload f) = ?n"
    by simp
  show "length (if_Payload f) \<le> MaxFrameBytes"
    unfolding n using d(6) ok by (simp add: channel_ok_def word_le_nat_alt MaxFrameBytes_def)
  have nonempty: "ch_RemoteRole ch \<noteq> []" "ch_LocalRole ch \<noteq> []"
    using ok role_code_cases(2) by (auto simp: channel_ok_def)
  have fields: "if_Version f = U16LE (slice 8 10 raw)" "if_Type f = U16LE (slice 10 12 raw)" "if_SessionNonce f = slice 12 28 raw"
      "if_Sequence f = U64LE (slice 28 36 raw)" "roleCode (if_Sender f) = U16LE (slice 36 38 raw)"
      "roleCode (if_Receiver f) = U16LE (slice 38 40 raw)" "len32 (if_Payload f) = U32LE (slice 40 44 raw)"
    using d(8-13) role_of_code [OF d(11) nonempty(1)] role_of_code [OF d(12) nonempty(2)] n by simp_all
  have "ipc_head f = slice 0 8 raw @ slice 8 10 raw @ slice 10 12 raw @ slice 12 28 raw @ slice 28 36 raw @ slice 36 38 raw @ slice 38 40 raw @ slice 40 44 raw"
    unfolding ipc_head_def fields d(2) [symmetric] using len by (simp add: PutU16LE_U16LE PutU32LE_U32LE PutU64LE_U64LE)
  then have front: "ipc_head f @ if_Payload f = take (44 + ?n) raw"
    by (simp add: pay slice_join take_eq_slice)
  have "raw = take (44 + ?n) raw @ drop (44 + ?n) raw"
    by simp
  also have "drop (44 + ?n) raw = (if ch_MACKey ch = [] then [] else ipc_macSHA256 (ch_MACKey ch) (take (44 + ?n) raw))"
    using len d(7) by (auto simp: macLen_def ipc_const_defs)
  finally show "raw = ipc_wire (ch_MACKey ch) f"
    unfolding ipc_wire_def front [symmetric] by simp
qed

lemma ChannelDecode_Inl: "ChannelDecode ch raw = (ch', Inl e) \<Longrightarrow> ch' = ch \<or> ch' = ch\<lparr>ch_Closed := True\<rparr>"
  by (simp add: ChannelDecode_def Let_def split: if_splits)

subsection \<open>Sequences of frames\<close>

fun encode_all :: "channel_state \<Rightarrow> (u16 \<times> bytes) list \<Rightarrow> channel_state \<times> (ipc_error + bytes) list" where
  "encode_all ch [] = (ch, [])"
| "encode_all ch ((t, p) # ms) =
     (let (ch, r) = ChannelEncode ch t p; (ch, rs) = encode_all ch ms in (ch, r # rs))"

fun decode_all :: "channel_state \<Rightarrow> bytes list \<Rightarrow> channel_state \<times> (ipc_error + ipc_frame) list" where
  "decode_all ch [] = (ch, [])"
| "decode_all ch (raw # raws) =
     (let (ch, r) = ChannelDecode ch raw; (ch, rs) = decode_all ch raws in (ch, r # rs))"

lemma run_steps:
  "ChannelEncode ch t p = (c, r) \<Longrightarrow> snd (encode_all ch ((t, p) # ms)) = r # snd (encode_all c ms)"
  "ChannelDecode ch raw = (c, s) \<Longrightarrow> snd (decode_all ch (raw # raws)) = s # snd (decode_all c raws)"
  by (simp_all add: case_prod_beta)

definition accepted :: "('e + 'a) list \<Rightarrow> 'a list" where
  "accepted rs = concat (map (case_sum (\<lambda>_. []) (\<lambda>f. [f])) rs)"

lemma accepted_simps [simp]:
  "accepted [] = []" "accepted (Inl e # rs) = accepted rs" "accepted (Inr f # rs) = f # accepted rs"
  by (simp_all add: accepted_def)

text \<open>What the receiving side keeps: its identity, and the number of accepted frames as depth and sequence.\<close>

definition channel_inv :: "channel_state \<Rightarrow> bool" where
  "channel_inv ch \<longleftrightarrow> channel_ok ch \<and> unat (ch_QueueDepth ch) \<le> 1024 \<and> ch_LastRecvSeq ch = ch_QueueDepth ch"

lemma has_room_less: "unat (ch_QueueDepth ch) \<le> 1024 \<Longrightarrow> has_room ch \<longleftrightarrow> unat (ch_QueueDepth ch) < 1024"
  unfolding has_room_def by (auto simp: word_le_nat_alt unat_word_ariths)

lemma received_inv:
  assumes "channel_inv ch" "has_room ch"
  shows "channel_inv (received ch t)" "unat (ch_QueueDepth (received ch t)) = Suc (unat (ch_QueueDepth ch))"
proof -
  have "unat (ch_QueueDepth ch) < 1024"
    using assms has_room_less by (simp add: channel_inv_def)
  then show "unat (ch_QueueDepth (received ch t)) = Suc (unat (ch_QueueDepth ch))"
    by (simp add: received_def unat_word_ariths)
  with \<open>unat (ch_QueueDepth ch) < 1024\<close> show "channel_inv (received ch t)"
    using assms(1) by (simp add: channel_inv_def received_def channel_ok_def)
qed

lemma ChannelDecode_inv:
  assumes "channel_inv ch" "ChannelDecode ch raw = (ch', r)"
  shows "channel_inv ch'" and "ch_LocalRole ch' = ch_LocalRole ch" "ch_RemoteRole ch' = ch_RemoteRole ch"
    "ch_SessionNonce ch' = ch_SessionNonce ch" "ch_MACKey ch' = ch_MACKey ch"
proof -
  consider e where "r = Inl e" "ch' = ch \<or> ch' = ch\<lparr>ch_Closed := True\<rparr>" | f where "r = Inr f" "ch' = received ch (if_Type f)" "has_room ch"
    using ChannelDecode_Inl [of ch raw ch'] ChannelDecode_Inr(4,14) [of ch raw ch'] assms(2) by (cases r) auto
  then show "channel_inv ch'" "ch_LocalRole ch' = ch_LocalRole ch" "ch_RemoteRole ch' = ch_RemoteRole ch"
      "ch_SessionNonce ch' = ch_SessionNonce ch" "ch_MACKey ch' = ch_MACKey ch"
    by (cases; use assms(1) received_inv(1) [OF assms(1)] in \<open>auto simp: received_def channel_inv_def channel_ok_def\<close>)+
qed

lemma decode_all_accepted:
  assumes "channel_inv ch" "decode_all ch raws = (ch', rs)"
  shows "unat (ch_QueueDepth ch) + length (accepted rs) \<le> 1024 \<and>
    map if_Sequence (accepted rs) = map (\<lambda>i. ch_LastRecvSeq ch + word_of_nat (Suc i)) [0..<length (accepted rs)] \<and>
    (\<forall>f\<in>set (accepted rs). if_Sender f = ch_RemoteRole ch \<and> if_Receiver f = ch_LocalRole ch \<and> if_SessionNonce f = ch_SessionNonce ch \<and>
       if_Type f \<noteq> TypeCritical \<and> ipc_wire (ch_MACKey ch) f \<in> set raws)"
  using assms
proof (induction raws arbitrary: ch rs)
  case (Cons raw raws)
  obtain c r where c: "ChannelDecode ch raw = (c, r)"
    by fastforce
  obtain rs' where rs: "decode_all c raws = (ch', rs')" "rs = r # rs'"
    using Cons.prems(2) c by (auto split: prod.splits)
  note inv = ChannelDecode_inv [OF Cons.prems(1) c]
  note ih = Cons.IH [OF inv(1) rs(1)]
  show ?case
  proof (cases r)
    case (Inl e)
    then have "ch_QueueDepth c = ch_QueueDepth ch" "ch_LastRecvSeq c = ch_LastRecvSeq ch"
      using ChannelDecode_Inl [of ch raw c e] c by auto
    then show ?thesis
      using ih inv(2-5) Inl rs(2) by auto
  next
    case (Inr f)
    have d: "ChannelDecode ch raw = (c, Inr f)"
      using c Inr by simp
    have f: "f = inbound ch (if_Type f) (if_Payload f)"
      using ChannelDecode_Inr(13) [OF d] by (metis inbound_fields(2,7))
    have room: "has_room ch" and cr: "c = received ch (if_Type f)"
      using ChannelDecode_Inr(4,14) [OF d] by simp_all
    have q: "unat (ch_QueueDepth c) = Suc (unat (ch_QueueDepth ch))" "ch_LastRecvSeq c = ch_LastRecvSeq ch + 1"
      using received_inv(2) [OF Cons.prems(1) room] cr by (simp_all add: received_def)
    have wire: "raw = ipc_wire (ch_MACKey ch) f"
      using ChannelDecode_layout(1) [OF _ d] Cons.prems(1) by (simp add: channel_inv_def)
    have head: "if_Sequence f = ch_LastRecvSeq ch + 1" "if_Sender f = ch_RemoteRole ch" "if_Receiver f = ch_LocalRole ch"
        "if_SessionNonce f = ch_SessionNonce ch" "if_Type f \<noteq> TypeCritical"
      using ChannelDecode_Inr(3) [OF d] by (subst f, simp)+
    have seqs: "map if_Sequence (f # accepted rs') = map (\<lambda>i. ch_LastRecvSeq ch + word_of_nat (Suc i)) [0..<Suc (length (accepted rs'))]"
      using ih head(1) q(2) by (simp add: upt_conv_Cons add_ac del: upt_Suc flip: map_Suc_upt)
    show ?thesis
      using ih seqs head(2-5) inv(2-5) q(1) wire Inr rs(2) by auto
  qed
qed (simp add: channel_inv_def)

lemma full_refuses:
  assumes "\<not> has_room ch"
  shows "list_all isl (snd (decode_all ch raws))"
  using assms
proof (induction raws arbitrary: ch)
  case (Cons raw raws)
  obtain c r where c: "ChannelDecode ch raw = (c, r)"
    by fastforce
  then obtain e where e: "r = Inl e"
    using ChannelDecode_Inr(4) [of ch raw c] Cons.prems by (cases r) auto
  then have "\<not> has_room c"
    using ChannelDecode_Inl [of ch raw c e] c Cons.prems by (auto simp: has_room_def)
  then show ?case
    using Cons.IH [of c] run_steps(2) [OF c, of raws] e by (simp del: decode_all.simps)
qed simp

definition paired :: "channel_state \<Rightarrow> channel_state \<Rightarrow> bool" where
  "paired a b \<longleftrightarrow> channel_ok a \<and> \<not> ch_Closed a \<and> ch_LocalRole a = ch_RemoteRole b \<and> ch_RemoteRole a = ch_LocalRole b \<and>
     ch_SessionNonce a = ch_SessionNonce b \<and> ch_MACKey a = ch_MACKey b \<and> ch_NextSendSeq a = ch_LastRecvSeq b + 1"

definition ordinary :: "u16 \<times> bytes \<Rightarrow> bool" where
  "ordinary m \<longleftrightarrow> fst m \<in> {TypeRequest, TypeResponse} \<and> length (snd m) \<le> MaxFrameBytes"

lemma ChannelEncode_ordinary:
  assumes "channel_ok a" "\<not> ch_Closed a" "ordinary (t, p)"
  shows "ChannelEncode a t p = (a\<lparr>ch_NextSendSeq := ch_NextSendSeq a + 1\<rparr>, Inr (ipc_wire (ch_MACKey a) (outbound a t p)))"
proof -
  have "TypeRequest \<le> t" "t \<le> TypeCritical" "t \<noteq> ipc_TypeClose" "length p \<le> MaxFrameBytes"
    using assms(3) by (auto simp: ordinary_def ipc_type_defs)
  then show ?thesis
    using ChannelEncode_sends [OF assms(1,2), of t p] assms(2) by simp
qed

lemma encode_all_ordinary:
  assumes "channel_ok a" "\<not> ch_Closed a" "list_all ordinary ms"
  obtains raws where "snd (encode_all a ms) = map Inr raws" "length raws = length ms"
  using assms
proof (induction ms arbitrary: a thesis)
  case (Cons m ms)
  obtain t p where m: "m = (t, p)"
    by fastforce
  let ?a = "a\<lparr>ch_NextSendSeq := ch_NextSendSeq a + 1\<rparr>"
  obtain raws where raws: "snd (encode_all ?a ms) = map Inr raws" "length raws = length ms"
    using Cons.IH [of ?a] Cons.prems(2-4) by (auto simp: channel_ok_def)
  show ?case
    by (rule Cons.prems(1) [of "ipc_wire (ch_MACKey a) (outbound a t p) # raws"])
      (use run_steps(1) [OF ChannelEncode_ordinary [OF Cons.prems(2,3), of t p], of ms] Cons.prems(4) raws m in
        \<open>simp_all del: encode_all.simps\<close>)
qed simp

text \<open>Up to the queue bound every message arrives; from there on nothing does.\<close>

lemma paired_run:
  assumes "paired a b" "channel_inv b" "\<not> ch_Closed b" "list_all ordinary ms"
  shows "\<exists>raws fs es. snd (encode_all a ms) = map Inr raws \<and> snd (decode_all b raws) = map Inr fs @ es \<and>
    map (\<lambda>f. (if_Type f, if_Payload f)) fs = take (1024 - unat (ch_QueueDepth b)) ms \<and>
    length es = length ms - (1024 - unat (ch_QueueDepth b)) \<and> list_all isl es"
  using assms
proof (induction ms arbitrary: a b)
  case (Cons m ms)
  obtain t p where m: "m = (t, p)"
    by fastforce
  have ok: "channel_ok a" "\<not> ch_Closed a" "ordinary (t, p)" "list_all ordinary ms" "channel_ok b" "unat (ch_QueueDepth b) \<le> 1024"
    using Cons.prems m by (simp_all add: paired_def channel_inv_def)
  show ?case
  proof (cases "has_room b")
    case False
    then have "1024 - unat (ch_QueueDepth b) = 0"
      using has_room_less ok(6) by simp
    moreover obtain raws where raws: "snd (encode_all a (m # ms)) = map Inr raws" "length raws = length (m # ms)"
      by (rule encode_all_ordinary [OF ok(1,2) Cons.prems(4)])
    moreover have "length (snd (decode_all b raws)) = length raws"
      by (induction b raws rule: decode_all.induct) (auto split: prod.splits)
    ultimately show ?thesis
      using full_refuses [OF False, of raws] by (intro exI [of _ raws] exI [of _ "[]"] exI [of _ "snd (decode_all b raws)"]) simp
  next
    case True
    let ?a = "a\<lparr>ch_NextSendSeq := ch_NextSendSeq a + 1\<rparr>" and ?b = "received b t"
    have t: "t \<noteq> TypeCritical" "t \<noteq> ipc_TypeClose" "length p \<le> MaxFrameBytes"
      using ok(3) by (auto simp: ordinary_def ipc_type_defs)
    have same: "outbound a t p = inbound b t p" "ch_MACKey a = ch_MACKey b"
      using Cons.prems(1) by (simp_all add: paired_def outbound_def inbound_def)
    have enc: "ChannelEncode a t p = (?a, Inr (ipc_wire (ch_MACKey b) (inbound b t p)))"
      using ChannelEncode_ordinary [OF ok(1-3)] same by simp
    have dec: "ChannelDecode b (ipc_wire (ch_MACKey b) (inbound b t p)) = (?b, Inr (inbound b t p))"
      using ChannelDecode_wire [OF ok(5) Cons.prems(3) t(1,3)] True by simp
    have q: "unat (ch_QueueDepth ?b) = Suc (unat (ch_QueueDepth b))" "channel_inv ?b"
      using received_inv [OF Cons.prems(2) True] by simp_all
    have "paired ?a ?b" "\<not> ch_Closed ?b"
      using Cons.prems(1) t(2) by (auto simp: paired_def received_def channel_ok_def)
    then obtain raws fs es where ih: "snd (encode_all ?a ms) = map Inr raws" "snd (decode_all ?b raws) = map Inr fs @ es"
        "map (\<lambda>f. (if_Type f, if_Payload f)) fs = take (1024 - unat (ch_QueueDepth ?b)) ms"
        "length es = length ms - (1024 - unat (ch_QueueDepth ?b))" "list_all isl es"
      using Cons.IH [OF _ q(2) _ ok(4), of ?a] by blast
    have "1024 - unat (ch_QueueDepth b) = Suc (1024 - unat (ch_QueueDepth ?b))"
      using True has_room_less [OF ok(6)] q(1) by simp
    then show ?thesis
      using run_steps(1) [OF enc, of ms] run_steps(2) [OF dec, of raws] ih m
      by (intro exI [of _ "ipc_wire (ch_MACKey b) (inbound b t p) # raws"] exI [of _ "inbound b t p # fs"] exI [of _ es])
        (simp del: encode_all.simps decode_all.simps)
  qed
qed simp

lemma stream_roundtrip:
  assumes "raw \<noteq> []" "length raw \<le> stream_max"
  shows "\<exists>w. drive (ipc_WriteFrame raw) i = (Finish (Inr ()), i, w, 2) \<and> drive (ipc_ReadFrame 0) (w @ rest) = (Finish (Inr raw), rest, [], 2)"
proof -
  have "unat (len32 raw :: u32) = length raw"
    using assms(2) by (intro unat_of_nat_small) (simp add: ipc_const_defs)
  then show ?thesis
    using assms by (simp add: ipc_WriteFrame_def ipc_ReadFrame_def Let_def)
qed

subsection \<open>Properties\<close>

lemma new_channel:
  assumes "NewAuthenticatedChannel local remote nonce key = Inr ch"
    and "local \<in> set required_roles" "remote \<in> set required_roles" "length nonce = 16"
  shows "channel_inv ch" "\<not> ch_Closed ch" "ch_LastRecvSeq ch = 0" "ch_QueueDepth ch = 0" "ch_NextSendSeq ch = 1"
    "ch_LocalRole ch = local" "ch_RemoteRole ch = remote" "ch_SessionNonce ch = nonce" "ch_MACKey ch = key"
  using assms by (auto simp: NewAuthenticatedChannel_def NewChannel_def channel_inv_def channel_ok_def split: if_splits)

text \<open>
  C10: An authenticated channel admits only its peer's frames, in order and in bounded number.
  Whatever byte strings arrive at a new channel between two roles of the inventory, the frames it
  returns carry the sequence numbers 1, 2, 3, ..., name the expected sender, receiver and session
  nonce, are none of the critical type, are at most 1,024, and each was received as its canonical
  bytes followed by the authenticator under the channel's key.
\<close>

theorem channel_accepts_in_order:
  assumes "NewAuthenticatedChannel local remote nonce key = Inr ch"
    and "local \<in> set required_roles" and "remote \<in> set required_roles" and "length nonce = 16"
    and "decode_all ch raws = (ch', rs)"
  shows "length (accepted rs) \<le> 1024 \<and>
    map if_Sequence (accepted rs) = map (\<lambda>i. word_of_nat (Suc i)) [0..<length (accepted rs)] \<and>
    (\<forall>f\<in>set (accepted rs). if_Sender f = remote \<and> if_Receiver f = local \<and> if_SessionNonce f = nonce \<and>
       if_Type f \<noteq> TypeCritical \<and> ipc_wire key f \<in> set raws)"
  using decode_all_accepted [OF new_channel(1) [OF assms(1-4)] assms(5)] new_channel(3-) [OF assms(1-4)] by simp

definition sample_channel :: "process_role \<Rightarrow> process_role \<Rightarrow> channel_state" where
  "sample_channel l r = (NewChannel l r (replicate 16 7))\<lparr>ch_MACKey := replicate 32 9\<rparr>"

lemma sample_channel_new: "NewAuthenticatedChannel l r (replicate 16 7) (replicate 32 9) = Inr (sample_channel l r)"
  by (simp add: NewAuthenticatedChannel_def sample_channel_def)

lemma sample_roles: "RoleNet \<in> set required_roles" "RoleAuth \<in> set required_roles"
  by (simp_all add: required_roles_def)

theorem channel_accepts_in_order_witness:
  "\<exists>raw ch' f. decode_all (sample_channel RoleNet RoleAuth) [raw, [1, 2, 3]] = (ch', [Inr f, Inl (ipc_fail ''trunc'' ''frame too short'' True)]) \<and>
     if_Sequence f = 1 \<and> if_Sender f = RoleAuth \<and> ipc_wire (replicate 32 9) f \<in> {raw, [1, 2, 3]}"
proof -
  let ?ch = "sample_channel RoleNet RoleAuth" and ?nonce = "replicate 16 7 :: bytes"
  have nonce: "length ?nonce = 16"
    by simp
  note new = new_channel [OF sample_channel_new sample_roles nonce]
  let ?f = "inbound ?ch TypeRequest [5]" and ?c = "received ?ch TypeRequest"
  let ?raw = "ipc_wire (ch_MACKey ?ch) ?f"
  have "has_room ?ch"
    using new(4) by (simp add: has_room_def)
  then have dec: "ChannelDecode ?ch ?raw = (?c, Inr ?f)"
    using ChannelDecode_wire [of ?ch TypeRequest "[5]"] new(1,2) by (simp add: channel_inv_def ipc_type_defs MaxFrameBytes_def)
  have short: "ChannelDecode ?c [1, 2, 3] = (?c, Inl (ipc_fail ''trunc'' ''frame too short'' True))"
    by (simp add: ChannelDecode_def received_def ipc_type_defs ipc_HeaderBytes_def)
  have run: "decode_all ?ch [?raw, [1, 2, 3]] = (?c, [Inr ?f, Inl (ipc_fail ''trunc'' ''frame too short'' True)])"
    using dec short by simp
  show ?thesis
    using channel_accepts_in_order [OF sample_channel_new sample_roles nonce run]
    by (intro exI [of _ ?raw] exI [of _ ?c] exI [of _ ?f] conjI run) (simp_all del: inbound_fields)
qed

text \<open>
  C39: A channel wears out.  When one end of a channel sends requests and responses within the
  payload limit and the other end decodes every frame, the first 1,024 messages arrive exactly as
  sent, and every later one is refused: the queue depth is raised with each accepted frame and
  never lowered, whether or not the application has taken the frame.
\<close>

theorem channel_exhausts:
  assumes "NewAuthenticatedChannel local remote nonce key = Inr a" and "NewAuthenticatedChannel remote local nonce key = Inr b"
    and "local \<in> set required_roles" and "remote \<in> set required_roles" and "length nonce = 16"
    and "\<forall>(t, p)\<in>set ms. t \<in> {TypeRequest, TypeResponse} \<and> length p \<le> MaxFrameBytes"
  shows "\<exists>raws fs es. snd (encode_all a ms) = map Inr raws \<and> snd (decode_all b raws) = map Inr fs @ es \<and>
    map (\<lambda>f. (if_Type f, if_Payload f)) fs = take 1024 ms \<and> length es = length ms - 1024 \<and> list_all isl es"
proof -
  note a = new_channel [OF assms(1,3,4,5)] and b = new_channel [OF assms(2,4,3,5)]
  have "paired a b"
    using a b by (simp add: paired_def channel_inv_def)
  moreover have "list_all ordinary ms"
    using assms(6) by (auto simp: list_all_iff ordinary_def)
  ultimately show ?thesis
    using paired_run [OF _ b(1,2), of a ms] b(4) by simp
qed

theorem channel_exhausts_witness:
  "\<exists>raws fs es. snd (encode_all (sample_channel RoleNet RoleAuth) (replicate 2000 (TypeRequest, [5]))) = map Inr raws \<and>
     snd (decode_all (sample_channel RoleAuth RoleNet) raws) = map Inr fs @ es \<and>
     length fs = 1024 \<and> length es = 976 \<and> list_all isl es"
proof -
  have ms: "\<forall>(t, p)\<in>set (replicate 2000 (TypeRequest, [5 :: byte])). t \<in> {TypeRequest, TypeResponse} \<and> length p \<le> MaxFrameBytes"
    by (simp add: MaxFrameBytes_def)
  have nonce: "length (replicate 16 7 :: bytes) = 16"
    by simp
  obtain raws fs es where run: "snd (encode_all (sample_channel RoleNet RoleAuth) (replicate 2000 (TypeRequest, [5]))) = map Inr raws"
      "snd (decode_all (sample_channel RoleAuth RoleNet) raws) = map Inr fs @ es"
      "map (\<lambda>f. (if_Type f, if_Payload f)) fs = take 1024 (replicate 2000 (TypeRequest, [5]))"
      "length es = length (replicate 2000 (TypeRequest, [5 :: byte])) - 1024" "list_all isl es"
    using channel_exhausts [OF sample_channel_new sample_channel_new sample_roles nonce ms] by blast
  have "length fs = 1024"
    using arg_cong [where f = length, OF run(3)] by simp
  then show ?thesis
    using run(1,2,4,5) by (intro exI conjI) simp_all
qed

end
