(* ===== verification/Deletion.thy ===== *)
theory Deletion
  imports Codec
begin

text \<open>
  The safety gate of destructive operations (\<open>internal/deletion\<close>): the evaluation of a destructive
  plan against its thresholds (\<open>deletion.go\<close>) and the quarantine move by paths
  (\<open>quarantine_fs.go\<close>) and by descriptors (\<open>quarantine_at_unix.go\<close>, \<open>rename_excl_linux.go\<close>,
  \<open>rename_excl_darwin.go\<close>, \<open>rename_excl_other.go\<close>).  The file system is the archive root with its
  quarantine directory, which is not a symbolic link; what other processes do to it just before
  the rename, and the answers of the system calls, are parameters.  The text of a system error
  leaves out the operation and the path.
\<close>

subsection \<open>Evaluation\<close>

record thresholds =
  th_MaxObjectCount :: u64
  th_MaxPercentBPS :: u64
  th_MaxLogicalBytes :: u64
  th_MaxPhysicalBytes :: u64
  th_MaxPathClassCount :: u64
  th_RequireCompleteSrc :: bool

record del_observation =
  do_ObjectCount :: u64
  do_ArchiveObjectCount :: u64
  do_LogicalBytes :: u64
  do_PhysicalBytes :: u64
  do_PathClassCount :: u64
  do_UnknownObjectCount :: bool
  do_UnknownLogical :: bool
  do_UnknownPhysical :: bool
  do_UnknownPathClass :: bool
  do_SourceComplete :: bool
  do_SameVolume :: bool
  do_QuarantineCapacity :: u64
  do_RootSentinelOK :: bool
  do_VolumeAuthorized :: bool

record del_authorization =
  da_PlanDigest :: bytes
  da_ConfigDigest :: bytes
  da_CapabilityDigest :: bytes
  da_DestructiveAuth :: bytes
  da_AllowPermanentPurge :: bool

record decision =
  de_Allowed :: bool
  de_PermanentDisabled :: bool
  de_Reason :: string
  de_PercentBPS :: u64

record del_error =
  dl_Code :: string
  dl_Message :: string

definition del_error_text :: "del_error \<Rightarrow> string" where
  "del_error_text e = dl_Code e @ '': '' @ dl_Message e"

definition stop :: "string \<Rightarrow> string \<Rightarrow> del_error" where
  "stop code msg = \<lparr>dl_Code = code, dl_Message = msg\<rparr>"

definition checkMax :: "string \<Rightarrow> u64 \<Rightarrow> u64 \<Rightarrow> del_error option" where
  "checkMax name have_n max_n =
     (if max_n = 0 then Some (stop name (name @ '' maximum not configured''))
      else if have_n > max_n then Some (stop name (name @ '' '' @ itoa (unat have_n) @ '' exceeds max '' @ itoa (unat max_n)))
      else None)"

definition percentBPS :: "u64 \<Rightarrow> u64 \<Rightarrow> del_error + u64" where
  "percentBPS count archive =
     (if count = 0 then Inr 0
      else if archive = 0 then Inl (stop ''percent'' ''archive object count unknown or zero'')
      else if count > archive then Inl (stop ''percent'' ''destructive count exceeds archive count'')
      else if count > 18446744073709551615 div 10000 then Inl (stop ''percent'' ''percent arithmetic overflow'')
      else Inr ((count * 10000) div archive))"

text \<open>The threshold checks of \<open>Evaluate\<close>, in order; the first refusal is returned.\<close>

definition firstError :: "del_error option list \<Rightarrow> del_error option" where
  "firstError es = (case filter (\<lambda>e. e \<noteq> None) es of [] \<Rightarrow> None | e # _ \<Rightarrow> e)"

definition Evaluate :: "thresholds \<Rightarrow> del_observation \<Rightarrow> del_authorization \<Rightarrow> decision \<times> del_error option" where
  "Evaluate th obs auth =
     (let d = \<lparr>de_Allowed = False, de_PermanentDisabled = True, de_Reason = [], de_PercentBPS = 0\<rparr> in
      if da_DestructiveAuth auth = zero_digest then (d, Some (stop ''auth'' ''destructive authorization digest required''))
      else if da_PlanDigest auth = zero_digest \<or> da_ConfigDigest auth = zero_digest \<or> da_CapabilityDigest auth = zero_digest
        then (d, Some (stop ''auth'' ''plan/config/capability digests required''))
      else if \<not> do_RootSentinelOK obs then (d, Some (stop ''sentinel'' ''archive root sentinel invalid''))
      else if \<not> do_VolumeAuthorized obs then (d, Some (stop ''volume'' ''root volume identity not authorized''))
      else if \<not> do_SameVolume obs then (d, Some (stop ''volume'' ''quarantine must be same-volume''))
      else if th_RequireCompleteSrc th \<and> \<not> do_SourceComplete obs
        then (d, Some (stop ''source'' ''incomplete source blocks destructive ops''))
      else if do_UnknownObjectCount obs \<or> do_UnknownLogical obs \<or> do_UnknownPhysical obs \<or> do_UnknownPathClass obs
        then (d, Some (stop ''unknown'' ''unknown size/count is over threshold''))
      else
        case firstError
            [checkMax ''object_count'' (do_ObjectCount obs) (th_MaxObjectCount th),
             checkMax ''logical_bytes'' (do_LogicalBytes obs) (th_MaxLogicalBytes th),
             checkMax ''physical_bytes'' (do_PhysicalBytes obs) (th_MaxPhysicalBytes th),
             checkMax ''path_class'' (do_PathClassCount obs) (th_MaxPathClassCount th)] of
          Some err \<Rightarrow> (d, Some err)
        | None \<Rightarrow>
            (case percentBPS (do_ObjectCount obs) (do_ArchiveObjectCount obs) of
               Inl err \<Rightarrow> (d, Some err)
             | Inr pct \<Rightarrow>
                 let d = d\<lparr>de_PercentBPS := pct\<rparr> in
                 if th_MaxPercentBPS th = 0 \<and> do_ObjectCount obs > 0
                   then (d, Some (stop ''percent'' ''MaxPercentBPS not configured''))
                 else if pct > th_MaxPercentBPS th
                   then (d, Some (stop ''percent''
                     (''destructive percent '' @ itoa (unat pct) @ '' bps exceeds '' @ itoa (unat (th_MaxPercentBPS th)))))
                 else
                   let need = do_PhysicalBytes obs;
                       need = (if need = 0 then do_LogicalBytes obs else need) in
                   if need > do_QuarantineCapacity obs then (d, Some (stop ''capacity'' ''insufficient quarantine capacity''))
                   else
                     let d = (if da_AllowPermanentPurge auth
                                then d\<lparr>de_Reason := ''quarantine-only; permanent purge requires separate transaction''\<rparr> else d);
                         d = d\<lparr>de_Allowed := True\<rparr>;
                         d = d\<lparr>de_Reason := ''quarantine permitted''\<rparr>
                     in (d, None)))"

record quarantine_plan =
  qp_SourceName :: bytes
  qp_QuarantineName :: bytes
  qp_ObjectID :: bytes
  qp_PlanDigest :: bytes
  qp_AuthDigest :: bytes

definition BuildQuarantinePlan :: "bytes \<Rightarrow> bytes \<Rightarrow> bytes \<Rightarrow> bytes \<Rightarrow> bytes \<Rightarrow> del_error + quarantine_plan" where
  "BuildQuarantinePlan sourceName quarantineName objectID plan auth =
     (if length sourceName = 0 \<or> length quarantineName = 0 then Inl (stop ''name'' ''source and quarantine names required'')
      else if objectID = zero_digest \<or> plan = zero_digest \<or> auth = zero_digest
        then Inl (stop ''bind'' ''object/plan/auth digests required'')
      else Inr \<lparr>qp_SourceName = sourceName, qp_QuarantineName = quarantineName, qp_ObjectID = objectID,
             qp_PlanDigest = plan, qp_AuthDigest = auth\<rparr>)"

definition del_validateComponent :: "bytes \<Rightarrow> del_error option" where
  "del_validateComponent name =
     (if length name = 0 then Some (stop ''name'' ''empty component'')
      else if list_ex (\<lambda>c. c = 0 \<or> c = 0x2f \<or> c = 0x5c) name then Some (stop ''name'' ''invalid component byte'')
      else if name = [0x2e] \<or> name = [0x2e, 0x2e] then Some (stop ''name'' ''dot components forbidden'')
      else None)"

subsection \<open>The quarantine move\<close>

text \<open>
  The root's objects by name and, once it exists, the quarantine directory.  The directory has the
  name \<open>quarantine\<close> in the root; another object may have taken that name.
\<close>

record 'o del_fs =
  df_root :: "bytes \<Rightarrow> 'o option"
  df_quar :: "(bytes \<Rightarrow> 'o option) option"

datatype sys_error = EEXIST | OtherError string

fun sys_error_text :: "sys_error \<Rightarrow> string" where
  "sys_error_text EEXIST = ''file exists''"
| "sys_error_text (OtherError s) = s"

definition quarantine :: bytes where
  "quarantine = bytes_of ''quarantine''"

definition mkdirQuarantine :: "'o del_fs \<Rightarrow> 'o del_fs \<times> sys_error option" where
  "mkdirQuarantine fs =
     (if df_quar fs \<noteq> None \<or> df_root fs quarantine \<noteq> None then (fs, Some EEXIST)
      else (fs\<lparr>df_quar := Some (\<lambda>_. None)\<rparr>, None))"

text \<open>
  What \<open>rename(2)\<close> into the quarantine directory does when the system does not refuse it: it
  replaces what has the new name.  With the exclusive flag it fails instead.  The quarantine
  directory cannot be moved into itself.  A refusal that depends on the kinds of the two objects
  (\<open>EISDIR\<close>, \<open>ENOTDIR\<close>, \<open>ENOTEMPTY\<close>) is a value of the failure parameter \<open>po_rename\<close> or
  \<open>ao_rename\<close> of the moves below, as is every other failure of the call; the lemmas hold for
  all values of it.
\<close>

definition renameat :: "bytes \<Rightarrow> bytes \<Rightarrow> 'o del_fs \<Rightarrow> 'o del_fs \<times> sys_error option" where
  "renameat from to fs =
     (case df_quar fs of
        None \<Rightarrow> (fs, Some (OtherError ''no such file or directory''))
      | Some q \<Rightarrow>
          if from = quarantine then (fs, Some (OtherError ''invalid argument''))
          else (case df_root fs from of
                  None \<Rightarrow> (fs, Some (OtherError ''no such file or directory''))
                | Some obj \<Rightarrow> (fs\<lparr>df_root := (df_root fs)(from := None), df_quar := Some (q(to := Some obj))\<rparr>, None)))"

definition renameatExcl :: "bytes \<Rightarrow> bytes \<Rightarrow> 'o del_fs \<Rightarrow> 'o del_fs \<times> sys_error option" where
  "renameatExcl from to fs =
     (if Option.bind (df_quar fs) (\<lambda>q. q to) \<noteq> None \<and> (from = quarantine \<or> df_root fs from \<noteq> None)
      then (fs, Some EEXIST) else renameat from to fs)"

text \<open>\<open>renameExclusive\<close> on Linux and Darwin, and on the other systems.\<close>

definition renameExclusive :: "bytes \<Rightarrow> bytes \<Rightarrow> 'o del_fs \<Rightarrow> 'o del_fs \<times> sys_error option" where
  "renameExclusive from to fs = renameatExcl from to fs"

definition renameExclusive_other :: "bytes \<Rightarrow> bytes \<Rightarrow> 'o del_fs \<Rightarrow> 'o del_fs \<times> sys_error option" where
  "renameExclusive_other from to fs = renameat from to fs"

text \<open>\<open>os.MkdirAll\<close> is content with a directory that exists.\<close>

definition mkdirAll :: "'o del_fs \<Rightarrow> 'o del_fs \<times> sys_error option" where
  "mkdirAll fs =
     (if df_quar fs \<noteq> None then (fs, None)
      else if df_root fs quarantine \<noteq> None then (fs, Some (OtherError ''not a directory''))
      else mkdirQuarantine fs)"

text \<open>The failures of the system calls on paths; \<open>None\<close> lets the call do its work.\<close>

record path_os =
  po_mkdir :: "sys_error option"
  po_lstatDst :: "sys_error option"
  po_lstatSrc :: "sys_error option"
  po_rename :: "sys_error option"
  po_syncQuarantine :: "sys_error option"
  po_syncRoot :: "sys_error option"

text \<open>The checks both moves make first.\<close>

definition moveAdmitted :: "decision \<Rightarrow> quarantine_plan \<Rightarrow> del_error option" where
  "moveAdmitted d qp =
     (if \<not> de_Allowed d then Some (stop ''decision'' (''quarantine not allowed: '' @ de_Reason d))
      else if \<not> de_PermanentDisabled d then Some (stop ''policy'' ''permanent deletion path is disabled'')
      else
        case del_validateComponent (qp_SourceName qp) of
          Some err \<Rightarrow> Some err
        | None \<Rightarrow> del_validateComponent (qp_QuarantineName qp))"

definition ExecuteQuarantineMove ::
    "path_os \<Rightarrow> ('o del_fs \<Rightarrow> 'o del_fs) \<Rightarrow> 'o del_fs \<Rightarrow> decision \<Rightarrow> quarantine_plan \<Rightarrow> 'o del_fs \<times> del_error option" where
  "ExecuteQuarantineMove os others fs d qp =
     (case moveAdmitted d qp of
        Some err \<Rightarrow> (fs, Some err)
      | None \<Rightarrow>
          (case (if po_mkdir os \<noteq> None then (fs, po_mkdir os) else mkdirAll fs) of
             (fs, Some e) \<Rightarrow> (fs, Some (stop ''io'' (sys_error_text e)))
           | (fs, None) \<Rightarrow>
               let src = qp_SourceName qp; dst = qp_QuarantineName qp in
               if po_lstatDst os \<noteq> None then (fs, Some (stop ''io'' (sys_error_text (the (po_lstatDst os)))))
               else if Option.bind (df_quar fs) (\<lambda>q. q dst) \<noteq> None then (fs, Some (stop ''collision'' ''quarantine object already exists''))
               else if po_lstatSrc os \<noteq> None then (fs, Some (stop ''io'' (''source: '' @ sys_error_text (the (po_lstatSrc os)))))
               else if src \<noteq> quarantine \<and> df_root fs src = None
                 then (fs, Some (stop ''io'' ''source: no such file or directory''))
               else
                 case (if po_rename os \<noteq> None then (others fs, po_rename os) else renameat src dst (others fs)) of
                   (fs, Some e) \<Rightarrow> (fs, Some (stop ''io'' (sys_error_text e)))
                 | (fs, None) \<Rightarrow>
                     if po_syncQuarantine os \<noteq> None
                       then (fs, Some (stop ''io'' (''sync quarantine: '' @ sys_error_text (the (po_syncQuarantine os)))))
                     else if po_syncRoot os \<noteq> None
                       then (fs, Some (stop ''io'' (''sync root: '' @ sys_error_text (the (po_syncRoot os)))))
                     else (fs, None)))"

record at_os =
  ao_open :: "sys_error option"
  ao_mkdirat :: "sys_error option"
  ao_openat :: "sys_error option"
  ao_fstatRoot :: "sys_error + u64"
  ao_fstatQuarantine :: "sys_error + u64"
  ao_rename :: "sys_error option"
  ao_fsyncQuarantine :: "sys_error option"
  ao_fsyncRoot :: "sys_error option"

text \<open>The rename is the build's \<open>renameExclusive\<close>.\<close>

definition moveAT ::
    "(bytes \<Rightarrow> bytes \<Rightarrow> 'o del_fs \<Rightarrow> 'o del_fs \<times> sys_error option) \<Rightarrow> at_os \<Rightarrow> ('o del_fs \<Rightarrow> 'o del_fs) \<Rightarrow> 'o del_fs \<Rightarrow>
     quarantine_plan \<Rightarrow> 'o del_fs \<times> del_error option" where
  "moveAT ren os others fs qp =
     (case (if ao_rename os \<noteq> None then (others fs, ao_rename os) else ren (qp_SourceName qp) (qp_QuarantineName qp) (others fs)) of
        (fs, Some e) \<Rightarrow>
          if e = EEXIST then (fs, Some (stop ''collision'' ''quarantine object already exists''))
          else (fs, Some (stop ''io'' (''renameat: '' @ sys_error_text e)))
      | (fs, None) \<Rightarrow>
          if ao_fsyncQuarantine os \<noteq> None
            then (fs, Some (stop ''io'' (''fsync quarantine: '' @ sys_error_text (the (ao_fsyncQuarantine os)))))
          else if ao_fsyncRoot os \<noteq> None
            then (fs, Some (stop ''io'' (''fsync root: '' @ sys_error_text (the (ao_fsyncRoot os)))))
          else (fs, None))"

definition ExecuteQuarantineMoveAT ::
    "(bytes \<Rightarrow> bytes \<Rightarrow> 'o del_fs \<Rightarrow> 'o del_fs \<times> sys_error option) \<Rightarrow> at_os \<Rightarrow> ('o del_fs \<Rightarrow> 'o del_fs) \<Rightarrow> 'o del_fs \<Rightarrow>
     decision \<Rightarrow> quarantine_plan \<Rightarrow> 'o del_fs \<times> del_error option" where
  "ExecuteQuarantineMoveAT ren os others fs d qp =
     (case moveAdmitted d qp of
        Some err \<Rightarrow> (fs, Some err)
      | None \<Rightarrow>
          if ao_open os \<noteq> None then (fs, Some (stop ''io'' (sys_error_text (the (ao_open os)))))
          else
            case (if ao_mkdirat os \<noteq> None then (fs, ao_mkdirat os) else mkdirQuarantine fs) of
              (fs, mk) \<Rightarrow>
                if mk \<noteq> None \<and> mk \<noteq> Some EEXIST then (fs, Some (stop ''io'' (sys_error_text (the mk))))
                else if ao_openat os \<noteq> None then (fs, Some (stop ''io'' (sys_error_text (the (ao_openat os)))))
                else if df_quar fs = None
                  then (fs, Some (stop ''io'' (if df_root fs quarantine = None then ''no such file or directory'' else ''not a directory'')))
                else
                  (case ao_fstatRoot os of
                     Inl e \<Rightarrow> (fs, Some (stop ''io'' (sys_error_text e)))
                   | Inr rdev \<Rightarrow>
                       (case ao_fstatQuarantine os of
                          Inl e \<Rightarrow> (fs, Some (stop ''io'' (sys_error_text e)))
                        | Inr qdev \<Rightarrow>
                            if rdev \<noteq> qdev then (fs, Some (stop ''volume'' ''quarantine directory not same volume''))
                            else moveAT ren os others fs qp)))"

subsection \<open>What the gate permits\<close>

text \<open>The conditions of a permitted plan over the integers.\<close>

definition preconditions :: "thresholds \<Rightarrow> del_observation \<Rightarrow> del_authorization \<Rightarrow> bool" where
  "preconditions th obs auth \<longleftrightarrow>
     zero_digest \<notin> {da_DestructiveAuth auth, da_PlanDigest auth, da_ConfigDigest auth, da_CapabilityDigest auth} \<and>
     do_RootSentinelOK obs \<and> do_VolumeAuthorized obs \<and> do_SameVolume obs \<and> (th_RequireCompleteSrc th \<longrightarrow> do_SourceComplete obs) \<and>
     \<not> do_UnknownObjectCount obs \<and> \<not> do_UnknownLogical obs \<and> \<not> do_UnknownPhysical obs \<and> \<not> do_UnknownPathClass obs"

definition permitted :: "thresholds \<Rightarrow> del_observation \<Rightarrow> del_authorization \<Rightarrow> bool" where
  "permitted th obs auth \<longleftrightarrow> preconditions th obs auth \<and>
     (\<forall>(have_n, max_n)\<in>{(do_ObjectCount obs, th_MaxObjectCount th), (do_LogicalBytes obs, th_MaxLogicalBytes th),
        (do_PhysicalBytes obs, th_MaxPhysicalBytes th), (do_PathClassCount obs, th_MaxPathClassCount th)}.
        0 < unat max_n \<and> unat have_n \<le> unat max_n) \<and>
     (let n = unat (do_ObjectCount obs); a = unat (do_ArchiveObjectCount obs); m = unat (th_MaxPercentBPS th) in
      n = 0 \<or> n \<le> a \<and> n * 10000 < 2 ^ 64 \<and> 0 < m \<and> n * 10000 < (m + 1) * a) \<and>
     unat (if do_PhysicalBytes obs = 0 then do_LogicalBytes obs else do_PhysicalBytes obs) \<le> unat (do_QuarantineCapacity obs)"

lemma checkMax_None: "checkMax name h m = None \<longleftrightarrow> 0 < unat m \<and> unat h \<le> unat m"
  by (auto simp: checkMax_def unat_gt_0 word_less_nat_alt not_less)

lemma firstError_None: "firstError es = None \<longleftrightarrow> list_all (\<lambda>e. e = None) es"
  by (induction es) (auto simp: firstError_def)

lemma percentBPS_within:
  "(\<exists>pct. percentBPS n a = Inr pct \<and> \<not> (m = 0 \<and> 0 < n) \<and> pct \<le> m) \<longleftrightarrow>
   unat n = 0 \<or> unat n \<le> unat a \<and> unat n * 10000 < 2 ^ 64 \<and> 0 < unat m \<and> unat n * 10000 < (unat m + 1) * unat a"
proof (cases "n = 0 \<or> a = 0 \<or> n > a")
  case True
  then show ?thesis
    by (auto simp: percentBPS_def word_less_nat_alt unat_eq_zero)
next
  case False
  then have a: "0 < unat a" "0 < unat n" "unat n \<le> unat a"
    by (auto simp: unat_gt_0 not_less word_le_nat_alt)
  have small: "\<not> n > 18446744073709551615 div 10000 \<longleftrightarrow> unat n * 10000 < 2 ^ 64"
    by (auto simp: word_less_nat_alt unat_div)
  have pct: "unat ((n * 10000) div a) = unat n * 10000 div unat a" if "unat n * 10000 < 2 ^ 64"
    using that by (simp add: unat_div unat_word_ariths)
  have "unat n * 10000 div unat a \<le> unat m \<longleftrightarrow> unat n * 10000 < (unat m + 1) * unat a"
    using a(1) by (simp add: less_mult_imp_div_less div_less_iff_less_mult flip: less_Suc_eq_le)
  then show ?thesis
    using False a small pct by (auto simp: percentBPS_def word_le_nat_alt unat_gt_0 unat_eq_zero word_gt_0)
qed

lemma Evaluate_refused:
  assumes "\<not> preconditions th obs auth"
  shows "snd (Evaluate th obs auth) \<noteq> None" "\<not> de_Allowed (fst (Evaluate th obs auth))"
  using assms by (auto simp: Evaluate_def Let_def preconditions_def)

lemma Evaluate_thresholds:
  assumes "preconditions th obs auth"
  shows "Evaluate th obs auth =
    (let d = \<lparr>de_Allowed = False, de_PermanentDisabled = True, de_Reason = [], de_PercentBPS = 0\<rparr> in
     case firstError
            [checkMax ''object_count'' (do_ObjectCount obs) (th_MaxObjectCount th),
             checkMax ''logical_bytes'' (do_LogicalBytes obs) (th_MaxLogicalBytes th),
             checkMax ''physical_bytes'' (do_PhysicalBytes obs) (th_MaxPhysicalBytes th),
             checkMax ''path_class'' (do_PathClassCount obs) (th_MaxPathClassCount th)] of
       Some err \<Rightarrow> (d, Some err)
     | None \<Rightarrow>
         (case percentBPS (do_ObjectCount obs) (do_ArchiveObjectCount obs) of
            Inl err \<Rightarrow> (d, Some err)
          | Inr pct \<Rightarrow>
              let d = d\<lparr>de_PercentBPS := pct\<rparr> in
              if th_MaxPercentBPS th = 0 \<and> do_ObjectCount obs > 0 then (d, Some (stop ''percent'' ''MaxPercentBPS not configured''))
              else if pct > th_MaxPercentBPS th
                then (d, Some (stop ''percent''
                  (''destructive percent '' @ itoa (unat pct) @ '' bps exceeds '' @ itoa (unat (th_MaxPercentBPS th)))))
              else if (if do_PhysicalBytes obs = 0 then do_LogicalBytes obs else do_PhysicalBytes obs) > do_QuarantineCapacity obs
                then (d, Some (stop ''capacity'' ''insufficient quarantine capacity''))
              else (d\<lparr>de_Allowed := True, de_Reason := ''quarantine permitted''\<rparr>, None)))"
proof -
  have final: "(if b then d\<lparr>de_Reason := r\<rparr> else d)\<lparr>de_Allowed := True\<rparr>\<lparr>de_Reason := s\<rparr> = d\<lparr>de_Allowed := True, de_Reason := s\<rparr>"
    for b r s and d :: decision
    by simp
  have false: "da_DestructiveAuth auth = zero_digest \<longleftrightarrow> False"
    "da_PlanDigest auth = zero_digest \<or> da_ConfigDigest auth = zero_digest \<or> da_CapabilityDigest auth = zero_digest \<longleftrightarrow> False"
    "do_RootSentinelOK obs \<longleftrightarrow> True" "do_VolumeAuthorized obs \<longleftrightarrow> True" "do_SameVolume obs \<longleftrightarrow> True"
    "th_RequireCompleteSrc th \<and> \<not> do_SourceComplete obs \<longleftrightarrow> False"
    "do_UnknownObjectCount obs \<or> do_UnknownLogical obs \<or> do_UnknownPhysical obs \<or> do_UnknownPathClass obs \<longleftrightarrow> False"
    using assms by (auto simp: preconditions_def)
  show ?thesis
    unfolding Evaluate_def Let_def false final by (simp only: if_False not_True_eq_False)
qed

lemma Evaluate_exact:
  "snd (Evaluate th obs auth) = None \<longleftrightarrow> permitted th obs auth"
  "de_Allowed (fst (Evaluate th obs auth)) \<longleftrightarrow> snd (Evaluate th obs auth) = None"
proof -
  let ?n = "do_ObjectCount obs" and ?a = "do_ArchiveObjectCount obs" and ?m = "th_MaxPercentBPS th"
  have p: "permitted th obs auth \<longleftrightarrow> preconditions th obs auth \<and>
      list_all (\<lambda>e. e = None) [checkMax ''object_count'' ?n (th_MaxObjectCount th),
        checkMax ''logical_bytes'' (do_LogicalBytes obs) (th_MaxLogicalBytes th),
        checkMax ''physical_bytes'' (do_PhysicalBytes obs) (th_MaxPhysicalBytes th),
        checkMax ''path_class'' (do_PathClassCount obs) (th_MaxPathClassCount th)] \<and>
      (\<exists>pct. percentBPS ?n ?a = Inr pct \<and> \<not> (?m = 0 \<and> 0 < ?n) \<and> pct \<le> ?m) \<and>
      \<not> (if do_PhysicalBytes obs = 0 then do_LogicalBytes obs else do_PhysicalBytes obs) > do_QuarantineCapacity obs"
    unfolding percentBPS_within
    by (simp add: permitted_def checkMax_None Let_def not_less word_le_nat_alt conj_ac)
  show "snd (Evaluate th obs auth) = None \<longleftrightarrow> permitted th obs auth"
  proof (cases "preconditions th obs auth")
    case True
    then show ?thesis
      unfolding p Evaluate_thresholds [OF True] firstError_None [symmetric]
      by (auto simp: Let_def not_less split: option.splits sum.splits if_splits)
  qed (use Evaluate_refused p in blast)
  show "de_Allowed (fst (Evaluate th obs auth)) \<longleftrightarrow> snd (Evaluate th obs auth) = None"
  proof (cases "preconditions th obs auth")
    case True
    then show ?thesis
      unfolding Evaluate_thresholds [OF True] by (simp add: Let_def split: option.splits sum.splits)
  qed (use Evaluate_refused in blast)
qed

subsection \<open>What the move does\<close>

text \<open>The source object has gone to a free quarantine name; nothing else has changed.\<close>

definition moved :: "bytes \<Rightarrow> bytes \<Rightarrow> 'o del_fs \<Rightarrow> 'o del_fs \<Rightarrow> bool" where
  "moved src dst fs fs' \<longleftrightarrow> (\<exists>obj q. df_root fs src = Some obj \<and> df_quar fs = Some q \<and> q dst = None \<and>
     fs' = fs\<lparr>df_root := (df_root fs)(src := None), df_quar := Some (q(dst := Some obj))\<rparr>)"

lemma renameExclusive_moves:
  "renameExclusive src dst fs = (fs', r) \<Longrightarrow> fs' = fs \<and> r \<noteq> None \<or> moved src dst fs fs' \<and> r = None"
  by (auto simp: renameExclusive_def renameatExcl_def renameat_def moved_def split: option.splits if_splits)

lemma moveAT_moves:
  assumes "moveAT renameExclusive os others fs qp = (fs', r)"
  shows "fs' = others fs \<and> r \<noteq> None \<or> moved (qp_SourceName qp) (qp_QuarantineName qp) (others fs) fs'"
proof -
  obtain fs1 e where e: "(if ao_rename os \<noteq> None then (others fs, ao_rename os)
      else renameExclusive (qp_SourceName qp) (qp_QuarantineName qp) (others fs)) = (fs1, e)"
    by fastforce
  have "fs' = fs1" "e \<noteq> None \<Longrightarrow> r \<noteq> None"
    using assms unfolding moveAT_def e by (auto split: option.splits if_splits)
  moreover have "fs1 = others fs \<and> e \<noteq> None \<or> moved (qp_SourceName qp) (qp_QuarantineName qp) (others fs) fs1"
    using e renameExclusive_moves [of "qp_SourceName qp" "qp_QuarantineName qp" "others fs" fs1 e] by (cases "ao_rename os") (simp_all, blast+)
  ultimately show ?thesis
    by blast
qed

lemma moveAT_reached:
  assumes "ExecuteQuarantineMoveAT ren os others fs d qp = (fs', r)"
  shows "(r \<noteq> None \<and> fs' \<in> {fs, fst (mkdirQuarantine fs)}) \<or>
    de_Allowed d \<and> (\<exists>fs0\<in>{fs, fst (mkdirQuarantine fs)}. moveAT ren os others fs0 qp = (fs', r))"
proof (cases "moveAdmitted d qp")
  case None
  then have d: "de_Allowed d"
    by (auto simp: moveAdmitted_def split: if_splits)
  obtain fs0 mk where mk: "(if ao_mkdirat os \<noteq> None then (fs, ao_mkdirat os) else mkdirQuarantine fs) = (fs0, mk)"
    by fastforce
  then have fs0: "fs0 \<in> {fs, fst (mkdirQuarantine fs)}"
    by (auto split: if_splits)
  have "r \<noteq> None \<and> fs' = fs \<or> r \<noteq> None \<and> fs' = fs0 \<or> moveAT ren os others fs0 qp = (fs', r)"
    using assms None unfolding ExecuteQuarantineMoveAT_def mk by (auto split: if_splits sum.splits)
  then show ?thesis
    using d fs0 by auto
qed (use assms in \<open>auto simp: ExecuteQuarantineMoveAT_def\<close>)

subsection \<open>Properties\<close>

text \<open>
  C9: \<open>ExecuteQuarantineMoveAT\<close> with the exclusive rename of Linux and Darwin only ever moves the
  source object into quarantine, to a free name, and only when the gate permits it.  Let
  \<open>Evaluate\<close> decide on thresholds, observation and authorisation and let the move run with any system
  call failing and other processes acting just before the rename, where the name \<open>quarantine\<close>
  in the archive root is free, a directory, or another object that is not a symbolic link (the
  open call would follow one).  Either the move reports an error and nothing of the archive has
  changed but an empty quarantine directory that may have been created and what the others did, or
  the source object has moved to a quarantine name that was free and everything else is as the
  others left it, apart from a quarantine directory that may have been created; the latter only if
  all preconditions hold and every count, size and share is within its threshold, computed
  without overflow.  Success is reported only after the move.  The move by paths and
  the rename of other systems do not have this property: both can replace what holds the name.
\<close>

theorem quarantine_only_moves:
  assumes "Evaluate th obs auth = (d, err)"
    and "ExecuteQuarantineMoveAT renameExclusive os others fs d qp = (fs', r)"
  shows "(r \<noteq> None \<and> (\<exists>fs0\<in>{fs, fst (mkdirQuarantine fs)}. fs' \<in> {fs0, others fs0})) \<or>
    permitted th obs auth \<and>
      (\<exists>fs0\<in>{fs, fst (mkdirQuarantine fs)}. moved (qp_SourceName qp) (qp_QuarantineName qp) (others fs0) fs')"
proof -
  have "permitted th obs auth" if "de_Allowed d"
    using that Evaluate_exact [of th obs auth] assms(1) by simp
  then show ?thesis
    using moveAT_reached [OF assms(2)] moveAT_moves by blast
qed

text \<open>System calls that all do their work, on one volume.\<close>

definition quiet_os :: at_os where
  "quiet_os = \<lparr>ao_open = None, ao_mkdirat = None, ao_openat = None, ao_fstatRoot = Inr 1, ao_fstatQuarantine = Inr 1, ao_rename = None,
     ao_fsyncQuarantine = None, ao_fsyncRoot = None\<rparr>"

definition sample_thresholds :: thresholds where
  "sample_thresholds = \<lparr>th_MaxObjectCount = 10, th_MaxPercentBPS = 500, th_MaxLogicalBytes = 1000, th_MaxPhysicalBytes = 1000,
     th_MaxPathClassCount = 10, th_RequireCompleteSrc = True\<rparr>"

definition sample_observation :: del_observation where
  "sample_observation = \<lparr>do_ObjectCount = 1, do_ArchiveObjectCount = 20, do_LogicalBytes = 5, do_PhysicalBytes = 5, do_PathClassCount = 1,
     do_UnknownObjectCount = False, do_UnknownLogical = False, do_UnknownPhysical = False, do_UnknownPathClass = False,
     do_SourceComplete = True, do_SameVolume = True, do_QuarantineCapacity = 5, do_RootSentinelOK = True, do_VolumeAuthorized = True\<rparr>"

definition sample_authorization :: del_authorization where
  "sample_authorization = \<lparr>da_PlanDigest = [1], da_ConfigDigest = [1], da_CapabilityDigest = [1], da_DestructiveAuth = [1], da_AllowPermanentPurge = False\<rparr>"

definition sample_move :: quarantine_plan where
  "sample_move = \<lparr>qp_SourceName = [97], qp_QuarantineName = [98], qp_ObjectID = [1], qp_PlanDigest = [1], qp_AuthDigest = [1]\<rparr>"

theorem quarantine_only_moves_witness:
  "\<exists>d fs'. Evaluate sample_thresholds sample_observation sample_authorization = (d, None) \<and>
     ExecuteQuarantineMoveAT renameExclusive quiet_os (\<lambda>fs. fs) \<lparr>df_root = [[97] \<mapsto> True], df_quar = None\<rparr> d sample_move = (fs', None) \<and>
     permitted sample_thresholds sample_observation sample_authorization \<and>
     moved [97] [98] \<lparr>df_root = [[97] \<mapsto> True], df_quar = Some (\<lambda>_. None)\<rparr> fs'"
proof -
  let ?d = "\<lparr>de_Allowed = True, de_PermanentDisabled = True, de_Reason = ''quarantine permitted'', de_PercentBPS = 500\<rparr>"
  let ?fs = "\<lparr>df_root = [[97] \<mapsto> True], df_quar = None\<rparr>"
    and ?fs' = "\<lparr>df_root = [[97] \<mapsto> True](([97] :: bytes) := None), df_quar = Some ((\<lambda>_. None)(([98] :: bytes) := Some True))\<rparr>"
  have "([1] :: bytes) \<noteq> zero_digest"
    by (simp add: zero_digest_def numeral_eq_Suc)
  then have e: "Evaluate sample_thresholds sample_observation sample_authorization = (?d, None)"
    by (simp add: Evaluate_def Let_def sample_thresholds_def sample_observation_def sample_authorization_def checkMax_def
        percentBPS_def firstError_def)
  have x: "ExecuteQuarantineMoveAT renameExclusive quiet_os (\<lambda>fs. fs) ?fs ?d sample_move = (?fs', None)"
    by (simp add: ExecuteQuarantineMoveAT_def moveAT_def moveAdmitted_def del_validateComponent_def sample_move_def quiet_os_def
        mkdirQuarantine_def renameExclusive_def renameatExcl_def renameat_def quarantine_def bytes_of_def)
  have mk: "fst (mkdirQuarantine ?fs) = \<lparr>df_root = [[97] \<mapsto> True], df_quar = Some (\<lambda>_. None)\<rparr>"
    by (simp add: mkdirQuarantine_def quarantine_def bytes_of_def)
  have "permitted sample_thresholds sample_observation sample_authorization \<and>
      moved [97] [98] \<lparr>df_root = [[97] \<mapsto> True], df_quar = Some (\<lambda>_. None)\<rparr> ?fs'"
    using quarantine_only_moves [OF e x] unfolding mk by (auto simp: moved_def sample_move_def)
  then show ?thesis
    using e x by blast
qed

text \<open>
  C40: On systems without an exclusive rename the descriptor-relative move replaces what is in
  quarantine.  When every call works, the source exists and the quarantine name is taken, the
  fallback build reports success and the object quarantined before is gone, while the exclusive
  build refuses with a collision and changes nothing.
\<close>

theorem quarantine_fallback_replaces:
  assumes "moveAdmitted d qp = None" and "qp_SourceName qp \<noteq> quarantine"
    and "df_root fs (qp_SourceName qp) = Some new" and "df_quar fs = Some q" and "q (qp_QuarantineName qp) = Some old"
  shows "ExecuteQuarantineMoveAT renameExclusive_other quiet_os (\<lambda>fs. fs) fs d qp =
      (fs\<lparr>df_root := (df_root fs)(qp_SourceName qp := None), df_quar := Some (q(qp_QuarantineName qp := Some new))\<rparr>, None) \<and>
    ExecuteQuarantineMoveAT renameExclusive quiet_os (\<lambda>fs. fs) fs d qp =
      (fs, Some (stop ''collision'' ''quarantine object already exists''))"
  using assms
  by (simp add: ExecuteQuarantineMoveAT_def moveAT_def quiet_os_def mkdirQuarantine_def renameExclusive_def renameExclusive_other_def
      renameatExcl_def renameat_def)

theorem quarantine_fallback_replaces_witness:
  "\<exists>d fs'. ExecuteQuarantineMoveAT renameExclusive_other quiet_os (\<lambda>fs. fs)
      \<lparr>df_root = [[97] \<mapsto> True], df_quar = Some [[98] \<mapsto> False]\<rparr> d sample_move = (fs', None) \<and> Option.bind (df_quar fs') (\<lambda>q. q [98]) = Some True"
proof -
  let ?d = "\<lparr>de_Allowed = True, de_PermanentDisabled = True, de_Reason = [], de_PercentBPS = 500\<rparr>"
    and ?fs = "\<lparr>df_root = [[97] \<mapsto> True], df_quar = Some [[98] \<mapsto> False]\<rparr>"
  have "moveAdmitted ?d sample_move = None" "qp_SourceName sample_move \<noteq> quarantine"
    by (simp_all add: moveAdmitted_def del_validateComponent_def sample_move_def quarantine_def bytes_of_def)
  then have "ExecuteQuarantineMoveAT renameExclusive_other quiet_os (\<lambda>fs. fs) ?fs ?d sample_move =
      (?fs\<lparr>df_root := (df_root ?fs)(qp_SourceName sample_move := None), df_quar := Some ([[98] \<mapsto> False](qp_QuarantineName sample_move := Some True))\<rparr>, None)"
    using quarantine_fallback_replaces [of ?d sample_move ?fs True "[[98] \<mapsto> False]" False] by (simp add: sample_move_def)
  then show ?thesis
    by (intro exI conjI) (assumption, simp_all add: sample_move_def)
qed

text \<open>The move by paths checks before it renames: what another process puts there in between is replaced.\<close>

lemma path_move_race:
  assumes "moveAdmitted d qp = None" "qp_SourceName qp \<noteq> quarantine" "df_root fs (qp_SourceName qp) = Some new"
    "df_quar fs = Some q" "q (qp_QuarantineName qp) = None"
  shows "ExecuteQuarantineMove \<lparr>po_mkdir = None, po_lstatDst = None, po_lstatSrc = None, po_rename = None, po_syncQuarantine = None,
      po_syncRoot = None\<rparr> (\<lambda>fs. fs\<lparr>df_quar := Some (q(qp_QuarantineName qp := Some old))\<rparr>) fs d qp =
    (fs\<lparr>df_root := (df_root fs)(qp_SourceName qp := None), df_quar := Some (q(qp_QuarantineName qp := Some new))\<rparr>, None)"
  using assms by (simp add: ExecuteQuarantineMove_def mkdirAll_def renameat_def Let_def)

end
