(* ===== verification/Spec2Isabelle.thy ===== *)
theory Spec2Isabelle
  imports Local_Journal Resource Planner Publish Handshake_Correct Ipc Deletion
begin

text \<open>
  Verification of integris, a transactional synchronisation system written in Go.

  \<^bold>\<open>The program.\<close>  A transfer is planned, authorised, received, verified, published and confirmed.
  Every decision is recorded in an append-only, hash-chained journal; after a crash the state of
  the transaction is reconstructed from the journal and from what is on disk.  Paths come from
  other machines and are resolved component by component below a root descriptor.  Inputs are
  admitted against explicit limits before anything is allocated.  Two machines authenticate each
  other with a pre-shared root key, derive a traffic key and exchange sealed frames.  On one
  machine the daemon is split into processes with separate authority that talk over bounded
  channels, and removals only ever move objects into quarantine.

  \<^bold>\<open>The theories.\<close>
  \<^item> \<open>Prelude\<close>: byte slices, Go strings, machine words, step relations with the locale
    \<open>inductive_invariant\<close>.
  \<^item> \<open>Sha256\<close>: SHA-256 and HMAC as the standard library computes them.
  \<^item> \<open>Resource\<close> (\<open>internal/resource\<close>): limits, refusals, checked 64-bit arithmetic, budgets.
    \<open>AdmitSliceCap\<close> is exact on the integer product; no sequence of requests exceeds a budget.
  \<^item> \<open>Codec\<close> (\<open>internal/codec\<close>): the record envelope; decoding inverts encoding, accepted bytes are
    canonical, cut records are incomplete and never corrupt.
  \<^item> \<open>Journal\<close>, \<open>Journal_Correct\<close> (\<open>internal/journal\<close>, \<open>internal/journal/verify\<close>): reader, writer,
    segments in memory and on disk, fault injection, the independent verifier.  The locale
    \<open>segment\<close> states what a byte segment promises when reads may fail, \<open>exact_segment\<close> when they do
    not; they are interpreted for every segment type.  The reader and the verifier agree and accept
    exactly the chains; appending is crash consistent; the head commitment binds the contents.
  \<^item> \<open>Local_Journal\<close> (\<open>internal/localsync\<close>: \<open>finishOpenJournal\<close>): opening a journal cuts off a torn tail
    and nothing else while reads work; a read that fails inside a record is taken for a torn tail.
  \<^item> \<open>Compare\<close>, \<open>Encoding\<close>: comparison functions and the insertion sort of the sources with the
    locales \<open>comparison\<close> and \<open>total_comparison\<close>; length-prefixed concatenation with the locale
    \<open>prefix_code\<close>.
  \<^item> \<open>Path\<close> (\<open>internal/path\<close>): the component grammar with UTF-8 and normalisation checks, and
    descriptor-relative resolution as an event log over an arbitrary file system.
  \<^item> \<open>Planner\<close> (\<open>internal/plan\<close>): classification, preflight and the canonical plan with its digest.
  \<^item> \<open>Observability\<close> (\<open>internal/observability\<close>): redaction rules, the bounded sink with interleaved
    emissions, the canonical event bytes.
  \<^item> \<open>Recovery\<close> (\<open>internal/recovery\<close>, \<open>formal/transaction\<close>): the decision procedure, its side effects
    through a persistence interface, and exactly which of the states it reports the abstract
    transaction model reaches.
  \<^item> \<open>Publish\<close> (\<open>internal/recovery\<close>): the publisher and the directory-backed persistence over an
    explicit tree; publishing, observing and recovering compose to an atomic publication.
  \<^item> \<open>Crypto\<close> (\<open>internal/crypto\<close>): HMAC, HKDF, transcript, key schedule and proofs.  HKDF agrees with
    RFC 5869 on the lengths it accepts; the transcript binds everything appended to it.
  \<^item> \<open>Session\<close> (\<open>internal/session\<close>, \<open>formal/session\<close>): the session state machine, its refinement of
    the abstract model and its invariants over every sequence of calls.
  \<^item> \<open>Protocol\<close>, \<open>Driver\<close> (\<open>internal/protocol\<close>): wire frames and bodies, canonical in both
    directions, and the driver that maps frames to session calls; a driver accepts frames in
    order and never reuses an outbound sequence number.
  \<^item> \<open>Connection\<close>: code on a byte stream as programs of reads and writes; two programs joined by
    reliable streams, with the locale \<open>commuting_steps\<close>: every interleaving reaches the same end.
  \<^item> \<open>Handshake\<close>, \<open>Handshake_Correct\<close> (\<open>internal/remotesync\<close>: framing, keys, keyring, handshake,
    session seal): both sides of the handshake.  Every interleaving takes at most 21 steps and
    completes with equal sessions and keys, after which data is delivered in order; the traffic
    nonces of the two directions coincide.
  \<^item> \<open>Authority\<close> (\<open>internal/authority\<close>): the inventory of roles and capabilities and its checks.
  \<^item> \<open>Ipc\<close> (\<open>internal/ipc\<close>): the role-bound channel and its stream.  A channel admits only its
    peer's frames in order, and wears out after 1,024 of them.
  \<^item> \<open>Deletion\<close> (\<open>internal/deletion\<close>): the gate for destructive plans, exact over the integers, and
    the quarantine moves, for a quarantine directory that is not a symbolic link; only the
    exclusive rename never replaces an object.

  \<^bold>\<open>Conventions.\<close>  Go structs are records with a prefix per type, enumerations are datatypes or, where
  arbitrary wire values reach them, words.  A function that returns an error is a sum with the
  error on the left, or an option.  Methods with a pointer receiver return the new state.
  Interface values are records of operations over a state type.  Loops are recursive functions
  with a termination proof; no definition uses fuel.

  \<^bold>\<open>Parameters.\<close>  Answers of the operating system (failing reads, writes and truncations, barriers,
  directory listings, clone and sync primitives), the Unicode tables of \<open>nfc_tables.go\<close> (generated data), the bytes of
  the random source, the ChaCha20-Poly1305 cipher and the results of callbacks are arguments of
  the definitions; theorems quantify over them.  Where delivery needs a working cipher the
  hypothesis \<open>aead_correct\<close> says that opening undoes sealing and a tag has 16 bytes.

  \<^bold>\<open>Not modelled.\<close>  The command-line programs, the daemon, launcher and supervisor, the confinement
  backends and the platform wrappers are sequences of system calls whose effect lies outside the
  program.  Local synchronisation, apart from opening its journal, and the transfer side of \<open>internal/remotesync\<close> interleave such
  calls with the parts modelled here.  \<open>internal/config\<close> is mostly the behaviour of the standard
  JSON decoder, and \<open>internal/fsmodel\<close> probes the file system.  The manifest lists each part with
  its reason.
\<close>

end
